(* ===== verification/Prelude.thy ===== *)
theory Prelude
  imports Main "HOL-Library.Word" "HOL-Library.Monad_Syntax" "HOL-Library.Signed_Division"
begin

text \<open>
  Shared vocabulary of the development: the machine integer types of the kernel
  (\<open>src/include/type.h\<close>), the C operations on them that HOL does not have, little-endian
  byte encodings of machine words, and slices of byte buffers (what the casts between
  \<^verbatim>\<open>char *\<close> buffers and C structures read and write).

  Conventions used by every theory:
  \<^item> a C object is a list of its elements, and a pointer into it is the suffix from the
    pointed-to element on, or an index;
  \<^item> an operation that can fail to return (an access outside its object, a failed
    \<^verbatim>\<open>assert\<close>, which spins for ever, or an endless loop) has an option type: \<^term>\<open>None\<close>
    means that control does not come back;
  \<^item> state is passed explicitly, as a record per component.
\<close>

unbundle bit_operations_syntax

section \<open>Types and named collections\<close>

type_synonym u8 = "8 word"
type_synonym u16 = "16 word"
type_synonym u32 = "32 word"
type_synonym u64 = "64 word"

named_theorems buf_simps \<open>rewriting of slices of buffers\<close>
named_theorems codec_simps \<open>lengths and round trips of encodings\<close>

section \<open>C integer operations\<close>

text \<open>
  The kernel is compiled by \<^verbatim>\<open>riscv64-gcc -O0\<close> (\<open>src/Makefile\<close>). A shift \<^verbatim>\<open>1 << k\<close> of an
  \<^verbatim>\<open>int\<close> is the instruction \<^verbatim>\<open>sllw\<close>, which uses the low five bits of the shift amount;
  converting the \<^verbatim>\<open>int\<close> result to \<^verbatim>\<open>uint64_t\<close> extends its sign.
\<close>

definition sllw1 :: "int \<Rightarrow> 32 word" where
  "sllw1 k = push_bit (nat (k mod 32)) 1"

definition int_to_u64 :: "32 word \<Rightarrow> u64" where
  "int_to_u64 w = scast w"

text \<open>Additions of \<^verbatim>\<open>int\<close> values are \<^verbatim>\<open>addw\<close>: the result keeps its low 32 bits, read as signed.\<close>

definition s32 :: "int \<Rightarrow> int" where
  "s32 x = signed_take_bit 31 x"

lemma s32_id [simp]: "- 2147483648 \<le> x \<Longrightarrow> x < 2147483648 \<Longrightarrow> s32 x = x"
  by (simp add: s32_def signed_take_bit_int_eq_self_iff)

lemma bit_sllw1: "bit (sllw1 k) n \<longleftrightarrow> n = nat (k mod 32)"
proof -
  have "nat (k mod 32) < 32" by simp
  then show ?thesis
    by (auto simp: sllw1_def bit_exp_iff)
qed

lemma bit_int_to_u64:
  "bit (int_to_u64 w) n \<longleftrightarrow> n < 64 \<and> bit w (min n 31)"
  by (auto simp: int_to_u64_def bit_word_scast_iff min_def dest: bit_imp_le_length)

lemma sllw1_u64_small:
  assumes "0 \<le> k" "k < 31"
  shows "int_to_u64 (sllw1 k) = push_bit (nat k) 1"
proof (rule bit_eqI)
  fix n assume "possible_bit TYPE(u64) n"
  with assms show "bit (int_to_u64 (sllw1 k)) n = bit (push_bit (nat k) (1::u64)) n"
    by (auto simp: bit_int_to_u64 bit_sllw1 bit_exp_iff min_def)
qed

lemma int_to_u64_NOT: "int_to_u64 (NOT w) = NOT (int_to_u64 w)"
  by (rule bit_eqI) (auto simp: bit_int_to_u64 bit_not_iff min_def)

lemma unat64_less: "unat (x::u64) < 2 ^ 64"
  using unsigned_less [of x, where ?'a = nat] by simp

section \<open>Slices of buffers\<close>

definition slice :: "nat \<Rightarrow> nat \<Rightarrow> 'a list \<Rightarrow> 'a list" where
  "slice off n xs = take n (drop off xs)"

definition splice_at :: "nat \<Rightarrow> 'a list \<Rightarrow> 'a list \<Rightarrow> 'a list" where
  "splice_at off ys xs = take off xs @ ys @ drop (off + length ys) xs"

lemma length_slice [buf_simps, simp]: "length (slice off n xs) = min n (length xs - off)"
  by (simp add: slice_def)

lemma length_splice_at [buf_simps, simp]:
  "off + length ys \<le> length xs \<Longrightarrow> length (splice_at off ys xs) = length xs"
  by (simp add: splice_at_def)

lemma nth_slice [buf_simps]: "i < n \<Longrightarrow> off + n \<le> length xs \<Longrightarrow> slice off n xs ! i = xs ! (off + i)"
  by (simp add: slice_def)

lemma nth_splice_at:
  "off + length ys \<le> length xs \<Longrightarrow> i < length xs \<Longrightarrow>
   splice_at off ys xs ! i = (if off \<le> i \<and> i < off + length ys then ys ! (i - off) else xs ! i)"
  by (auto simp: splice_at_def nth_append min_def)

lemma slice_splice_same [buf_simps]:
  "off + length ys \<le> length xs \<Longrightarrow> n = length ys \<Longrightarrow> slice off n (splice_at off ys xs) = ys"
  by (simp add: slice_def splice_at_def)

lemma slice_splice_other [buf_simps]:
  assumes "off + length ys \<le> length xs" "off' + n \<le> off \<or> off + length ys \<le> off'"
    and "off' + n \<le> length xs"
  shows "slice off' n (splice_at off ys xs) = slice off' n xs"
  using assms
  by (intro nth_equalityI) (auto simp: nth_slice nth_splice_at)

lemma slice_splice_inside:
  assumes "off + length ys \<le> length xs" "off \<le> off'" "off' + n \<le> off + length ys"
  shows "slice off' n (splice_at off ys xs) = slice (off' - off) n ys"
  using assms
  by (intro nth_equalityI) (auto simp: nth_slice nth_splice_at)

lemma slice_all [buf_simps]: "length xs \<le> n \<Longrightarrow> slice 0 n xs = xs"
  by (simp add: slice_def)

lemma slice_slice: "b + n \<le> m \<Longrightarrow> slice b n (slice a m xs) = slice (a + b) n xs"
  by (auto simp: slice_def drop_take min_def add.commute)

lemma splice_at_all: "length ys = length xs \<Longrightarrow> splice_at 0 ys xs = ys"
  by (simp add: splice_at_def)

section \<open>Little-endian encodings\<close>

definition le_put :: "nat \<Rightarrow> 'a::len word \<Rightarrow> u8 list" where
  "le_put n w = map (\<lambda>i. ucast (drop_bit (8 * i) w)) [0..<n]"

fun le_get :: "u8 list \<Rightarrow> 'a::len word" where
  "le_get [] = 0"
| "le_get (b # bs) = ucast b OR push_bit 8 (le_get bs)"

lemma length_le_put [codec_simps, simp]: "length (le_put n w) = n"
  by (simp add: le_put_def)

lemma bit_le_get:
  "bit (le_get bs :: 'a::len word) k \<longleftrightarrow>
     k < LENGTH('a) \<and> k < 8 * length bs \<and> bit (bs ! (k div 8)) (k mod 8)"
proof (induction bs arbitrary: k)
  case Nil
  then show ?case by simp
next
  case (Cons b bs)
  show ?case
  proof (cases "k < 8")
    case True
    then show ?thesis
      by (auto simp: bit_or_iff bit_push_bit_iff bit_ucast_iff)
  next
    case False
    have eq: "k div 8 = Suc ((k - 8) div 8)" "k mod 8 = (k - 8) mod 8"
      using False by (simp_all add: le_div_geq le_mod_geq)
    have "\<not> bit b k" using False bit_imp_le_length [of b k] by auto
    then show ?thesis using False Cons.IH [of "k - 8"] eq
      by (auto simp: bit_or_iff bit_push_bit_iff bit_ucast_iff)
  qed
qed

lemma le_get_put [codec_simps]:
  fixes w :: "'a::len word"
  assumes "LENGTH('a) = 8 * n"
  shows "le_get (le_put n w) = w"
proof (rule bit_eqI)
  fix k assume "possible_bit TYPE('a word) k"
  then have k: "k < LENGTH('a)" by simp
  then have "k div 8 < n" using assms by auto
  with k assms show "bit (le_get (le_put n w) :: 'a word) k = bit w k"
    by (auto simp: bit_le_get le_put_def bit_ucast_iff bit_drop_bit_eq)
qed

lemma le_put_get [codec_simps]:
  assumes "length bs = n" "LENGTH('a) = 8 * n"
  shows "le_put n (le_get bs :: 'a::len word) = bs"
proof (rule nth_equalityI)
  show "length (le_put n (le_get bs :: 'a word)) = length bs" using assms by simp
next
  fix i assume "i < length (le_put n (le_get bs :: 'a word))"
  then have i: "i < n" by simp
  show "le_put n (le_get bs :: 'a word) ! i = bs ! i"
  proof (rule bit_eqI)
    fix k assume "possible_bit TYPE(u8) k"
    then have "k < 8" by simp
    with i assms show "bit (le_put n (le_get bs :: 'a word) ! i) k = bit (bs ! i) k"
      by (auto simp: le_put_def bit_ucast_iff bit_drop_bit_eq bit_le_get)
  qed
qed

text \<open>An array of words as the bytes of its elements, and back.\<close>

definition put_array :: "nat \<Rightarrow> 'a::len word list \<Rightarrow> u8 list" where
  "put_array n ws = concat (map (le_put n) ws)"

definition get_array :: "nat \<Rightarrow> nat \<Rightarrow> u8 list \<Rightarrow> 'a::len word list" where
  "get_array n k bs = map (\<lambda>i. le_get (slice (n * i) n bs)) [0..<k]"

lemma length_put_array [codec_simps, simp]: "length (put_array n ws) = n * length ws"
  by (induction ws) (simp_all add: put_array_def)

lemma length_get_array [codec_simps, simp]: "length (get_array n k bs) = k"
  by (simp add: get_array_def)

lemma put_array_Cons: "put_array n (w # ws) = le_put n w @ put_array n ws"
  by (simp add: put_array_def)

lemma slice_append2: "length xs \<le> off \<Longrightarrow> slice off n (xs @ ys) = slice (off - length xs) n ys"
  by (simp add: slice_def)

lemma slice_append1: "off + n \<le> length xs \<Longrightarrow> slice off n (xs @ ys) = slice off n xs"
  by (simp add: slice_def)

lemma slice_put_array:
  "i < length ws \<Longrightarrow> slice (n * i) n (put_array n ws) = le_put n (ws ! i)"
proof (induction ws arbitrary: i)
  case Nil
  then show ?case by simp
next
  case (Cons w ws)
  show ?case
  proof (cases i)
    case 0
    then show ?thesis by (simp add: put_array_Cons slice_def)
  next
    case (Suc j)
    have "slice (n * i) n (put_array n (w # ws)) = slice (n * j) n (put_array n ws)"
      by (simp add: put_array_Cons slice_append2 Suc)
    then show ?thesis using Cons Suc by simp
  qed
qed

lemma get_put_array [codec_simps]:
  fixes ws :: "'a::len word list"
  assumes "LENGTH('a) = 8 * n" "length ws = k"
  shows "get_array n k (put_array n ws) = ws"
  using assms
  by (intro nth_equalityI) (auto simp: get_array_def slice_put_array le_get_put)

lemma get_array_nth: "i < k \<Longrightarrow> get_array n k bs ! i = le_get (slice (n * i) n bs)"
  by (simp add: get_array_def)

lemma slice_array_bound:
  assumes "i < (k::nat)" shows "n * i + n \<le> n * k"
proof -
  have "n * Suc i \<le> n * k" using assms by (intro mult_le_mono2) simp
  then show ?thesis by simp
qed

lemma get_array_splice:
  fixes w :: "'a::len word"
  assumes "LENGTH('a) = 8 * n" "i < k" "n * k \<le> length bs"
  shows "get_array n k (splice_at (n * i) (le_put n w) bs) = (get_array n k bs)[i := w]"
proof (rule nth_equalityI)
  show "length (get_array n k (splice_at (n * i) (le_put n w) bs) :: 'a word list)
        = length ((get_array n k bs)[i := w])" by simp
next
  fix j assume "j < length (get_array n k (splice_at (n * i) (le_put n w) bs) :: 'a word list)"
  then have j: "j < k" by simp
  have bi: "n * i + n \<le> length bs" and bj: "n * j + n \<le> length bs"
    using slice_array_bound [OF assms(2), of n] slice_array_bound [OF j, of n] assms(3) by simp_all
  show "get_array n k (splice_at (n * i) (le_put n w) bs) ! j = (get_array n k bs)[i := w] ! j"
  proof (cases "j = i")
    case True
    then show ?thesis using bi j assms by (simp add: get_array_nth buf_simps codec_simps)
  next
    case False
    then have "n * j + n \<le> n * i \<or> n * i + n \<le> n * j"
      by (meson linorder_neqE_nat slice_array_bound)
    then show ?thesis using bi bj j False
      by (simp add: get_array_nth slice_splice_other)
  qed
qed

section \<open>Loops\<close>

text \<open>
  A \<^verbatim>\<open>for\<close> loop over a known range whose body may not return: the body runs once per element.
\<close>

fun foldM :: "('a \<Rightarrow> 's \<Rightarrow> 's option) \<Rightarrow> 'a list \<Rightarrow> 's \<Rightarrow> 's option" where
  "foldM f [] s = Some s"
| "foldM f (x # xs) s = do { s' \<leftarrow> f x s; foldM f xs s' }"

lemma foldM_append: "foldM f (xs @ ys) s = do { s' \<leftarrow> foldM f xs s; foldM f ys s' }"
  by (induction xs arbitrary: s) (auto split: Option.bind_splits)

lemma foldM_invariant:
  assumes "foldM f xs s = Some s'" "P s"
    and "\<And>x s s'. x \<in> set xs \<Longrightarrow> P s \<Longrightarrow> f x s = Some s' \<Longrightarrow> P s'"
  shows "P s'"
  using assms
proof (induction xs arbitrary: s)
  case Nil
  then show ?case by simp
next
  case (Cons x xs)
  then obtain s1 where s1: "f x s = Some s1" "foldM f xs s1 = Some s'"
    by (auto split: Option.bind_splits)
  have "P s1" using Cons.prems(2,3) s1(1) by (meson list.set_intros(1))
  then show ?case using Cons.IH [OF s1(2)] Cons.prems(3) by (meson list.set_intros(2))
qed

lemma foldM_returns:
  assumes "P s" "\<And>x s. x \<in> set xs \<Longrightarrow> P s \<Longrightarrow> \<exists>s'. f x s = Some s' \<and> P s'"
  shows "\<exists>s'. foldM f xs s = Some s' \<and> P s'"
  using assms
proof (induction xs arbitrary: s)
  case Nil
  then show ?case by simp
next
  case (Cons x xs)
  then obtain s1 where "f x s = Some s1" "P s1" by (meson list.set_intros(1))
  then show ?case using Cons by simp
qed

section \<open>Lists\<close>

text \<open>The index of the first element with a property: a linear search over an array.\<close>

fun find_index :: "('a \<Rightarrow> bool) \<Rightarrow> 'a list \<Rightarrow> nat option" where
  "find_index P [] = None"
| "find_index P (x # xs) = (if P x then Some 0 else map_option Suc (find_index P xs))"

lemma find_index_SomeD:
  "find_index P xs = Some i \<Longrightarrow> i < length xs \<and> P (xs ! i) \<and> (\<forall>j<i. \<not> P (xs ! j))"
proof (induction xs arbitrary: i)
  case Nil
  then show ?case by simp
next
  case (Cons x xs)
  show ?case
  proof (cases i)
    case 0
    then show ?thesis using Cons.prems by (auto split: if_splits)
  next
    case (Suc j)
    then have "\<not> P x" "find_index P xs = Some j" using Cons.prems by (auto split: if_splits)
    then show ?thesis using Cons.IH [of j] Suc by (auto simp: nth_Cons split: nat.splits)
  qed
qed

lemma find_index_None_iff: "find_index P xs = None \<longleftrightarrow> (\<forall>x\<in>set xs. \<not> P x)"
  by (induction xs) auto

lemma find_index_eqI:
  assumes "i < length xs" "P (xs ! i)" "\<And>j. j < i \<Longrightarrow> \<not> P (xs ! j)"
  shows "find_index P xs = Some i"
proof (cases "find_index P xs")
  case None
  then show ?thesis using assms nth_mem by (auto simp: find_index_None_iff)
next
  case (Some j)
  then show ?thesis using find_index_SomeD [OF Some] assms by (metis linorder_neqE_nat)
qed

lemma distinct_remove_split:
  "n \<in> set xs \<Longrightarrow> distinct xs \<Longrightarrow>
   \<exists>as bs. xs = as @ n # bs \<and> n \<notin> set as \<and> n \<notin> set bs \<and> remove1 n xs = as @ bs"
proof -
  assume n: "n \<in> set xs" and d: "distinct xs"
  then obtain as bs where "xs = as @ n # bs" "n \<notin> set as"
    using split_list_first by metis
  with d have "xs = as @ n # bs \<and> n \<notin> set as \<and> n \<notin> set bs \<and> remove1 n xs = as @ bs"
    by (auto simp: remove1_append)
  then show ?thesis by blast
qed

section \<open>Bounded first-in first-out buffers\<close>

text \<open>
  What a client of a ring of at most \<open>cap\<close> entries relies on. A refused \<open>push\<close> and a \<open>pop\<close> of an
  empty ring are \<open>None\<close> and leave the state as it is.
\<close>

datatype 'a ring_event = Push 'a | Pop

text \<open>A run gives the entries accepted, the entries delivered and the final state.\<close>

fun ring_run :: "('a \<Rightarrow> 's \<Rightarrow> 's option) \<Rightarrow> ('s \<Rightarrow> ('a \<times> 's) option) \<Rightarrow> 'a ring_event list \<Rightarrow>
    's \<Rightarrow> 'a list \<times> 'a list \<times> 's" where
  "ring_run push pop [] s = ([], [], s)"
| "ring_run push pop (Push x # es) s =
     (case push x s of None \<Rightarrow> ring_run push pop es s
      | Some s1 \<Rightarrow> (case ring_run push pop es s1 of (i, out, s2) \<Rightarrow> (x # i, out, s2)))"
| "ring_run push pop (Pop # es) s =
     (case pop s of None \<Rightarrow> ring_run push pop es s
      | Some (x, s1) \<Rightarrow> (case ring_run push pop es s1 of (i, out, s2) \<Rightarrow> (i, x # out, s2)))"

locale bounded_fifo =
  fixes rep :: "'s \<Rightarrow> 'a list \<Rightarrow> bool"
    and cap :: nat
    and ok :: "'a \<Rightarrow> bool"
    and push :: "'a \<Rightarrow> 's \<Rightarrow> 's option"
    and pop :: "'s \<Rightarrow> ('a \<times> 's) option"
  assumes push_room: "rep s q \<Longrightarrow> ok x \<Longrightarrow> length q < cap \<Longrightarrow> \<exists>s'. push x s = Some s' \<and> rep s' (q @ [x])"
    and push_full: "rep s q \<Longrightarrow> ok x \<Longrightarrow> \<not> length q < cap \<Longrightarrow> push x s = None"
    and pop_first: "rep s (x # q) \<Longrightarrow> \<exists>s'. pop s = Some (x, s') \<and> rep s' q"
    and pop_empty: "rep s [] \<Longrightarrow> pop s = None"
begin

lemma run_fifo:
  assumes "rep s q" "\<forall>x. Push x \<in> set es \<longrightarrow> ok x" "ring_run push pop es s = (i, out, s')"
  shows "\<exists>q'. rep s' q' \<and> q @ i = out @ q'"
  using assms
proof (induction es arbitrary: s q i out s')
  case Nil
  then show ?case by simp
next
  case (Cons e es)
  show ?case
  proof (cases e)
    case (Push x)
    show ?thesis
    proof (cases "length q < cap")
      case True
      then obtain s1 where p: "push x s = Some s1" "rep s1 (q @ [x])"
        using push_room Cons.prems(1,2) Push by force
      obtain i' where "ring_run push pop es s1 = (i', out, s')" "i = x # i'"
        using Cons.prems(3) p Push by (auto split: prod.splits)
      then show ?thesis using Cons.IH [OF p(2), of i' out s'] Cons.prems(2) by auto
    next
      case False
      then have "push x s = None" using push_full Cons.prems(1,2) Push by simp
      then show ?thesis using Cons.IH [OF Cons.prems(1)] Cons.prems(2,3) Push by simp
    qed
  next
    case Pop
    show ?thesis
    proof (cases q)
      case Nil
      then have "pop s = None" using pop_empty Cons.prems(1) by simp
      then show ?thesis using Cons.IH [OF Cons.prems(1)] Cons.prems(2,3) Pop by simp
    next
      case (Cons x q1)
      then obtain s1 where p: "pop s = Some (x, s1)" "rep s1 q1" using pop_first Cons.prems(1) by blast
      obtain o' where "ring_run push pop es s1 = (i, o', s')" "out = x # o'"
        using Cons.prems(3) p Pop by (auto split: prod.splits)
      then show ?thesis using Cons.IH [OF p(2), of i o' s'] Cons.prems(2) Cons by auto
    qed
  qed
qed

end

end
