(* ===== verification/Klist.thy ===== *)
theory Klist
  imports Prelude
begin

text \<open>
  The intrusive doubly linked circular lists of \<open>src/include/os/list.h\<close>. Every queue of the
  kernel is such a list, so the links are one store: \<^verbatim>\<open>next\<close> and \<^verbatim>\<open>prev\<close> fields indexed by
  node. A queue is a head node and the nodes on the way back to it. The interface locale
  \<open>queue_store\<close> says what the operations do to the queues as HOL lists; it is interpreted on
  the pointer operations.
\<close>

section \<open>Nodes and operations\<close>

record 'n links =
  nxt :: "'n \<Rightarrow> 'n"
  prv :: "'n \<Rightarrow> 'n"

definition set_next :: "'n \<Rightarrow> 'n \<Rightarrow> 'n links \<Rightarrow> 'n links" where
  "set_next n v L = L\<lparr>nxt := (nxt L)(n := v)\<rparr>"

definition set_prev :: "'n \<Rightarrow> 'n \<Rightarrow> 'n links \<Rightarrow> 'n links" where
  "set_prev n v L = L\<lparr>prv := (prv L)(n := v)\<rparr>"

definition INIT_LIST_HEAD :: "'n \<Rightarrow> 'n links \<Rightarrow> 'n links" where
  "INIT_LIST_HEAD head L = set_next head head (set_prev head head L)"

definition is_queue_empty :: "'n \<Rightarrow> 'n links \<Rightarrow> bool" where
  "is_queue_empty queue L \<longleftrightarrow> nxt L queue = queue"

definition list_insert :: "'n \<Rightarrow> 'n \<Rightarrow> 'n \<Rightarrow> 'n links \<Rightarrow> 'n links" where
  "list_insert new p q L =
     set_prev new p (set_next new q (set_next p new (set_prev q new L)))"

definition list_add_tail :: "'n \<Rightarrow> 'n \<Rightarrow> 'n links \<Rightarrow> 'n links" where
  "list_add_tail new head L = list_insert new (prv L head) head L"

text \<open>
  \<^verbatim>\<open>entry->next->prev = entry->prev; entry->prev->next = entry->next;\<close> The second statement
  reads the links after the first one has written.
\<close>

definition list_delete_entry :: "'n \<Rightarrow> 'n links \<Rightarrow> 'n links" where
  "list_delete_entry entry L =
     (let L1 = set_prev (nxt L entry) (prv L entry) L
      in set_next (prv L1 entry) (nxt L1 entry) L1)"

lemmas link_defs = set_next_def set_prev_def INIT_LIST_HEAD_def is_queue_empty_def
  list_insert_def list_add_tail_def list_delete_entry_def Let_def

section \<open>Paths\<close>

text \<open>Consecutive nodes of the list are linked both ways.\<close>

fun linked :: "'n links \<Rightarrow> 'n list \<Rightarrow> bool" where
  "linked L (x # y # zs) \<longleftrightarrow> nxt L x = y \<and> prv L y = x \<and> linked L (y # zs)"
| "linked L _ \<longleftrightarrow> True"

text \<open>The queue with this head holds these nodes, in this order.\<close>

definition is_queue :: "'n links \<Rightarrow> 'n \<Rightarrow> 'n list \<Rightarrow> bool" where
  "is_queue L h xs \<longleftrightarrow> distinct (h # xs) \<and> linked L (h # xs @ [h])"

lemma linked_append:
  "linked L (xs @ y # zs) \<longleftrightarrow> linked L (xs @ [y]) \<and> linked L (y # zs)"
proof (induction xs)
  case Nil
  then show ?case by simp
next
  case (Cons x xs)
  then show ?case by (cases xs) auto
qed

text \<open>Only the \<^verbatim>\<open>next\<close> of every node but the last and the \<^verbatim>\<open>prev\<close> of every node but the first count.\<close>

lemma linked_cong:
  assumes "\<And>x. x \<in> set (butlast xs) \<Longrightarrow> nxt L' x = nxt L x"
    and "\<And>x. x \<in> set (tl xs) \<Longrightarrow> prv L' x = prv L x"
  shows "linked L' xs = linked L xs"
  using assms
  by (induction L xs rule: linked.induct) (auto simp: list.set_sel split: if_splits)

text \<open>The ring of a queue, cut at its last node or at an inner node.\<close>

lemma is_queue_snoc:
  assumes "h # xs = ys @ [l]"
  shows "is_queue L h xs \<longleftrightarrow>
    distinct (ys @ [l]) \<and> linked L (ys @ [l]) \<and> nxt L l = h \<and> prv L h = l"
proof -
  have e: "h # xs @ [h] = ys @ l # [h]" using assms by (metis append_Cons append_assoc append_Nil)
  show ?thesis
    unfolding is_queue_def e assms linked_append [of L ys l "[h]"] by simp
qed

lemma is_queue_last:
  assumes "is_queue L h xs" "h # xs = ys @ [l]"
  shows "nxt L l = h" "prv L h = l"
  using assms by (simp_all add: is_queue_snoc)

lemma prv_head_mem: "is_queue L h xs \<Longrightarrow> prv L h \<in> set (h # xs)"
  using is_queue_last(2) [of L h xs "butlast (h # xs)" "last (h # xs)"]
  by (metis append_butlast_last_id last_in_set list.distinct(1))

lemma is_queue_mid:
  assumes "h # as = ys @ [p]" "bs @ [h] = x # zs"
  shows "is_queue L h (as @ n # bs) \<longleftrightarrow>
    distinct (h # as @ n # bs) \<and> linked L (ys @ [p]) \<and> linked L (x # zs)
    \<and> nxt L p = n \<and> prv L n = p \<and> nxt L n = x \<and> prv L x = n"
proof -
  have "h # (as @ n # bs) @ [h] = ys @ p # n # x # zs" using assms
    by (metis append_Cons append_assoc append_Nil)
  then show ?thesis using linked_append [of L ys p "n # x # zs"] by (auto simp: is_queue_def)
qed

lemma is_queue_gap:
  assumes "h # as = ys @ [p]" "bs @ [h] = x # zs"
  shows "is_queue L h (as @ bs) \<longleftrightarrow>
    distinct (h # as @ bs) \<and> linked L (ys @ [p]) \<and> linked L (x # zs) \<and> nxt L p = x \<and> prv L x = p"
proof -
  have "h # (as @ bs) @ [h] = ys @ p # x # zs" using assms
    by (metis append_Cons append_assoc append_Nil)
  then show ?thesis using linked_append [of L ys p "x # zs"] by (auto simp: is_queue_def)
qed

lemma is_queue_unique:
  assumes "is_queue L h xs" "is_queue L h ys"
  shows "xs = ys"
proof -
  have "linked L (x # xs @ [h]) \<Longrightarrow> linked L (x # ys @ [h]) \<Longrightarrow> h \<notin> set xs \<Longrightarrow> h \<notin> set ys \<Longrightarrow> xs = ys"
    for x
  proof (induction xs arbitrary: x ys)
    case Nil
    then show ?case by (cases ys) auto
  next
    case (Cons a xs)
    then show ?case by (cases ys) auto
  qed
  then show ?thesis using assms by (auto simp: is_queue_def)
qed

section \<open>What the operations do to one queue\<close>

lemma is_queue_init: "is_queue (INIT_LIST_HEAD h L) h []"
  by (simp add: is_queue_def link_defs)

lemma is_queue_empty_iff: "is_queue L h xs \<Longrightarrow> is_queue_empty h L \<longleftrightarrow> xs = []"
  by (cases xs) (auto simp: is_queue_def link_defs)

lemma is_queue_first: "is_queue L h (x # xs) \<Longrightarrow> nxt L h = x"
  by (simp add: is_queue_def)

lemma nxt_add_tail:
  "prv L h = l \<Longrightarrow> l \<noteq> n \<Longrightarrow>
   nxt (list_add_tail n h L) x = (if x = n then h else if x = l then n else nxt L x)"
  by (simp add: link_defs)

lemma prv_add_tail:
  "prv L h = l \<Longrightarrow> h \<noteq> n \<Longrightarrow>
   prv (list_add_tail n h L) x = (if x = n then l else if x = h then n else prv L x)"
  by (simp add: link_defs)

lemma is_queue_add_tail:
  assumes q: "is_queue L h xs" and n: "n \<notin> set (h # xs)"
  shows "is_queue (list_add_tail n h L) h (xs @ [n])"
proof -
  obtain ys l where s: "h # xs = ys @ [l]" by (metis rev_exhaust list.distinct(1))
  define L' where "L' = list_add_tail n h L"
  have d: "distinct (ys @ [l])" and lk: "linked L (ys @ [l])" and l: "prv L h = l"
    using q by (simp_all add: is_queue_snoc [OF s])
  have ln: "l \<noteq> n" "h \<noteq> n" "n \<notin> set (ys @ [l])" using n s by (metis in_set_conv_decomp list.set_intros(1))+
  note NP = nxt_add_tail [OF l ln(1)] prv_add_tail [OF l ln(2)]
  have tl_n: "n \<notin> set (tl (ys @ [l]))" using ln(3) by (cases ys) auto
  have "h \<notin> set (tl (ys @ [l]))" using q s by (metis distinct.simps(2) is_queue_def list.sel(3))
  then have "linked L' (ys @ [l]) = linked L (ys @ [l])"
    using ln d tl_n by (intro linked_cong) (auto simp: L'_def NP)
  then have "linked L' (ys @ l # [n])"
    using lk ln linked_append [of L' ys l "[n]"] by (simp add: L'_def NP)
  moreover have "h # xs @ [n] = (ys @ [l]) @ [n]" using s by simp
  ultimately show ?thesis using d ln is_queue_snoc [of h "xs @ [n]" "ys @ [l]" n L']
    by (simp add: L'_def NP)
qed

lemma nxt_delete:
  "nxt L n = x \<Longrightarrow> prv L n = p \<Longrightarrow> x \<noteq> n \<Longrightarrow>
   nxt (list_delete_entry n L) y = (if y = p then x else nxt L y)"
  by (simp add: link_defs)

lemma prv_delete:
  "nxt L n = x \<Longrightarrow> prv L n = p \<Longrightarrow> x \<noteq> n \<Longrightarrow>
   prv (list_delete_entry n L) y = (if y = x then p else prv L y)"
  by (simp add: link_defs)

lemma is_queue_delete:
  assumes q: "is_queue L h (as @ n # bs)"
  shows "is_queue (list_delete_entry n L) h (as @ bs)"
proof -
  obtain ys p where s: "h # as = ys @ [p]" by (metis rev_exhaust list.distinct(1))
  obtain x zs where t: "bs @ [h] = x # zs" by (cases bs) auto
  define L' where "L' = list_delete_entry n L"
  have d: "distinct (h # as @ n # bs)" and la: "linked L (ys @ [p])" and lb: "linked L (x # zs)"
    and e: "prv L n = p" "nxt L n = x"
    using q by (simp_all add: is_queue_mid [OF s t])
  have sets: "set (ys @ [p]) = set (h # as)" "set (x # zs) = set (bs @ [h])"
    using s t by metis+
  have "distinct (h # as)" "distinct (bs @ [h])" using d by auto
  then have da: "distinct (ys @ [p])" and db: "distinct (x # zs)"
    unfolding s t by simp_all
  have "x \<in> set (bs @ [h])" using t by simp
  then have xn: "x \<noteq> n" using d by auto
  note NP = nxt_delete [OF e(2,1) xn] prv_delete [OF e(2,1) xn]
  have "x \<notin> set (tl (ys @ [p]))"
  proof -
    have "tl (ys @ [p]) = as" using s by (metis list.sel(3))
    moreover have "x \<in> set (bs @ [h])" using sets by (metis list.set_intros(1))
    ultimately show ?thesis using d by auto
  qed
  then have A: "linked L' (ys @ [p]) = linked L (ys @ [p])"
    using da by (intro linked_cong) (auto simp: L'_def NP)
  have "p \<notin> set (butlast (x # zs))"
  proof -
    have "butlast (x # zs) = bs" using t by (metis butlast_snoc)
    moreover have "p \<in> set (h # as)" using sets by auto
    ultimately show ?thesis using d by auto
  qed
  then have B: "linked L' (x # zs) = linked L (x # zs)"
    using db by (intro linked_cong) (auto simp: L'_def NP simp del: butlast.simps)
  have "is_queue L' h (as @ bs)"
    unfolding is_queue_gap [OF s t] using A B la lb d by (auto simp: L'_def NP)
  then show ?thesis by (simp add: L'_def)
qed

text \<open>Frame: a queue that shares no node with the one written to is unchanged.\<close>

lemma is_queue_add_tail_other:
  assumes "is_queue L h xs" "is_queue L g ys"
    and "set (h # xs) \<inter> set (g # ys) = {}" "n \<notin> set (g # ys)"
  shows "is_queue (list_add_tail n h L) g ys"
proof -
  have "prv L h \<in> set (h # xs)" by (rule prv_head_mem [OF assms(1)])
  then have "prv L h \<notin> set (g # ys)" "h \<notin> set (g # ys)" using assms by auto
  then have "linked (list_add_tail n h L) (g # ys @ [g]) = linked L (g # ys @ [g])"
    using assms(4) by (intro linked_cong) (auto simp: link_defs butlast_append split: if_splits)
  then show ?thesis using assms(2) by (simp add: is_queue_def)
qed

lemma queue_neighbours:
  assumes q: "is_queue L h (as @ n # bs)"
  shows "prv L n \<in> set (h # as @ bs)" "nxt L n \<in> set (h # as @ bs)"
proof -
  obtain ys p where s: "h # as = ys @ [p]" by (metis rev_exhaust list.distinct(1))
  obtain x zs where t: "bs @ [h] = x # zs" by (cases bs) auto
  have "p \<in> set (h # as)" "x \<in> set (bs @ [h])" using s t by (metis in_set_conv_decomp list.set_intros(1))+
  then show "prv L n \<in> set (h # as @ bs)" "nxt L n \<in> set (h # as @ bs)"
    using q by (auto simp: is_queue_mid [OF s t])
qed

lemma is_queue_delete_other:
  assumes "is_queue L h (as @ n # bs)" "is_queue L g ys"
    and "set (h # as @ n # bs) \<inter> set (g # ys) = {}"
  shows "is_queue (list_delete_entry n L) g ys"
proof -
  have "prv L n \<notin> set (g # ys)" "nxt L n \<notin> set (g # ys)" "n \<notin> set (g # ys)"
    using queue_neighbours [OF assms(1)] assms(3) by auto
  then have "linked (list_delete_entry n L) (g # ys @ [g]) = linked L (g # ys @ [g])"
    by (intro linked_cong) (auto simp: link_defs butlast_append split: if_splits)
  then show ?thesis using assms(2) by (simp add: is_queue_def)
qed

section \<open>A family of queues\<close>

text \<open>
  \<open>queues H L Q\<close>: the heads \<open>H\<close> are the heads of disjoint queues, and \<open>Q\<close> says what each of
  them holds.
\<close>

definition queues :: "'n set \<Rightarrow> 'n links \<Rightarrow> ('n \<Rightarrow> 'n list) \<Rightarrow> bool" where
  "queues H L Q \<longleftrightarrow> (\<forall>h\<in>H. is_queue L h (Q h)) \<and>
     (\<forall>h\<in>H. \<forall>g\<in>H. h \<noteq> g \<longrightarrow> set (h # Q h) \<inter> set (g # Q g) = {})"

definition enq :: "'n \<Rightarrow> 'n \<Rightarrow> ('n \<Rightarrow> 'n list) \<Rightarrow> 'n \<Rightarrow> 'n list" where
  "enq n h Q = Q(h := Q h @ [n])"

definition deq :: "'n \<Rightarrow> 'n \<Rightarrow> ('n \<Rightarrow> 'n list) \<Rightarrow> 'n \<Rightarrow> 'n list" where
  "deq n h Q = Q(h := remove1 n (Q h))"

lemma queues_add_tail:
  assumes q: "queues H L Q" and h: "h \<in> H" and n: "n \<notin> H" "\<forall>g\<in>H. n \<notin> set (Q g)"
  shows "queues H (list_add_tail n h L) (enq n h Q)"
proof -
  have nh: "n \<notin> set (h # Q h)" using n h by auto
  have "is_queue (list_add_tail n h L) g (enq n h Q g)" if g: "g \<in> H" for g
  proof (cases "g = h")
    case True
    then show ?thesis using q h nh by (simp add: queues_def enq_def is_queue_add_tail)
  next
    case False
    have "n \<notin> set (g # Q g)" using n g by auto
    moreover have "set (h # Q h) \<inter> set (g # Q g) = {}" using q h g False by (metis queues_def)
    moreover have "is_queue L h (Q h)" "is_queue L g (Q g)" using q h g by (auto simp: queues_def)
    ultimately have "is_queue (list_add_tail n h L) g (Q g)" by (intro is_queue_add_tail_other)
    then show ?thesis using False by (simp add: enq_def)
  qed
  moreover have "set (g # enq n h Q g) \<inter> set (f # enq n h Q f) = {}"
    if "g \<in> H" "f \<in> H" "g \<noteq> f" for g f
  proof -
    have "set (g # Q g) \<inter> set (f # Q f) = {}" using q that by (metis queues_def)
    moreover have "set (enq n h Q k) \<subseteq> insert n (set (Q k))" for k by (auto simp: enq_def)
    moreover have "n \<notin> set (g # Q g)" "n \<notin> set (f # Q f)" using n that by auto
    ultimately show ?thesis using that by (fastforce simp: enq_def split: if_splits)
  qed
  ultimately show ?thesis by (simp add: queues_def)
qed

lemma queues_fold_add_tail:
  assumes "queues H L Q" "h \<in> H" "distinct ns" "set ns \<inter> H = {}" "\<And>g. g \<in> H \<Longrightarrow> set ns \<inter> set (Q g) = {}"
  shows "queues H (fold (\<lambda>x. list_add_tail x h) ns L) (Q(h := Q h @ ns))"
  using assms
proof (induction ns arbitrary: L Q)
  case Nil
  then show ?case by simp
next
  case (Cons n ns)
  have "queues H (list_add_tail n h L) (enq n h Q)"
    using Cons.prems by (intro queues_add_tail) auto
  moreover have "set ns \<inter> set (enq n h Q g) = {}" if "g \<in> H" for g
    using Cons.prems(3) Cons.prems(5) [OF that] by (auto simp: enq_def)
  ultimately have "queues H (fold (\<lambda>x. list_add_tail x h) ns (list_add_tail n h L))
      ((enq n h Q)(h := enq n h Q h @ ns))"
    using Cons.prems by (intro Cons.IH) auto
  moreover have "(enq n h Q)(h := enq n h Q h @ ns) = Q(h := Q h @ n # ns)" by (auto simp: enq_def)
  ultimately show ?case by (simp only: fold_Cons comp_apply)
qed

lemma queues_delete:
  assumes q: "queues H L Q" and h: "h \<in> H" and n: "n \<in> set (Q h)"
  shows "queues H (list_delete_entry n L) (deq n h Q)"
proof -
  have "distinct (Q h)" using q h by (simp add: queues_def is_queue_def)
  then obtain as bs where s: "Q h = as @ n # bs" and r: "remove1 n (Q h) = as @ bs"
    using distinct_remove_split [OF n] by blast
  have qh: "is_queue L h (as @ n # bs)" using q h s by (metis queues_def)
  have "is_queue (list_delete_entry n L) g (deq n h Q g)" if g: "g \<in> H" for g
  proof (cases "g = h")
    case True
    then show ?thesis using is_queue_delete [OF qh] r by (simp add: deq_def)
  next
    case False
    then have "set (h # Q h) \<inter> set (g # Q g) = {}" using q h g by (metis queues_def)
    then show ?thesis using is_queue_delete_other [OF qh, of g "Q g"] q g False s
      by (simp add: queues_def deq_def)
  qed
  moreover have "set (g # deq n h Q g) \<inter> set (f # deq n h Q f) = {}"
    if "g \<in> H" "f \<in> H" "g \<noteq> f" for g f
  proof -
    have "set (g # Q g) \<inter> set (f # Q f) = {}" using q that by (metis queues_def)
    moreover have "set (deq n h Q k) \<subseteq> set (Q k)" for k
      using set_remove1_subset [of n "Q h"] by (simp add: deq_def)
    ultimately show ?thesis by fastforce
  qed
  ultimately show ?thesis by (simp add: queues_def)
qed

section \<open>Loops over a queue\<close>

text \<open>
  The iteration macros, with the loop body as an argument and \<open>lk\<close> the links of the state the
  body works on. \<open>list_find\<close> is \<^verbatim>\<open>list_for_each_entry\<close> around a search that stops at the first hit;
  \<open>list_drain\<close> is the idiom \<^verbatim>\<open>while (!is_queue_empty(head)) body(head->next)\<close>.
\<close>

partial_function (option) list_find :: "('n \<Rightarrow> bool) \<Rightarrow> 'n \<Rightarrow> 'n \<Rightarrow> 'n links \<Rightarrow> 'n option option" where
  "list_find P head pos L =
     (if pos = head then Some None
      else if P pos then Some (Some pos) else list_find P head (nxt L pos) L)"

partial_function (option) for_each_safe ::
    "('s \<Rightarrow> 'n links) \<Rightarrow> 'n \<Rightarrow> ('n \<Rightarrow> 's \<Rightarrow> 's option) \<Rightarrow> 'n \<Rightarrow> 'n \<Rightarrow> 's \<Rightarrow> 's option" where
  "for_each_safe lk head body pos q s =
     (if pos = head then Some s
      else do { s' \<leftarrow> body pos s; for_each_safe lk head body q (nxt (lk s') q) s' })"

definition list_for_each_entry_safe ::
    "('s \<Rightarrow> 'n links) \<Rightarrow> 'n \<Rightarrow> ('n \<Rightarrow> 's \<Rightarrow> 's option) \<Rightarrow> 's \<Rightarrow> 's option" where
  "list_for_each_entry_safe lk head body s =
     (let pos = nxt (lk s) head in for_each_safe lk head body pos (nxt (lk s) pos) s)"

partial_function (option) list_drain ::
    "('s \<Rightarrow> 'n links) \<Rightarrow> 'n \<Rightarrow> ('n \<Rightarrow> 's \<Rightarrow> 's option) \<Rightarrow> 's \<Rightarrow> 's option" where
  "list_drain lk head body s =
     (if is_queue_empty head (lk s) then Some s
      else do { s' \<leftarrow> body (nxt (lk s) head) s; list_drain lk head body s' })"

lemma is_queue_nxt:
  assumes "is_queue L h (as @ xs)"
  shows "nxt L (last (h # as)) = hd (xs @ [h])"
proof (cases xs)
  case Nil
  then show ?thesis
    using is_queue_last(1) [of L h as "butlast (h # as)" "last (h # as)"] assms by simp
next
  case (Cons x ys)
  obtain zs p where s: "h # as = zs @ [p]" by (metis rev_exhaust list.distinct(1))
  obtain y us where t: "ys @ [h] = y # us" by (cases ys) auto
  show ?thesis using assms is_queue_mid [OF s t, of L x] s Cons by simp
qed

lemma list_find_suffix:
  assumes "is_queue L h (as @ xs)"
  shows "list_find P h (nxt L (last (h # as))) L = Some (List.find P xs)"
  using assms
proof (induction xs arbitrary: as)
  case Nil
  then show ?case using is_queue_nxt [of L h as "[]"] by (subst list_find.simps) simp
next
  case (Cons x xs)
  have "nxt L (last (h # as)) = x" using is_queue_nxt [OF Cons.prems] by simp
  moreover have "x \<noteq> h" using Cons.prems by (auto simp: is_queue_def)
  moreover have "list_find P h (nxt L (last (h # as @ [x]))) L = Some (List.find P xs)"
    using Cons.IH [of "as @ [x]"] Cons.prems by simp
  ultimately show ?case by (subst list_find.simps) simp
qed

lemma list_find_queue: "is_queue L h xs \<Longrightarrow> list_find P h (nxt L h) L = Some (List.find P xs)"
  using list_find_suffix [of L h "[]" xs P] by simp

text \<open>
  The safe iteration visits every node of the queue once, in order, as long as the nodes not yet
  visited stay the end of the queue; an invariant indexed by those nodes describes its effect.
\<close>

lemma for_each_safe_rule:
  assumes "I xs s"
    and suffix: "\<And>xs s. I xs s \<Longrightarrow> \<exists>as. is_queue (lk s) h (as @ xs)"
    and step: "\<And>x xs s. I (x # xs) s \<Longrightarrow> \<exists>s'. body x s = Some s' \<and> I xs s'"
  shows "\<exists>s'. for_each_safe lk h body (hd (xs @ [h])) (nxt (lk s) (hd (xs @ [h]))) s = Some s' \<and> I [] s'"
  using assms(1)
proof (induction xs arbitrary: s)
  case Nil
  then show ?case by (subst for_each_safe.simps) simp
next
  case (Cons x xs)
  obtain as where q: "is_queue (lk s) h (as @ x # xs)" using suffix [OF Cons.prems] by blast
  have "x \<noteq> h" using q by (auto simp: is_queue_def)
  moreover have "nxt (lk s) x = hd (xs @ [h])" using is_queue_nxt [of "lk s" h "as @ [x]" xs] q by simp
  moreover obtain s' where "body x s = Some s'" "I xs s'" using step [OF Cons.prems] by blast
  ultimately show ?case using Cons.IH [of s'] by (subst for_each_safe.simps) simp
qed

lemma list_for_each_entry_safe_rule:
  assumes "I xs s" "is_queue (lk s) h xs"
    and "\<And>xs s. I xs s \<Longrightarrow> \<exists>as. is_queue (lk s) h (as @ xs)"
    and "\<And>x xs s. I (x # xs) s \<Longrightarrow> \<exists>s'. body x s = Some s' \<and> I xs s'"
  shows "\<exists>s'. list_for_each_entry_safe lk h body s = Some s' \<and> I [] s'"
proof -
  have "nxt (lk s) h = hd (xs @ [h])" using is_queue_nxt [of "lk s" h "[]" xs] assms(2) by simp
  then show ?thesis
    unfolding list_for_each_entry_safe_def Let_def using for_each_safe_rule [of I, OF assms(1,3,4)] by simp
qed

lemma list_drain_rule:
  assumes "I xs s"
    and queue: "\<And>xs s. I xs s \<Longrightarrow> is_queue (lk s) h xs"
    and step: "\<And>x xs s. I (x # xs) s \<Longrightarrow> \<exists>s'. body x s = Some s' \<and> I xs s'"
  shows "\<exists>s'. list_drain lk h body s = Some s' \<and> I [] s'"
  using assms(1)
proof (induction xs arbitrary: s)
  case Nil
  then show ?case using is_queue_empty_iff [OF queue [OF Nil]] by (subst list_drain.simps) simp
next
  case (Cons x xs)
  obtain s' where "body x s = Some s'" "I xs s'" using step [OF Cons.prems] by blast
  moreover have "nxt (lk s) h = x" using is_queue_first [OF queue [OF Cons.prems]] .
  moreover have "\<not> is_queue_empty h (lk s)" using is_queue_empty_iff [OF queue [OF Cons.prems]] by simp
  ultimately show ?case using Cons.IH [of s'] by (subst list_drain.simps) simp
qed

text \<open>Whatever the body keeps holds when the loop has ended.\<close>

lemma list_drain_keeps:
  assumes "list_drain lk h body s = Some s'" "P s" "\<And>n s s'. P s \<Longrightarrow> body n s = Some s' \<Longrightarrow> P s'"
  shows "P s'"
proof -
  have "(\<forall>n s s'. P s \<longrightarrow> body n s = Some s' \<longrightarrow> P s') \<longrightarrow> P s \<longrightarrow> P s'"
  proof (rule list_drain.raw_induct [where P = "\<lambda>lk h body s s'. (\<forall>n s s'. P s \<longrightarrow> body n s = Some s' \<longrightarrow> P s') \<longrightarrow> P s \<longrightarrow> P s'", OF _ assms(1)])
    fix drain lk h body s s'
    assume IH: "\<And>lk h body s s'. drain lk h body s = Some s' \<Longrightarrow> (\<forall>n s s'. P s \<longrightarrow> body n s = Some s' \<longrightarrow> P s') \<longrightarrow> P s \<longrightarrow> P s'"
      and r: "(if is_queue_empty h (lk s) then Some s else body (nxt (lk s) h) s \<bind> drain lk h body) = Some s'"
    show "(\<forall>n s s'. P s \<longrightarrow> body n s = Some s' \<longrightarrow> P s') \<longrightarrow> P s \<longrightarrow> P s'"
    proof (cases "is_queue_empty h (lk s)")
      case True
      then show ?thesis using r by simp
    next
      case False
      then obtain t where "body (nxt (lk s) h) s = Some t" "drain lk h body t = Some s'"
        using r by (cases "body (nxt (lk s) h) s") auto
      then show ?thesis using IH [of lk h body t s'] by blast
    qed
  qed
  then show ?thesis using assms(2,3) by blast
qed

section \<open>The queue interface\<close>

text \<open>
  What the scheduler, the locks and the memory manager rely on: a state that represents a
  family of queues, with the four operations they use.
\<close>

locale queue_store =
  fixes rep :: "'s \<Rightarrow> ('n \<Rightarrow> 'n list) \<Rightarrow> bool"
    and heads :: "'n set"
    and add_tail :: "'n \<Rightarrow> 'n \<Rightarrow> 's \<Rightarrow> 's"
    and remove :: "'n \<Rightarrow> 's \<Rightarrow> 's"
    and first :: "'n \<Rightarrow> 's \<Rightarrow> 'n"
    and empty :: "'n \<Rightarrow> 's \<Rightarrow> bool"
  assumes rep_empty: "rep s Q \<Longrightarrow> h \<in> heads \<Longrightarrow> empty h s \<longleftrightarrow> Q h = []"
    and rep_first: "rep s Q \<Longrightarrow> h \<in> heads \<Longrightarrow> Q h = x # xs \<Longrightarrow> first h s = x"
    and rep_add: "rep s Q \<Longrightarrow> h \<in> heads \<Longrightarrow> n \<notin> heads \<Longrightarrow> \<forall>g\<in>heads. n \<notin> set (Q g) \<Longrightarrow>
      rep (add_tail n h s) (enq n h Q)"
    and rep_remove: "rep s Q \<Longrightarrow> h \<in> heads \<Longrightarrow> n \<in> set (Q h) \<Longrightarrow> rep (remove n s) (deq n h Q)"
    and rep_distinct: "rep s Q \<Longrightarrow> h \<in> heads \<Longrightarrow> distinct (Q h)"
    and rep_not_head: "rep s Q \<Longrightarrow> h \<in> heads \<Longrightarrow> n \<in> set (Q h) \<Longrightarrow> n \<notin> heads"
    and rep_disjoint: "rep s Q \<Longrightarrow> h \<in> heads \<Longrightarrow> g \<in> heads \<Longrightarrow> n \<in> set (Q h) \<Longrightarrow>
      n \<in> set (Q g) \<Longrightarrow> h = g"
begin

text \<open>Taking a node out of its queue and appending it to a queue, as every block and unblock does.\<close>

lemma rep_move:
  assumes "rep s Q" "h \<in> heads" "g \<in> heads" "n \<in> set (Q h)"
  shows "rep (add_tail n g (remove n s)) (enq n g (deq n h Q))"
proof (rule rep_add [OF rep_remove])
  show "rep s Q" "h \<in> heads" "n \<in> set (Q h)" "g \<in> heads" using assms by simp_all
  show "n \<notin> heads" using assms rep_not_head by blast
  show "\<forall>f\<in>heads. n \<notin> set (deq n h Q f)"
    using assms rep_disjoint rep_distinct by (auto simp: deq_def)
qed

text \<open>Moving a node to the tail of its own queue, as the round-robin scheduler does.\<close>

lemma rep_requeue:
  assumes "rep s Q" "h \<in> heads" "n \<in> set (Q h)"
  shows "rep (add_tail n h (remove n s)) (Q(h := remove1 n (Q h) @ [n]))"
  using rep_move [OF assms(1,2,2,3)] by (simp add: enq_def deq_def)

text \<open>Moving the first node of a queue.\<close>

lemma rep_move_first:
  assumes "rep s Q" "h \<in> heads" "g \<in> heads" "h \<noteq> g" "Q h = x # xs"
  shows "rep (add_tail x g (remove x s)) (Q(h := xs, g := Q g @ [x]))"
  using rep_move [OF assms(1-3), of x] assms(4,5) by (auto simp: enq_def deq_def fun_upd_def)

end

interpretation klist: queue_store "queues H" H list_add_tail list_delete_entry
    "\<lambda>h L. nxt L h" is_queue_empty for H
proof unfold_locales
  show "is_queue_empty h L = (Q h = [])" if "queues H L Q" "h \<in> H" for L Q h
    using that is_queue_empty_iff by (metis queues_def)
  show "nxt L h = x" if "queues H L Q" "h \<in> H" "Q h = x # xs" for L Q h x xs
    using that is_queue_first by (metis queues_def)
  show "queues H (list_add_tail n h L) (enq n h Q)"
    if "queues H L Q" "h \<in> H" "n \<notin> H" "\<forall>g\<in>H. n \<notin> set (Q g)" for L Q h n
    using that by (rule queues_add_tail)
  show "queues H (list_delete_entry n L) (deq n h Q)"
    if "queues H L Q" "h \<in> H" "n \<in> set (Q h)" for L Q h n
    using that by (rule queues_delete)
  show "distinct (Q h)" if "queues H L Q" "h \<in> H" for L Q h
    using that by (auto simp: queues_def is_queue_def)
  show "n \<notin> H" if "queues H L Q" "h \<in> H" "n \<in> set (Q h)" for L Q h n
  proof
    assume n: "n \<in> H"
    show False
    proof (cases "n = h")
      case True
      then show False using that by (auto simp: queues_def is_queue_def)
    next
      case False
      then have "set (h # Q h) \<inter> set (n # Q n) = {}" using that n by (metis queues_def)
      then show False using that by auto
    qed
  qed
  show "h = g" if "queues H L Q" "h \<in> H" "g \<in> H" "n \<in> set (Q h)" "n \<in> set (Q g)" for L Q h g n
    using that unfolding queues_def by (metis disjoint_iff list.set_intros(2))
qed

section \<open>Properties\<close>

text \<open>
  C26: \<^verbatim>\<open>list_add_tail\<close> and \<^verbatim>\<open>list_delete_entry\<close> implement queues: in a family of disjoint queues,
  deleting a node that queue \<open>h\<close> holds and appending it to queue \<open>g\<close> by pointer surgery takes
  exactly that node out of \<open>h\<close>, puts it at the end of \<open>g\<close>, and leaves every other queue as it
  was.
\<close>
theorem list_move_refines:
  assumes "queues H L Q" "h \<in> H" "g \<in> H" "n \<in> set (Q h)"
  shows "queues H (list_add_tail n g (list_delete_entry n L))
           (\<lambda>f. if f = g then (if h = g then remove1 n (Q h) else Q g) @ [n]
                else if f = h then remove1 n (Q h) else Q f)"
proof -
  have "enq n g (deq n h Q) = (\<lambda>f. if f = g then (if h = g then remove1 n (Q h) else Q g) @ [n]
                else if f = h then remove1 n (Q h) else Q f)"
    by (auto simp: enq_def deq_def)
  then show ?thesis using klist.rep_move [OF assms] by simp
qed

theorem list_move_refines_witness:
  "\<exists>L Q. queues {0::nat, 1} L Q \<and> Q 0 = [5, 7, 6] \<and> Q 1 = [8] \<and>
     queues {0, 1} (list_add_tail 7 1 (list_delete_entry 7 L))
       (\<lambda>f. if f = 1 then (if (0::nat) = 1 then remove1 7 (Q 0) else Q 1) @ [7]
            else if f = 0 then remove1 7 (Q 0) else Q f)"
proof -
  define L :: "nat links" where "L = list_add_tail 8 1 (list_add_tail 6 0 (list_add_tail 7 0
    (list_add_tail 5 0 (INIT_LIST_HEAD 1 (INIT_LIST_HEAD 0 \<lparr>nxt = id, prv = id\<rparr>)))))"
  define Q where "Q = (\<lambda>f::nat. if f = 0 then [5, 7, 6] else [8::nat])"
  have q: "queues {0, 1} L Q"
    by (auto simp: queues_def is_queue_def L_def Q_def link_defs)
  moreover have "Q 0 = [5, 7, 6]" "Q 1 = [8]" by (simp_all add: Q_def)
  moreover from this have "7 \<in> set (Q 0)" by simp
  ultimately show ?thesis
    using list_move_refines [OF q, of 0 1 7] by blast
qed

end
