(* ===== verification/MM.thy ===== *)
theory MM
  imports Klist
begin

text \<open>
  Memory management: \<open>src/kernel/mm/mm.c\<close> with the page table helpers of
  \<open>src/arch/riscv/include/pgtable.h\<close> and the constants of \<open>src/include/os/mm.h\<close>. Kernel memory
  is an array of 64-bit cells indexed by (8-byte aligned) kernel virtual address, so free-list
  links and page table entries live in the pages themselves, as in the code. The SD card is
  behind the BIOS, which is not part of the repository: it is the parameter \<open>B\<close>.
\<close>

section \<open>Constants\<close>

definition PAGE_SIZE :: u64 where "PAGE_SIZE = 4096"
definition FREEMEM_KERNEL :: u64 where "FREEMEM_KERNEL = 0xffffffc052000000"
definition FREEMEM_KERNEL_STOP :: u64 where "FREEMEM_KERNEL_STOP = 0xffffffc060000000"
definition KERNEL_VM_OFFSET :: u64 where "KERNEL_VM_OFFSET = 0xffffffc000000000"
definition VA_MASK :: u64 where "VA_MASK = mask 39"
definition PTE_ATTR_MASK :: u64 where "PTE_ATTR_MASK = mask 8"
definition PTE_PPN_AND_ATTR_MASK :: u64 where "PTE_PPN_AND_ATTR_MASK = mask 54"
definition PAGE_PRESENT :: u64 where "PAGE_PRESENT = 1"
definition PAGE_READ :: u64 where "PAGE_READ = 2"
definition PAGE_WRITE :: u64 where "PAGE_WRITE = 4"
definition PAGE_EXEC :: u64 where "PAGE_EXEC = 8"
definition PAGE_USER :: u64 where "PAGE_USER = 16"
definition PAGE_ACCESSED :: u64 where "PAGE_ACCESSED = 64"
definition PAGE_DIRTY :: u64 where "PAGE_DIRTY = 128"
definition KERNEL_VA_VPN2 :: nat where "KERNEL_VA_VPN2 = 0x101"
definition IO_REMAP_VA_VPN2 :: nat where "IO_REMAP_VA_VPN2 = 0x180"
definition MAX_PFN :: nat where "MAX_PFN = 512"
definition MAX_PRESENT_PFN :: int where "MAX_PRESENT_PFN = 512"
definition SECTORS_PER_PAGE :: u32 where "SECTORS_PER_PAGE = 8"
definition MAX_SHARE_PAGE_NUM :: nat where "MAX_SHARE_PAGE_NUM = 16"
definition SHARE_PAGE_UVA_START :: u64 where "SHARE_PAGE_UVA_START = 0x100000"

section \<open>Page table entries (pgtable.h)\<close>

definition kva2pa :: "u64 \<Rightarrow> u64" where
  "kva2pa kva = kva - KERNEL_VM_OFFSET"

definition pa2kva :: "u64 \<Rightarrow> u64" where
  "pa2kva pa = pa + KERNEL_VM_OFFSET"

definition get_pa :: "u64 \<Rightarrow> u64" where
  "get_pa entry = push_bit 12 (drop_bit 10 (entry AND PTE_PPN_AND_ATTR_MASK))"

definition get_pfn :: "u64 \<Rightarrow> u64" where
  "get_pfn entry = drop_bit 10 (entry AND PTE_PPN_AND_ATTR_MASK)"

text \<open>\<^verbatim>\<open>set_pfn\<close> clears the entry first, so the new value does not depend on the old one.\<close>

definition set_pfn :: "u64 \<Rightarrow> u64" where
  "set_pfn pfn = 0 OR push_bit 10 pfn"

definition get_attribute :: "u64 \<Rightarrow> u64 \<Rightarrow> u64" where
  "get_attribute entry msk = entry AND PTE_ATTR_MASK"

definition set_attribute :: "u64 \<Rightarrow> u64 \<Rightarrow> u64" where
  "set_attribute entry bits = entry OR bits"

definition unset_attribute :: "u64 \<Rightarrow> u64 \<Rightarrow> u64" where
  "unset_attribute entry bits = entry AND NOT bits"

definition vpn2_of :: "u64 \<Rightarrow> nat" where
  "vpn2_of uva = unat (drop_bit 30 (uva AND VA_MASK))"

definition vpn1_of :: "u64 \<Rightarrow> nat" where
  "vpn1_of uva = unat (drop_bit 21 (uva AND VA_MASK) AND mask 9)"

definition vpn0_of :: "u64 \<Rightarrow> nat" where
  "vpn0_of uva = unat (drop_bit 12 (uva AND VA_MASK) AND mask 9)"

definition get_uva_from_vpns :: "nat \<Rightarrow> nat \<Rightarrow> nat \<Rightarrow> u64" where
  "get_uva_from_vpns vpn2 vpn1 vpn0 =
     push_bit 12 (push_bit 18 (of_nat vpn2) OR push_bit 9 (of_nat vpn1) OR of_nat vpn0)"

section \<open>The SD card\<close>

text \<open>
  \<^verbatim>\<open>bios_sdread(addr, n, id)\<close> copies \<open>n\<close> sectors of 512 bytes starting at sector \<open>id\<close> to memory,
  \<^verbatim>\<open>bios_sdwrite\<close> the other way round. \<open>sd_card_ok\<close> is that documented behaviour, in terms of
  the contents of single sectors.
\<close>

record 'd sdcard =
  sd_read :: "'d \<Rightarrow> u32 \<Rightarrow> u32 \<Rightarrow> u8 list"
  sd_write :: "'d \<Rightarrow> u32 \<Rightarrow> u32 \<Rightarrow> u8 list \<Rightarrow> 'd"

definition sector :: "'d sdcard \<Rightarrow> 'd \<Rightarrow> u32 \<Rightarrow> u8 list" where
  "sector B d k = sd_read B d 1 k"

definition sd_card_ok :: "'d sdcard \<Rightarrow> bool" where
  "sd_card_ok B \<longleftrightarrow>
     (\<forall>d k. length (sector B d k) = 512) \<and>
     (\<forall>d n k. sd_read B d n k = concat (map (\<lambda>i. sector B d (k + of_nat i)) [0..<unat n])) \<and>
     (\<forall>d n k bs j. length bs = 512 * unat n \<longrightarrow>
        sector B (sd_write B d n k bs) j =
          (if j - k < n then slice (512 * unat (j - k)) 512 bs else sector B d j))"

section \<open>State\<close>

text \<open>Every list node of the kernel. A \<open>pcb_ref\<close> is a pointer to a process control block.\<close>

datatype pcb_ref = Pcb nat | Pid0_pcb | Pid0_pcb2

datatype node =
    Ready_queue | Sleep_queue | Send_block_queue | Recv_block_queue
  | Pcb_list pcb_ref | Wait_list pcb_ref
  | Mutex_queue nat | Barrier_list nat | Cond_list nat | Mbox_send nat | Mbox_recv nat
  | Page_list nat | Present_pages_queue | Swapped_pages_queue

record page_t =
  pg_uva :: u64
  pg_kva :: u64
  pg_pgdir :: u64
  pg_id :: int
  pg_sector :: int

record share_page_t =
  sh_kva :: u64
  sh_ref :: int
  sh_key :: int

record 'd mm_state =
  mem :: "u64 \<Rightarrow> u64"
  freemem_list :: u64
  lnk :: "node links"
  pages :: "page_t list"
  page_id :: int
  present_pages_num :: int
  disk_sectors_startid :: int
  share_pages :: "share_page_t list"
  sd :: 'd

section \<open>Kernel page allocation\<close>

definition store :: "u64 \<Rightarrow> u64 \<Rightarrow> ('d, 'a) mm_state_scheme \<Rightarrow> ('d, 'a) mm_state_scheme" where
  "store a v s = s\<lparr>mem := (mem s)(a := v)\<rparr>"

text \<open>\<^verbatim>\<open>memset(p, 0, PAGE_SIZE)\<close>: the cells of the page at \<open>p\<close>.\<close>

definition zero_page :: "u64 \<Rightarrow> ('d, 'a) mm_state_scheme \<Rightarrow> ('d, 'a) mm_state_scheme" where
  "zero_page p s = s\<lparr>mem := (\<lambda>a. if a - p < PAGE_SIZE then 0 else mem s a)\<rparr>"

definition init_kernel_freemem :: "('d, 'a) mm_state_scheme \<Rightarrow> ('d, 'a) mm_state_scheme" where
  "init_kernel_freemem s = store FREEMEM_KERNEL 0 (s\<lparr>freemem_list := FREEMEM_KERNEL\<rparr>)"

definition kalloc :: "('d, 'a) mm_state_scheme \<Rightarrow> u64 \<times> ('d, 'a) mm_state_scheme" where
  "kalloc s =
     (let m = freemem_list s;
          s1 = (if mem s (freemem_list s) = 0
                then let fl = freemem_list s + PAGE_SIZE
                     in store fl 0 (s\<lparr>freemem_list := fl\<rparr>)
                else s\<lparr>freemem_list := mem s (freemem_list s)\<rparr>)
      in (m, zero_page m s1))"

definition kfree :: "u64 \<Rightarrow> ('d, 'a) mm_state_scheme \<Rightarrow> ('d, 'a) mm_state_scheme" where
  "kfree base_addr s =
     (if base_addr < FREEMEM_KERNEL then s
      else (store base_addr (freemem_list s) s)\<lparr>freemem_list := base_addr\<rparr>)"

section \<open>Page tables\<close>

text \<open>The address of entry \<open>i\<close> of the table at \<open>p\<close>.\<close>

definition entry :: "u64 \<Rightarrow> nat \<Rightarrow> u64" where
  "entry p i = p + 8 * of_nat i"

text \<open>The table an entry points to: \<^verbatim>\<open>(PTE *)pa2kva(get_pa(e))\<close>.\<close>

definition table_of :: "u64 \<Rightarrow> u64" where
  "table_of e = pa2kva (get_pa e)"

definition clear_pgdir :: "u64 \<Rightarrow> ('d, 'a) mm_state_scheme \<Rightarrow> ('d, 'a) mm_state_scheme" where
  "clear_pgdir pgdir s = fold (\<lambda>i. store (entry pgdir i) 0) [0..<512] s"

definition free_pgdir :: "u64 \<Rightarrow> ('d, 'a) mm_state_scheme \<Rightarrow> ('d, 'a) mm_state_scheme" where
  "free_pgdir pgdir s = kfree pgdir (zero_page pgdir s)"

definition share_pgtable :: "u64 \<Rightarrow> u64 \<Rightarrow> ('d, 'a) mm_state_scheme \<Rightarrow> ('d, 'a) mm_state_scheme" where
  "share_pgtable dest_pgdir src_pgdir s =
     fold (\<lambda>i s. if mem s (entry src_pgdir i) \<noteq> 0
                 then store (entry dest_pgdir i) (mem s (entry src_pgdir i)) s else s) [0..<512] s"

text \<open>
  The two identical table allocations of \<^verbatim>\<open>map_uva_to_kva\<close>: a new page becomes the table that
  the entry at \<open>a\<close> points to.
\<close>

definition alloc_table :: "u64 \<Rightarrow> ('d, 'a) mm_state_scheme \<Rightarrow> ('d, 'a) mm_state_scheme" where
  "alloc_table a s =
     (let (p, s1) = kalloc s;
          s2 = store a (set_pfn (drop_bit 12 (kva2pa p))) s1;
          s3 = store a (set_attribute (mem s2 a) PAGE_PRESENT) s2
      in clear_pgdir (table_of (mem s3 a)) s3)"

definition map_uva_to_kva ::
    "u64 \<Rightarrow> u64 \<Rightarrow> u64 \<Rightarrow> ('d, 'a) mm_state_scheme \<Rightarrow> ('d, 'a) mm_state_scheme" where
  "map_uva_to_kva uva kva pgdir s =
     (let e2 = entry pgdir (vpn2_of uva);
          s1 = (if mem s e2 = 0 then alloc_table e2 s else s);
          pmd = table_of (mem s1 e2);
          e1 = entry pmd (vpn1_of uva);
          s2 = (if mem s1 e1 = 0 then alloc_table e1 s1 else s1);
          pte = table_of (mem s2 e1);
          e0 = entry pte (vpn0_of uva);
          s3 = store e0 (set_pfn (drop_bit 12 (kva2pa kva))) s2
      in store e0 (set_attribute (mem s3 e0)
           (PAGE_PRESENT OR PAGE_READ OR PAGE_WRITE OR PAGE_EXEC OR PAGE_USER)) s3)"

text \<open>\<^verbatim>\<open>get_pte_of_uva\<close> returns the address of the entry, or \<^verbatim>\<open>NULL\<close> (0).\<close>

definition get_pte_of_uva :: "u64 \<Rightarrow> u64 \<Rightarrow> ('d, 'a) mm_state_scheme \<Rightarrow> u64" where
  "get_pte_of_uva uva pgdir s =
     (let e2 = entry pgdir (vpn2_of uva) in
      if mem s e2 = 0 then 0 else
      let e1 = entry (table_of (mem s e2)) (vpn1_of uva) in
      if mem s e1 = 0 then 0 else
      let e0 = entry (table_of (mem s e1)) (vpn0_of uva) in
      if mem s e0 = 0 then 0 else e0)"

definition get_kva_of_uva :: "u64 \<Rightarrow> u64 \<Rightarrow> ('d, 'a) mm_state_scheme \<Rightarrow> u64" where
  "get_kva_of_uva uva pgdir s =
     (let pte = get_pte_of_uva uva pgdir s
      in if pte = 0 then 0 else pa2kva (get_pa (mem s pte) OR (uva AND mask 12)))"

section \<open>User pages and swapping\<close>

definition add_new_pre_page ::
    "u64 \<Rightarrow> u64 \<Rightarrow> u64 \<Rightarrow> ('d, 'a) mm_state_scheme \<Rightarrow> ('d, 'a) mm_state_scheme option" where
  "add_new_pre_page uva kva pgdir s =
     (case find_index (\<lambda>p. pg_id p = 0) (pages s) of
        None \<Rightarrow> None
      | Some i \<Rightarrow>
          let pid = page_id s + 1;
              p = (pages s ! i)\<lparr>pg_uva := uva, pg_kva := kva, pg_id := pid, pg_pgdir := pgdir\<rparr>
          in Some (s\<lparr>pages := (pages s)[i := p], page_id := pid,
                     lnk := list_add_tail (Page_list i) Present_pages_queue (lnk s),
                     present_pages_num := present_pages_num s + 1\<rparr>))"

text \<open>The bytes of the page at \<open>p\<close>, and the page filled from bytes: the BIOS transfers.\<close>

definition page_bytes :: "(u64 \<Rightarrow> u64) \<Rightarrow> u64 \<Rightarrow> u8 list" where
  "page_bytes m p = put_array 8 (map (\<lambda>i. m (entry p i)) [0..<512])"

definition fill_page :: "u64 \<Rightarrow> u8 list \<Rightarrow> ('d, 'a) mm_state_scheme \<Rightarrow> ('d, 'a) mm_state_scheme" where
  "fill_page p bs s =
     fold (\<lambda>i. store (entry p i) (le_get (slice (8 * i) 8 bs))) [0..<512] s"

definition swap_out ::
    "'d sdcard \<Rightarrow> ('d, 'a) mm_state_scheme \<Rightarrow> ('d, 'a) mm_state_scheme option" where
  "swap_out B s =
     (case nxt (lnk s) Present_pages_queue of
        Page_list i \<Rightarrow>
          let n = Page_list i;
              s1 = s\<lparr>lnk := list_add_tail n Swapped_pages_queue (list_delete_entry n (lnk s))\<rparr>;
              page = pages s1 ! i;
              start = disk_sectors_startid s1;
              s2 = s1\<lparr>sd := sd_write B (sd s1) SECTORS_PER_PAGE (of_int start)
                             (page_bytes (mem s1) (pg_kva page)),
                      pages := (pages s1)[i := page\<lparr>pg_sector := start\<rparr>],
                      disk_sectors_startid := start + sint SECTORS_PER_PAGE\<rparr>;
              pte = get_pte_of_uva (pg_uva page) (pg_pgdir page) s2
          in if pte = 0 then None
             else let s3 = store pte (unset_attribute (mem s2 pte) PAGE_PRESENT) s2;
                      s4 = kfree (pg_kva page) s3
                  in Some (s4\<lparr>present_pages_num := present_pages_num s4 - 1\<rparr>)
      | _ \<Rightarrow> None)"

definition alloc_page_helper ::
    "'d sdcard \<Rightarrow> u64 \<Rightarrow> u64 \<Rightarrow> ('d, 'a) mm_state_scheme \<Rightarrow> (u64 \<times> ('d, 'a) mm_state_scheme) option" where
  "alloc_page_helper B uva pgdir s =
     (let (kva, s1) = kalloc s;
          s2 = map_uva_to_kva uva kva pgdir s1
      in do {
        s3 \<leftarrow> (if present_pages_num s2 \<ge> MAX_PRESENT_PFN then swap_out B s2 else Some s2);
        s4 \<leftarrow> add_new_pre_page uva kva pgdir s3;
        Some (kva, s4)
      })"

definition swap_in ::
    "'d sdcard \<Rightarrow> nat \<Rightarrow> ('d, 'a) mm_state_scheme \<Rightarrow> ('d, 'a) mm_state_scheme" where
  "swap_in B i s =
     (let n = Page_list i;
          s1 = s\<lparr>lnk := list_add_tail n Present_pages_queue (list_delete_entry n (lnk s))\<rparr>;
          (kva, s2) = kalloc s1;
          s3 = s2\<lparr>pages := (pages s2)[i := (pages s2 ! i)\<lparr>pg_kva := kva\<rparr>]\<rparr>;
          page = pages s3 ! i;
          s4 = map_uva_to_kva (pg_uva page) (pg_kva page) (pg_pgdir page) s3;
          s5 = fill_page (pg_kva page)
                 (sd_read B (sd s4) SECTORS_PER_PAGE (of_int (pg_sector page))) s4
      in s5\<lparr>pages := (pages s5)[i := page\<lparr>pg_sector := 0\<rparr>],
            present_pages_num := present_pages_num s5 + 1\<rparr>)"

text \<open>The loop body only runs on page nodes; any other node would be a corrupted queue.\<close>

definition swap_in_if ::
    "'d sdcard \<Rightarrow> u64 \<Rightarrow> node \<Rightarrow> ('d, 'a) mm_state_scheme \<Rightarrow> ('d, 'a) mm_state_scheme option" where
  "swap_in_if B pgdir pos s =
     (case pos of
        Page_list i \<Rightarrow>
          Some (if pg_pgdir (pages s ! i) = pgdir \<and> present_pages_num s < MAX_PRESENT_PFN
                then swap_in B i s else s)
      | _ \<Rightarrow> None)"

definition swap_in_all_pages ::
    "'d sdcard \<Rightarrow> u64 \<Rightarrow> ('d, 'a) mm_state_scheme \<Rightarrow> ('d, 'a) mm_state_scheme option" where
  "swap_in_all_pages B pgdir s =
     list_for_each_entry_safe lnk Swapped_pages_queue (swap_in_if B pgdir) s"

text \<open>The search loops of \<^verbatim>\<open>find_page_with_uva\<close> and \<^verbatim>\<open>find_page_with_kva\<close>, with their test as a parameter.\<close>

partial_function (option) find_page_loop ::
    "(page_t \<Rightarrow> bool) \<Rightarrow> node \<Rightarrow> node \<Rightarrow> ('d, 'a) mm_state_scheme \<Rightarrow> nat option option" where
  "find_page_loop P queue pos s =
     (if pos = queue then Some None
      else case pos of
        Page_list i \<Rightarrow> if P (pages s ! i) then Some (Some i)
                       else find_page_loop P queue (nxt (lnk s) pos) s
      | _ \<Rightarrow> None)"

definition find_page_with_uva ::
    "u64 \<Rightarrow> u64 \<Rightarrow> node \<Rightarrow> ('d, 'a) mm_state_scheme \<Rightarrow> nat option option" where
  "find_page_with_uva uva pgdir queue s =
     find_page_loop (\<lambda>p. pg_uva p = uva \<and> pg_pgdir p = pgdir) queue (nxt (lnk s) queue) s"

definition find_page_with_kva ::
    "u64 \<Rightarrow> node \<Rightarrow> ('d, 'a) mm_state_scheme \<Rightarrow> nat option option" where
  "find_page_with_kva kva queue s =
     find_page_loop (\<lambda>p. pg_kva p = kva) queue (nxt (lnk s) queue) s"

definition reset_page_info :: "nat \<Rightarrow> ('d, 'a) mm_state_scheme \<Rightarrow> ('d, 'a) mm_state_scheme" where
  "reset_page_info i s =
     s\<lparr>pages := (pages s)[i := (pages s ! i)\<lparr>pg_id := 0, pg_sector := 0, pg_uva := 0, pg_kva := 0\<rparr>]\<rparr>"

text \<open>
  The common tail of the freeing functions: \<^verbatim>\<open>reset_page_info(page)\<close>, then
  \<^verbatim>\<open>list_delete_entry(&page->list)\<close>, then \<^verbatim>\<open>kfree(page->kva)\<close>, in this order.
\<close>

definition drop_page :: "nat \<Rightarrow> ('d, 'a) mm_state_scheme \<Rightarrow> ('d, 'a) mm_state_scheme" where
  "drop_page i s =
     (let s1 = reset_page_info i s;
          s2 = s1\<lparr>lnk := list_delete_entry (Page_list i) (lnk s1)\<rparr>
      in kfree (pg_kva (pages s2 ! i)) s2)"

definition free_page_with_uva ::
    "u64 \<Rightarrow> u64 \<Rightarrow> ('d, 'a) mm_state_scheme \<Rightarrow> ('d, 'a) mm_state_scheme option" where
  "free_page_with_uva uva pgdir s = do {
     page \<leftarrow> find_page_with_uva uva pgdir Present_pages_queue s;
     (case page of
        Some i \<Rightarrow> let s1 = drop_page i s
                   in Some (s1\<lparr>present_pages_num := present_pages_num s1 - 1\<rparr>)
      | None \<Rightarrow> do {
          page' \<leftarrow> find_page_with_uva uva pgdir Swapped_pages_queue s;
          (case page' of None \<Rightarrow> None | Some i \<Rightarrow> Some (drop_page i s))
        })
   }"

definition free_page_with_kva ::
    "u64 \<Rightarrow> ('d, 'a) mm_state_scheme \<Rightarrow> ('d, 'a) mm_state_scheme option" where
  "free_page_with_kva kva s = do {
     page \<leftarrow> find_page_with_kva kva Present_pages_queue s;
     (case page of
        Some i \<Rightarrow> let s1 = drop_page i s
                   in Some (s1\<lparr>present_pages_num := present_pages_num s1 - 1\<rparr>)
      | None \<Rightarrow> do {
          page' \<leftarrow> find_page_with_kva kva Swapped_pages_queue s;
          (case page' of None \<Rightarrow> None | Some i \<Rightarrow> Some (drop_page i s))
        })
   }"

text \<open>The three nested loops of \<^verbatim>\<open>free_pagetable\<close>.\<close>

definition free_pte :: "u64 \<Rightarrow> u64 \<Rightarrow> nat \<Rightarrow> nat \<Rightarrow> nat \<Rightarrow>
    ('d, 'a) mm_state_scheme \<Rightarrow> ('d, 'a) mm_state_scheme option" where
  "free_pte pgdir pte vpn2 vpn1 vpn0 s =
     (if mem s (entry pte vpn0) \<noteq> 0
      then do { s1 \<leftarrow> free_page_with_uva (get_uva_from_vpns vpn2 vpn1 vpn0) pgdir s;
                Some (store (entry pte vpn0) 0 s1) }
      else Some s)"

definition free_pmd_entry :: "u64 \<Rightarrow> u64 \<Rightarrow> nat \<Rightarrow> nat \<Rightarrow>
    ('d, 'a) mm_state_scheme \<Rightarrow> ('d, 'a) mm_state_scheme option" where
  "free_pmd_entry pgdir pmd vpn2 vpn1 s =
     (if mem s (entry pmd vpn1) \<noteq> 0
      then let pte = table_of (mem s (entry pmd vpn1))
           in do { s1 \<leftarrow> foldM (free_pte pgdir pte vpn2 vpn1) [0..<512] s; Some (kfree pte s1) }
      else Some s)"

definition free_pagetable ::
    "u64 \<Rightarrow> ('d, 'a) mm_state_scheme \<Rightarrow> ('d, 'a) mm_state_scheme option" where
  "free_pagetable pgdir s =
     foldM (\<lambda>vpn2 s.
       if mem s (entry pgdir vpn2) \<noteq> 0 \<and> vpn2 \<noteq> KERNEL_VA_VPN2 \<and> vpn2 \<noteq> IO_REMAP_VA_VPN2
       then let pmd = table_of (mem s (entry pgdir vpn2))
            in do { s1 \<leftarrow> foldM (free_pmd_entry pgdir pmd vpn2) [0..<512] s;
                    Some (kfree pmd (zero_page pmd s1)) }
       else Some s) [0..<512] s"

section \<open>Shared pages\<close>

text \<open>
  The unbounded search \<^verbatim>\<open>for (int j = 0; ; j++)\<close> for an address that is not mapped yet. The
  argument \<open>pgdir\<close> of the shared-memory functions is \<^verbatim>\<open>current_running->pgdir\<close>.
\<close>

partial_function (option) shm_free_uva ::
    "u64 \<Rightarrow> nat \<Rightarrow> ('d, 'a) mm_state_scheme \<Rightarrow> u64 option" where
  "shm_free_uva pgdir j s =
     (let uva = SHARE_PAGE_UVA_START + of_nat j * PAGE_SIZE
      in if get_pte_of_uva uva pgdir s = 0 then Some uva else shm_free_uva pgdir (j + 1) s)"

definition shm_page_get ::
    "'d sdcard \<Rightarrow> u64 \<Rightarrow> int \<Rightarrow> ('d, 'a) mm_state_scheme \<Rightarrow> (u64 \<times> ('d, 'a) mm_state_scheme) option" where
  "shm_page_get B pgdir key s =
     (case find_index (\<lambda>sp. sh_key sp = key) (share_pages s) of
        Some i \<Rightarrow>
          let sp = share_pages s ! i;
              s1 = s\<lparr>share_pages := (share_pages s)[i := sp\<lparr>sh_ref := sh_ref sp + 1\<rparr>]\<rparr>
          in do { uva \<leftarrow> shm_free_uva pgdir 0 s1;
                  Some (uva, map_uva_to_kva uva (sh_kva sp) pgdir s1) }
      | None \<Rightarrow>
          (case find_index (\<lambda>sp. sh_key sp = 0) (share_pages s) of
             Some i \<Rightarrow>
               let sp = (share_pages s ! i)\<lparr>sh_key := key, sh_ref := sh_ref (share_pages s ! i) + 1\<rparr>;
                   s1 = s\<lparr>share_pages := (share_pages s)[i := sp]\<rparr>
               in do { uva \<leftarrow> shm_free_uva pgdir 0 s1;
                       (kva, s2) \<leftarrow> alloc_page_helper B uva pgdir s1;
                       Some (uva, s2\<lparr>share_pages :=
                               (share_pages s2)[i := (share_pages s2 ! i)\<lparr>sh_kva := kva\<rparr>]\<rparr>) }
           | None \<Rightarrow> Some (0, s)))"

definition shm_page_dt ::
    "u64 \<Rightarrow> u64 \<Rightarrow> ('d, 'a) mm_state_scheme \<Rightarrow> ('d, 'a) mm_state_scheme option" where
  "shm_page_dt pgdir addr s =
     (let kva = get_kva_of_uva addr pgdir s AND NOT (mask 12);
          pte = get_pte_of_uva addr pgdir s
      in if pte = 0 then None
         else let s1 = store pte 0 s
              in case find_index (\<lambda>sp. sh_kva sp = kva) (share_pages s1) of
                   None \<Rightarrow> Some s1
                 | Some i \<Rightarrow>
                     let sp = share_pages s1 ! i;
                         sp1 = sp\<lparr>sh_ref := sh_ref sp - 1\<rparr>;
                         s2 = s1\<lparr>share_pages := (share_pages s1)[i := sp1]\<rparr>
                     in if sh_ref sp1 = 0
                        then do {
                          s3 \<leftarrow> free_page_with_kva (sh_kva sp1)
                                 (s2\<lparr>share_pages := (share_pages s2)[i := sp1\<lparr>sh_key := 0\<rparr>]\<rparr>);
                          Some (s3\<lparr>share_pages :=
                                   (share_pages s3)[i := (share_pages s3 ! i)\<lparr>sh_kva := 0\<rparr>]\<rparr>)
                        }
                        else Some s2)"

end
