(* ===== verification/MM_Alloc.thy ===== *)
theory MM_Alloc
  imports MM
begin

text \<open>
  The page allocator of \<open>src/kernel/mm/mm.c\<close> (\<^verbatim>\<open>kalloc\<close>, \<^verbatim>\<open>kfree\<close>) against its abstraction: a
  stack of freed pages above a bump pointer, and the set of pages handed out. The interface
  locale \<open>page_allocator\<close> is what the page table code relies on.
\<close>

section \<open>Pages and addresses\<close>

definition page_no :: "u64 \<Rightarrow> nat" where
  "page_no a = unat a div 4096"

definition page_aligned :: "u64 \<Rightarrow> bool" where
  "page_aligned p \<longleftrightarrow> unat p mod 4096 = 0"

lemma aligned_ex: "page_aligned p \<Longrightarrow> \<exists>k. unat p = 4096 * k \<and> k < 2 ^ 52"
proof -
  assume "page_aligned p"
  then obtain k where k: "unat p = 4096 * k" by (auto simp: page_aligned_def mod_eq_0_iff_dvd)
  have "unat p < 2 ^ 64" by (rule unat64_less)
  then have "4096 * k < 4096 * 2 ^ 52" using k by simp
  then have "k < 2 ^ 52" by (rule nat_mult_less_cancel1 [THEN iffD1, rotated]) simp
  with k show ?thesis by blast
qed

lemma aligned_bound:
  assumes "page_aligned p" shows "unat p + 4096 \<le> 2 ^ 64"
proof -
  obtain k where k: "unat p = 4096 * k" "k < 2 ^ 52" using aligned_ex [OF assms] by blast
  have "4096 * k + 4096 \<le> 4096 * 2 ^ 52" using k(2) by linarith
  then show ?thesis using k(1) by simp
qed

lemma unat_aligned_add:
  assumes "page_aligned p" "unat x < 4096" shows "unat (p + x) = unat p + unat x"
  using aligned_bound [OF assms(1)] assms(2) by (simp add: unat_plus_if_size word_size)

lemma page_no_aligned_add:
  assumes "page_aligned p" "unat x < 4096" shows "page_no (p + x) = page_no p"
proof -
  obtain k where "unat p = 4096 * k" using aligned_ex [OF assms(1)] by blast
  then show ?thesis using assms by (simp add: page_no_def unat_aligned_add)
qed

lemma page_no_inj:
  assumes "page_aligned p" "page_aligned q" "page_no p = page_no q" shows "p = q"
proof -
  obtain k l where "unat p = 4096 * k" "unat q = 4096 * l" using aligned_ex assms by meson
  then have "unat p = unat q" using assms(3) by (simp add: page_no_def)
  then show ?thesis by (simp add: word_unat_eq_iff)
qed

lemma div_page_iff: "4096 * k \<le> a \<Longrightarrow> a - 4096 * k < 4096 \<longleftrightarrow> a div 4096 = (k::nat)"
  by (auto intro!: div_nat_eqI)

lemma in_page_iff:
  assumes "page_aligned p"
  shows "a - p < PAGE_SIZE \<longleftrightarrow> page_no a = page_no p"
proof -
  obtain k where k: "unat p = 4096 * k" using aligned_ex [OF assms] by blast
  then have pk: "page_no p = k" by (simp add: page_no_def)
  have lt: "a - p < PAGE_SIZE \<longleftrightarrow> unat (a - p) < 4096"
    by (simp add: word_less_nat_alt PAGE_SIZE_def)
  show ?thesis
  proof (cases "unat p \<le> unat a")
    case True
    then have "unat (a - p) = unat a - unat p" by (simp add: unat_sub word_le_nat_alt)
    then show ?thesis using True k div_page_iff [of k "unat a"] unfolding lt pk by (simp add: page_no_def)
  next
    case False
    then have "unat (a - p) = 2 ^ 64 + unat a - unat p"
      by (simp add: unat_sub_if_size word_size)
    then have "\<not> unat (a - p) < 4096" using aligned_bound [OF assms] by linarith
    moreover have "unat a div 4096 < k" using False k by (simp add: less_mult_imp_div_less mult.commute)
    ultimately show ?thesis unfolding lt pk by (simp add: page_no_def)
  qed
qed

lemma unat_entry_offset: "i < 512 \<Longrightarrow> unat (8 * of_nat i :: u64) = 8 * i"
proof -
  assume i: "i < 512"
  have "unat (of_nat (8 * i) :: u64) = take_bit 64 (8 * i)" by (simp only: unsigned_of_nat) simp
  also have "\<dots> = 8 * i" using i by (simp add: take_bit_nat_eq_self)
  finally show ?thesis by simp
qed

lemma page_no_entry:
  assumes "page_aligned p" "i < 512" shows "page_no (entry p i) = page_no p"
  using assms by (simp add: entry_def page_no_aligned_add unat_entry_offset)

lemma entry_eq_iff:
  assumes "page_aligned p" "page_aligned q" "i < 512" "j < 512"
  shows "entry p i = entry q j \<longleftrightarrow> p = q \<and> i = j"
proof
  assume e: "entry p i = entry q j"
  then have pq: "p = q" using assms page_no_entry page_no_inj by metis
  have "unat (entry p k) = unat p + 8 * k" if "k < 512" for k
    unfolding entry_def using assms(1) that by (subst unat_aligned_add) (simp_all add: unat_entry_offset)
  then have "unat p + 8 * i = unat p + 8 * j" using assms(3,4) e pq by metis
  then show "p = q \<and> i = j" using pq by simp
qed auto

lemma entry_0: "entry p 0 = p"
  by (simp add: entry_def)

section \<open>The allocator invariant\<close>

fun chain :: "(u64 \<Rightarrow> u64) \<Rightarrow> u64 list \<Rightarrow> bool" where
  "chain m [] \<longleftrightarrow> False"
| "chain m [t] \<longleftrightarrow> m t = 0"
| "chain m (x # y # ys) \<longleftrightarrow> m x = y \<and> chain m (y # ys)"

text \<open>
  \<open>alloc_inv s fl A\<close>: the free list is \<open>fl\<close>, linked through the first cell of each page and
  ending in the bump page, above which nothing has been handed out yet; \<open>A\<close> are the pages
  that have been handed out and not freed.
\<close>

definition alloc_inv :: "('d, 'a) mm_state_scheme \<Rightarrow> u64 list \<Rightarrow> u64 set \<Rightarrow> bool" where
  "alloc_inv s fl A \<longleftrightarrow>
     fl \<noteq> [] \<and> freemem_list s = hd fl \<and> chain (mem s) fl \<and> distinct fl \<and> A \<inter> set fl = {} \<and>
     (\<forall>p \<in> set fl \<union> A. page_aligned p \<and> FREEMEM_KERNEL \<le> p \<and> p \<le> last fl)"

text \<open>With room for at least \<open>n\<close> more pages below the end of kernel memory.\<close>

definition pages_rep :: "('d, 'a) mm_state_scheme \<Rightarrow> u64 set \<Rightarrow> nat \<Rightarrow> bool" where
  "pages_rep s A n \<longleftrightarrow>
     (\<exists>fl. alloc_inv s fl A \<and> unat (last fl) + 4096 * n \<le> unat FREEMEM_KERNEL_STOP)"

lemma chain_cong: "(\<And>x. x \<in> set fl \<Longrightarrow> m' x = m x) \<Longrightarrow> chain m' fl = chain m fl"
  by (induction m fl rule: chain.induct) auto

lemma freemem_nonzero: "FREEMEM_KERNEL \<le> p \<Longrightarrow> p \<noteq> 0"
  by (auto simp: FREEMEM_KERNEL_def)

lemma pages_repD:
  assumes "pages_rep s A n" "p \<in> A"
  shows "page_aligned p" "FREEMEM_KERNEL \<le> p" "p \<noteq> 0"
  using assms freemem_nonzero by (auto simp: pages_rep_def alloc_inv_def)

lemma pages_rep_mono: "pages_rep s A n \<Longrightarrow> k \<le> n \<Longrightarrow> pages_rep s A k"
  unfolding pages_rep_def by (meson add_le_cancel_left le_trans mult_le_mono2)

text \<open>Writing inside the pages handed out does not disturb the allocator.\<close>

lemma alloc_inv_upd:
  assumes "alloc_inv s fl A" "freemem_list s' = freemem_list s"
    and "\<And>a. mem s' a \<noteq> mem s a \<Longrightarrow> \<exists>p\<in>A. page_no a = page_no p"
  shows "alloc_inv s' fl A"
proof -
  have "mem s' x = mem s x" if "x \<in> set fl" for x
  proof (rule ccontr)
    assume "mem s' x \<noteq> mem s x"
    then obtain p where "p \<in> A" "page_no x = page_no p" using assms(3) by blast
    then have "x = p" using assms(1) that page_no_inj by (auto simp: alloc_inv_def)
    then show False using \<open>p \<in> A\<close> that assms(1) by (auto simp: alloc_inv_def)
  qed
  then show ?thesis using assms(1,2) chain_cong [of fl "mem s'" "mem s"] by (simp add: alloc_inv_def)
qed

lemma pages_rep_upd:
  assumes "pages_rep s A n" "freemem_list s' = freemem_list s"
    and "\<And>a. mem s' a \<noteq> mem s a \<Longrightarrow> \<exists>p\<in>A. page_no a = page_no p"
  shows "pages_rep s' A n"
  using assms alloc_inv_upd [of s _ A s'] unfolding pages_rep_def by blast

lemma pages_rep_store:
  assumes "pages_rep s A n" "p \<in> A" "page_no a = page_no p"
  shows "pages_rep (store a v s) A n"
  using assms by (intro pages_rep_upd [OF assms(1)]) (auto simp: store_def split: if_splits)

section \<open>Allocation and freeing\<close>

lemma mem_zero_page:
  "page_aligned p \<Longrightarrow> mem (zero_page p s) a = (if page_no a = page_no p then 0 else mem s a)"
  by (simp add: zero_page_def in_page_iff)

lemma kalloc_correct:
  assumes rep: "pages_rep s A (Suc n)" and k: "kalloc s = (p, s')"
  shows "p \<notin> A \<and> page_aligned p \<and> FREEMEM_KERNEL \<le> p \<and> p < FREEMEM_KERNEL_STOP \<and>
    pages_rep s' (insert p A) n \<and>
    (\<forall>a. page_no a = page_no p \<longrightarrow> mem s' a = 0) \<and>
    (\<forall>q\<in>A. \<forall>a. page_no a = page_no q \<longrightarrow> mem s' a = mem s a)"
proof -
  obtain fl where inv: "alloc_inv s fl A" and room: "unat (last fl) + 4096 * Suc n \<le> unat FREEMEM_KERNEL_STOP"
    using rep by (auto simp: pages_rep_def)
  obtain rest where fl: "fl = p # rest"
    using inv k by (cases fl) (auto simp: alloc_inv_def kalloc_def Let_def)
  have pal: "page_aligned p" and pk: "FREEMEM_KERNEL \<le> p" and pA: "p \<notin> A" and p0: "p \<noteq> 0"
    using inv fl freemem_nonzero by (auto simp: alloc_inv_def)
  have Anp: "page_no q \<noteq> page_no p" if "q \<in> A" for q
    using that pA pal inv page_no_inj by (metis Un_iff alloc_inv_def)
  have plast: "p \<le> last fl" using inv fl by (auto simp: alloc_inv_def)
  then have pstop: "p < FREEMEM_KERNEL_STOP" using room by (simp add: word_le_nat_alt word_less_nat_alt)
  have fls: "freemem_list s = p" using inv fl by (simp add: alloc_inv_def)
  show ?thesis
  proof (cases "rest = []")
    case True
    define t where "t = p + PAGE_SIZE"
    have ut: "unat t = unat p + 4096"
      using room True fl pal by (simp add: t_def PAGE_SIZE_def unat_plus_if_size word_size FREEMEM_KERNEL_STOP_def)
    have tal: "page_aligned t" using pal ut by (simp add: page_aligned_def)
    have pt: "page_no t \<noteq> page_no p" by (simp add: page_no_def ut)
    have s': "s' = zero_page p (store t 0 (s\<lparr>freemem_list := t\<rparr>))"
      using k inv fl True by (simp add: kalloc_def fls Let_def t_def alloc_inv_def)
    have At: "page_no q \<noteq> page_no t" if "q \<in> A" for q
    proof -
      have "unat q \<le> unat p" using inv that fl True by (auto simp: alloc_inv_def word_le_nat_alt)
      then show ?thesis by (auto simp: page_no_def ut)
    qed
    have "alloc_inv s' [t] (insert p A)"
      using inv fl True tal pal pt pk At pA
      by (auto simp: alloc_inv_def s' mem_zero_page store_def zero_page_def word_le_nat_alt ut in_page_iff)
    moreover have "unat t + 4096 * n \<le> unat FREEMEM_KERNEL_STOP" using room True fl ut by simp
    ultimately have "pages_rep s' (insert p A) n" unfolding pages_rep_def by (intro exI [of _ "[t]"]) simp
    moreover have "mem s' a = mem s a" if "q \<in> A" "page_no a = page_no q" for q a
      using At [OF that(1)] Anp [OF that(1)] that(2) pal by (auto simp: s' mem_zero_page store_def)
    moreover have "mem s' a = 0" if "page_no a = page_no p" for a
      using that pal by (simp add: s' mem_zero_page)
    ultimately show ?thesis using pA pal pk pstop by blast
  next
    case False
    then obtain y ys where rest: "rest = y # ys" by (cases rest) auto
    have my: "mem s p = y" "y \<noteq> 0" using inv fl rest freemem_nonzero by (auto simp: alloc_inv_def)
    have s': "s' = zero_page p (s\<lparr>freemem_list := y\<rparr>)"
      using k my by (simp add: kalloc_def fls Let_def)
    have fl_np: "page_no x \<noteq> page_no p" if "x \<in> set rest" for x
      using that inv fl pal page_no_inj by (metis Un_iff alloc_inv_def distinct.simps(2) list.set_intros(2))
    have "chain (mem s') rest = chain (mem s) rest"
      using fl_np by (intro chain_cong) (simp add: s' mem_zero_page pal)
    then have "alloc_inv s' rest (insert p A)"
      using inv fl rest plast pA by (auto simp: alloc_inv_def s' zero_page_def)
    then have "pages_rep s' (insert p A) n"
      using room fl rest unfolding pages_rep_def by (intro exI [of _ rest]) simp
    then show ?thesis using pA pal pk pstop Anp by (auto simp: s' mem_zero_page)
  qed
qed

lemma kfree_correct:
  assumes rep: "pages_rep s A n" and p: "p \<in> A"
  shows "pages_rep (kfree p s) (A - {p}) n \<and> freemem_list (kfree p s) = p \<and>
    (\<forall>q\<in>A - {p}. \<forall>a. page_no a = page_no q \<longrightarrow> mem (kfree p s) a = mem s a)"
proof -
  obtain fl where inv: "alloc_inv s fl A" and room: "unat (last fl) + 4096 * n \<le> unat FREEMEM_KERNEL_STOP"
    using rep by (auto simp: pages_rep_def)
  have pk: "\<not> p < FREEMEM_KERNEL" using inv p by (auto simp: alloc_inv_def not_less)
  obtain x xs where fl: "fl = x # xs" using inv by (cases fl) (auto simp: alloc_inv_def)
  have "p \<notin> set fl" using inv p by (auto simp: alloc_inv_def)
  then have "chain (mem (kfree p s)) fl = chain (mem s) fl"
    by (intro chain_cong) (auto simp: kfree_def store_def)
  then have "alloc_inv (kfree p s) (p # fl) (A - {p})"
    using inv p pk fl by (auto simp: alloc_inv_def kfree_def store_def)
  then have "pages_rep (kfree p s) (A - {p}) n"
    using room fl unfolding pages_rep_def by (intro exI [of _ "p # fl"]) simp
  moreover have "mem (kfree p s) a = mem s a" if "q \<in> A - {p}" "page_no a = page_no q" for q a
  proof -
    have "page_no q \<noteq> page_no p" using that p pages_repD [OF rep] page_no_inj by blast
    then show ?thesis using that by (auto simp: kfree_def store_def)
  qed
  ultimately show ?thesis using pk by (auto simp: kfree_def store_def)
qed

section \<open>The allocator interface\<close>

locale page_allocator =
  fixes rep :: "'s \<Rightarrow> u64 set \<Rightarrow> nat \<Rightarrow> bool"
    and alloc :: "'s \<Rightarrow> u64 \<times> 's"
    and free :: "u64 \<Rightarrow> 's \<Rightarrow> 's"
    and cell :: "'s \<Rightarrow> u64 \<Rightarrow> u64"
  assumes alloc_fresh: "rep s A (Suc n) \<Longrightarrow> alloc s = (p, s') \<Longrightarrow> p \<notin> A \<and> page_aligned p"
    and alloc_rep: "rep s A (Suc n) \<Longrightarrow> alloc s = (p, s') \<Longrightarrow> rep s' (insert p A) n"
    and alloc_zero: "rep s A (Suc n) \<Longrightarrow> alloc s = (p, s') \<Longrightarrow> page_no a = page_no p \<Longrightarrow> cell s' a = 0"
    and alloc_frame: "rep s A (Suc n) \<Longrightarrow> alloc s = (p, s') \<Longrightarrow> q \<in> A \<Longrightarrow>
      page_no a = page_no q \<Longrightarrow> cell s' a = cell s a"
    and free_rep: "rep s A n \<Longrightarrow> p \<in> A \<Longrightarrow> rep (free p s) (A - {p}) n"
    and free_frame: "rep s A n \<Longrightarrow> p \<in> A \<Longrightarrow> q \<in> A \<Longrightarrow> q \<noteq> p \<Longrightarrow>
      page_no a = page_no q \<Longrightarrow> cell (free p s) a = cell s a"
    and free_reuse: "rep s A n \<Longrightarrow> p \<in> A \<Longrightarrow> fst (alloc (free p s)) = p"
begin

text \<open>Two successive allocations give two different pages.\<close>

lemma alloc_alloc_distinct:
  assumes "rep s A (Suc (Suc n))" "alloc s = (p, s1)" "alloc s1 = (q, s2)"
  shows "p \<noteq> q"
  using alloc_fresh [OF alloc_rep [OF assms(1,2)] assms(3)] by auto

text \<open>A page that is freed and allocated again comes back zeroed, and the others keep their contents.\<close>

lemma free_alloc_cycle:
  assumes r: "rep s A (Suc n)" and p: "p \<in> A" and a: "alloc (free p s) = (q, s')"
  shows "q = p" "rep s' A n" "\<And>a. page_no a = page_no p \<Longrightarrow> cell s' a = 0"
    "\<And>r a. r \<in> A \<Longrightarrow> r \<noteq> p \<Longrightarrow> page_no a = page_no r \<Longrightarrow> cell s' a = cell s a"
proof -
  have q: "q = p" using free_reuse [OF r p] a by simp
  then show "q = p" .
  have r1: "rep (free p s) (A - {p}) (Suc n)" using free_rep [OF r p] .
  show "rep s' A n" using alloc_rep [OF r1 a] q p by (simp add: insert_absorb)
  show "cell s' a = 0" if "page_no a = page_no p" for a using alloc_zero [OF r1 \<open>alloc (free p s) = (q, s')\<close>] q that by simp
  show "cell s' b = cell s b" if "t \<in> A" "t \<noteq> p" "page_no b = page_no t" for t b
    using alloc_frame [OF r1 a, of t b] free_frame [OF r p, of t b] that by simp
qed

end

interpretation kmem: page_allocator
    "pages_rep :: ('d, 'a) mm_state_scheme \<Rightarrow> u64 set \<Rightarrow> nat \<Rightarrow> bool" kalloc kfree mem
proof unfold_locales
  fix s :: "('d, 'a) mm_state_scheme" and A n p s'
  assume r: "pages_rep s A (Suc n)" and k: "kalloc s = (p, s')"
  note c = kalloc_correct [OF r k]
  show "p \<notin> A \<and> page_aligned p" "pages_rep s' (insert p A) n" using c by auto
  show "mem s' a = 0" if "page_no a = page_no p" for a using c that by auto
  show "mem s' a = mem s a" if "q \<in> A" "page_no a = page_no q" for q a using c that by auto
next
  fix s :: "('d, 'a) mm_state_scheme" and A n p
  assume r: "pages_rep s A n" and p: "p \<in> A"
  note c = kfree_correct [OF r p]
  show "pages_rep (kfree p s) (A - {p}) n" using c by auto
  show "mem (kfree p s) a = mem s a" if "q \<in> A" "q \<noteq> p" "page_no a = page_no q" for q a
    using c that by auto
  show "fst (kalloc (kfree p s)) = p" using c by (simp add: kalloc_def Let_def)
qed

section \<open>Page table entries\<close>

lemma kva2pa_pa2kva [simp]: "kva2pa (pa2kva a) = a" "pa2kva (kva2pa a) = a"
  by (simp_all add: kva2pa_def pa2kva_def)

text \<open>An entry built from a frame number and attributes below bit 10 gives the frame back.\<close>

lemma get_pa_of_entry:
  assumes "pa AND mask 12 = 0" "pa AND NOT (mask 56) = 0" "attr AND NOT (mask 10) = 0"
  shows "get_pa (set_attribute (set_pfn (drop_bit 12 pa)) attr) = pa"
proof (rule bit_eqI)
  fix n assume "possible_bit TYPE(u64) n"
  then have n: "n < 64" by simp
  have lo: "\<not> bit pa n" if "n < 12"
  proof
    assume "bit pa n"
    then have "bit (pa AND mask 12) n" using that n by (simp add: bit_and_iff bit_mask_iff)
    then show False using assms(1) by simp
  qed
  have hi: "\<not> bit pa n" if "56 \<le> n"
  proof
    assume "bit pa n"
    then have "bit (pa AND NOT (mask 56)) n" using that n by (simp add: bit_and_iff bit_not_iff bit_mask_iff)
    then show False using assms(2) by simp
  qed
  have at: "\<not> bit attr m" if "10 \<le> m" for m
  proof
    assume b: "bit attr m"
    then have "m < 64" using bit_imp_le_length [OF b] by simp
    then have "bit (attr AND NOT (mask 10)) m" using that b by (simp add: bit_and_iff bit_not_iff bit_mask_iff)
    then show False using assms(3) by simp
  qed
  have e: "bit (get_pa (set_attribute (set_pfn (drop_bit 12 pa)) attr)) n \<longleftrightarrow>
      12 \<le> n \<and> n < 56 \<and> bit pa n"
    using n at [of "n - 2"] at [of "n - Suc (Suc 0)"]
    by (auto simp: get_pa_def set_attribute_def set_pfn_def PTE_PPN_AND_ATTR_MASK_def
        bit_push_bit_iff bit_drop_bit_eq bit_and_iff bit_or_iff bit_mask_iff add.commute)
  show "bit (get_pa (set_attribute (set_pfn (drop_bit 12 pa)) attr)) n = bit pa n"
    unfolding e using lo hi by (meson not_le)
qed

text \<open>The address of a frame below \<open>2 ^ 56\<close> fits into an entry.\<close>

lemma frame_address:
  fixes pa :: u64
  assumes "unat pa mod 4096 = 0" "unat pa < 2 ^ 56"
  shows "pa AND mask 12 = 0" "pa AND NOT (mask 56) = 0"
proof -
  have "take_bit 12 (unat pa) = 0" using assms(1) by (simp add: take_bit_eq_mod)
  then have "unat (take_bit 12 pa) = 0" by (simp only: unsigned_take_bit_eq)
  then have "take_bit 12 pa = 0" by (simp only: unsigned_eq_0_iff)
  then show "pa AND mask 12 = 0" by (simp only: take_bit_eq_mask)
  have "take_bit 56 pa = pa"
    using assms(2) by (metis unsigned_take_bit_eq take_bit_nat_eq_self word_unat_eq_iff)
  then have "pa AND mask 56 = pa" by (simp add: take_bit_eq_mask)
  then show "pa AND NOT (mask 56) = 0"
    by (metis and.assoc bit.conj_cancel_right bit.conj_zero_right)
qed

lemma kernel_pa:
  assumes "page_aligned p" "FREEMEM_KERNEL \<le> p"
  shows "kva2pa p AND mask 12 = 0" "kva2pa p AND NOT (mask 56) = 0"
proof -
  have u: "unat (kva2pa p) = unat p - unat KERNEL_VM_OFFSET"
    using assms(2) by (simp add: kva2pa_def FREEMEM_KERNEL_def KERNEL_VM_OFFSET_def unat_sub word_le_nat_alt)
  obtain k where k: "unat p = 4096 * k" using aligned_ex [OF assms(1)] by blast
  have "unat KERNEL_VM_OFFSET = 4096 * 0xffffffc000000" by (simp add: KERNEL_VM_OFFSET_def)
  then have "unat (kva2pa p) = 4096 * (k - 0xffffffc000000)" using u k by (simp add: diff_mult_distrib2)
  moreover have "unat (kva2pa p) < 2 ^ 56"
    using u unat64_less [of p] by (simp add: KERNEL_VM_OFFSET_def)
  ultimately show "kva2pa p AND mask 12 = 0" "kva2pa p AND NOT (mask 56) = 0"
    by (simp_all add: frame_address)
qed

section \<open>The state at boot\<close>

definition mm_boot :: "'d \<Rightarrow> 'd mm_state" where
  "mm_boot d = \<lparr>mem = (\<lambda>_. 0), freemem_list = 0,
     lnk = INIT_LIST_HEAD Swapped_pages_queue
             (INIT_LIST_HEAD Present_pages_queue \<lparr>nxt = id, prv = id\<rparr>),
     pages = replicate MAX_PFN \<lparr>pg_uva = 0, pg_kva = 0, pg_pgdir = 0, pg_id = 0, pg_sector = 0\<rparr>,
     page_id = 0, present_pages_num = 0, disk_sectors_startid = 0,
     share_pages = replicate MAX_SHARE_PAGE_NUM \<lparr>sh_kva = 0, sh_ref = 0, sh_key = 0\<rparr>, sd = d\<rparr>"

lemma init_pages_rep:
  assumes "n \<le> 57344" shows "pages_rep (init_kernel_freemem s) {} n"
proof -
  have "alloc_inv (init_kernel_freemem s) [FREEMEM_KERNEL] {}"
    by (simp add: alloc_inv_def init_kernel_freemem_def store_def page_aligned_def FREEMEM_KERNEL_def)
  moreover have "unat FREEMEM_KERNEL + 4096 * n \<le> unat FREEMEM_KERNEL_STOP"
    using assms by (simp add: FREEMEM_KERNEL_def FREEMEM_KERNEL_STOP_def)
  ultimately show ?thesis unfolding pages_rep_def by (intro exI [of _ "[FREEMEM_KERNEL]"]) simp
qed

section \<open>Properties\<close>

text \<open>
  C9: \<^verbatim>\<open>kalloc\<close> hands out a page that is not in use, page aligned, inside the kernel's free
  memory and filled with zeros, and changes no cell of any page in use, as long as memory below
  \<^verbatim>\<open>FREEMEM_KERNEL_STOP\<close> is left.
\<close>
theorem kalloc_fresh_page:
  assumes "pages_rep s A (Suc n)" "kalloc s = (p, s')"
  shows "p \<notin> A \<and> page_aligned p \<and> FREEMEM_KERNEL \<le> p \<and> p < FREEMEM_KERNEL_STOP \<and>
    pages_rep s' (insert p A) n \<and>
    (\<forall>a. page_no a = page_no p \<longrightarrow> mem s' a = 0) \<and>
    (\<forall>q\<in>A. \<forall>a. page_no a = page_no q \<longrightarrow> mem s' a = mem s a)"
  using assms by (rule kalloc_correct)

theorem kalloc_fresh_page_witness:
  "\<exists>p s'. kalloc (init_kernel_freemem (mm_boot ())) = (p, s') \<and>
    p \<notin> {} \<and> page_aligned p \<and> FREEMEM_KERNEL \<le> p \<and> p < FREEMEM_KERNEL_STOP \<and>
    pages_rep s' (insert p {}) 9 \<and>
    (\<forall>a. page_no a = page_no p \<longrightarrow> mem s' a = 0) \<and>
    (\<forall>q\<in>{}. \<forall>a. page_no a = page_no q \<longrightarrow> mem s' a = mem (init_kernel_freemem (mm_boot ())) a)"
proof -
  obtain p s' where k: "kalloc (init_kernel_freemem (mm_boot ())) = (p, s')" by fastforce
  have r: "pages_rep (init_kernel_freemem (mm_boot ())) {} (Suc 9)" by (rule init_pages_rep) simp
  show ?thesis using k kalloc_fresh_page [OF r k] by (intro exI [of _ p] exI [of _ s'] conjI) auto
qed

text \<open>
  C10: \<^verbatim>\<open>kfree\<close> followed by \<^verbatim>\<open>kalloc\<close> gives the freed page back, zeroed; the set of pages in use is
  what it was, and every other page in use keeps its contents.
\<close>
theorem kfree_kalloc_reuses:
  assumes "pages_rep s A (Suc n)" "p \<in> A" "kalloc (kfree p s) = (q, s')"
  shows "q = p \<and> pages_rep s' A n \<and> (\<forall>a. page_no a = page_no p \<longrightarrow> mem s' a = 0) \<and>
    (\<forall>r\<in>A - {p}. \<forall>a. page_no a = page_no r \<longrightarrow> mem s' a = mem s a)"
  using kmem.free_alloc_cycle [OF assms] by auto

theorem kfree_kalloc_reuses_witness:
  "\<exists>p s1 q s'. kalloc (init_kernel_freemem (mm_boot ())) = (p, s1) \<and> kalloc (kfree p s1) = (q, s') \<and>
    q = p \<and> pages_rep s' {p} 9 \<and> (\<forall>a. page_no a = page_no p \<longrightarrow> mem s' a = 0) \<and>
    (\<forall>r\<in>{p} - {p}. \<forall>a. page_no a = page_no r \<longrightarrow> mem s' a = mem s1 a)"
proof -
  obtain p s1 where k: "kalloc (init_kernel_freemem (mm_boot ())) = (p, s1)" by fastforce
  have "pages_rep (init_kernel_freemem (mm_boot ())) {} (Suc (Suc 9))" by (rule init_pages_rep) simp
  then have r: "pages_rep s1 {p} (Suc 9)" using kmem.alloc_rep [OF _ k] by simp
  obtain q s' where k': "kalloc (kfree p s1) = (q, s')" by fastforce
  show ?thesis using k k' kfree_kalloc_reuses [OF r _ k'] by blast
qed

end
