(* ===== verification/MM_Table.thy ===== *)
theory MM_Table
  imports MM_Alloc
begin

text \<open>
  The three-level page tables of \<open>src/kernel/mm/mm.c\<close>: \<^verbatim>\<open>map_uva_to_kva\<close>, \<^verbatim>\<open>get_pte_of_uva\<close> and
  \<^verbatim>\<open>get_kva_of_uva\<close> over the user half of the address space (first-level index below 256; the
  kernel half is shared and made of large pages). The proofs see a table as a tree of pages
  handed out by the allocator.
\<close>

section \<open>Tables as a tree\<close>

text \<open>
  The table reached from the root \<open>r\<close> by a path of indices (innermost first), if every entry on
  the way is set.
\<close>

fun tab :: "(u64 \<Rightarrow> u64) \<Rightarrow> u64 \<Rightarrow> nat list \<Rightarrow> u64 option" where
  "tab m r [] = Some r"
| "tab m r (i # ps) = (case tab m r ps of None \<Rightarrow> None
     | Some t \<Rightarrow> if m (entry t i) = 0 then None else Some (table_of (m (entry t i))))"

declare tab.simps(2) [simp del]

definition user_path :: "nat list \<Rightarrow> bool" where
  "user_path ps \<longleftrightarrow> length ps \<le> 2 \<and> (\<forall>i\<in>set ps. i < 512) \<and> (ps \<noteq> [] \<longrightarrow> last ps < 256)"

text \<open>Every table of the tree is a page in use, and no page is two tables.\<close>

definition pt_wf :: "(u64 \<Rightarrow> u64) \<Rightarrow> u64 set \<Rightarrow> u64 \<Rightarrow> bool" where
  "pt_wf m A r \<longleftrightarrow>
     (\<forall>ps t. user_path ps \<longrightarrow> tab m r ps = Some t \<longrightarrow> t \<in> A) \<and>
     (\<forall>ps qs t. user_path ps \<longrightarrow> user_path qs \<longrightarrow> tab m r ps = Some t \<longrightarrow> tab m r qs = Some t \<longrightarrow> ps = qs)"

text \<open>The last-level entry of a page, 0 where there is none.\<close>

definition leaf :: "(u64 \<Rightarrow> u64) \<Rightarrow> u64 \<Rightarrow> nat \<Rightarrow> nat \<Rightarrow> nat \<Rightarrow> u64" where
  "leaf m r i j k = (case tab m r [j, i] of None \<Rightarrow> 0 | Some t \<Rightarrow> m (entry t k))"

definition agrees :: "u64 set \<Rightarrow> u64 set \<Rightarrow> (u64 \<Rightarrow> u64) \<Rightarrow> (u64 \<Rightarrow> u64) \<Rightarrow> bool" where
  "agrees A X m m' \<longleftrightarrow> (\<forall>p\<in>A. \<forall>a. page_no a = page_no p \<longrightarrow> a \<notin> X \<longrightarrow> m' a = m a)"

lemma user_path_Cons: "user_path (i # ps) \<Longrightarrow> user_path ps"
  by (auto simp: user_path_def split: if_splits)

lemma user_path_simps [simp]:
  "user_path []" "user_path [i] \<longleftrightarrow> i < 256" "user_path [j, i] \<longleftrightarrow> j < 512 \<and> i < 256"
  by (auto simp: user_path_def)

text \<open>Hanging a fresh, empty table under a free entry adds one node to the tree.\<close>

lemma tab_add:
  assumes wf: "pt_wf m A r" and al: "\<And>x. x \<in> A \<Longrightarrow> page_aligned x" and pal: "page_aligned p"
    and p: "p \<notin> A" and t: "tab m r ps = Some t" and ok: "user_path (i # ps)"
    and free: "m (entry t i) = 0" and e: "m' (entry t i) \<noteq> 0" "table_of (m' (entry t i)) = p"
    and z: "\<And>a. page_no a = page_no p \<Longrightarrow> m' a = 0" and ag: "agrees A {entry t i} m m'"
    and qs: "user_path qs"
  shows "tab m' r qs = (if qs = i # ps then Some p else tab m r qs)"
  using qs
proof (induction qs)
  case Nil
  then show ?case by simp
next
  case (Cons k qs)
  have qok: "user_path qs" by (rule user_path_Cons [OF Cons.prems])
  have k: "k < 512" using Cons.prems by (simp add: user_path_def)
  have tA: "t \<in> A" using wf t user_path_Cons [OF ok] by (auto simp: pt_wf_def)
  have i: "i < 512" using ok by (simp add: user_path_def)
  show ?case
  proof (cases "qs = i # ps")
    case True
    have "tab m r (i # ps) = None" using t free by (simp add: tab.simps)
    moreover have "m' (entry p k) = 0" using z page_no_entry [OF pal k] by blast
    ultimately show ?thesis using Cons.IH [OF qok] True by (simp add: tab.simps(2) [of _ _ k])
  next
    case False
    then have IH: "tab m' r qs = tab m r qs" using Cons.IH [OF qok] by simp
    show ?thesis
    proof (cases "tab m r qs")
      case None
      then show ?thesis using IH t by (auto simp: tab.simps)
    next
      case (Some u)
      then have uA: "u \<in> A" using wf qok by (auto simp: pt_wf_def)
      have "u = t \<longleftrightarrow> qs = ps"
        using Some t wf qok user_path_Cons [OF ok] unfolding pt_wf_def by (metis option.inject)
      then have eq: "entry u k = entry t i \<longleftrightarrow> k # qs = i # ps"
        using entry_eq_iff [OF al [OF uA] al [OF tA] k i] by auto
      show ?thesis
      proof (cases "k # qs = i # ps")
        case True
        then show ?thesis using IH Some e eq by (simp add: tab.simps)
      next
        case False
        then have "m' (entry u k) = m (entry u k)"
          using ag uA page_no_entry [OF al [OF uA] k] eq by (auto simp: agrees_def)
        then show ?thesis using IH Some False by (auto simp: tab.simps)
      qed
    qed
  qed
qed

lemma pt_wf_add:
  assumes wf: "pt_wf m A r" and p: "p \<notin> A"
    and eq: "\<And>qs. user_path qs \<Longrightarrow> tab m' r qs = (if qs = ps then Some p else tab m r qs)"
  shows "pt_wf m' (insert p A) r"
proof -
  have "t \<in> insert p A" if "user_path qs" "tab m' r qs = Some t" for qs t
    using wf that eq [OF that(1)] by (auto simp: pt_wf_def split: if_splits)
  moreover have "qs = qs'" if "user_path qs" "user_path qs'" "tab m' r qs = Some t" "tab m' r qs' = Some t" for qs qs' t
    using wf p that eq [OF that(1)] eq [OF that(2)] by (auto simp: pt_wf_def split: if_splits)
  ultimately show ?thesis by (auto simp: pt_wf_def)
qed

text \<open>Writing a last-level entry leaves the tree alone.\<close>

lemma tab_store_leaf:
  assumes wf: "pt_wf m A r" and al: "\<And>x. x \<in> A \<Longrightarrow> page_aligned x"
    and t: "tab m r [j, i] = Some t" and ji: "j < 512" "i < 256" and k: "k < 512" and qs: "user_path qs"
  shows "tab (m(entry t k := v)) r qs = tab m r qs"
  using qs
proof (induction qs)
  case Nil
  then show ?case by simp
next
  case (Cons l qs)
  have qok: "user_path qs" by (rule user_path_Cons [OF Cons.prems])
  have l: "l < 512" and len: "length qs \<le> 1" using Cons.prems by (auto simp: user_path_def)
  have ok: "user_path [j, i]" using ji by simp
  show ?case
  proof (cases "tab m r qs")
    case None
    then show ?thesis using Cons.IH [OF qok] by (simp add: tab.simps)
  next
    case (Some u)
    have uA: "u \<in> A" and tA: "t \<in> A" using wf Some t qok ok by (auto simp only: pt_wf_def)
    have "u \<noteq> t"
    proof
      assume "u = t"
      then have "qs = [j, i]" using wf Some t qok ok unfolding pt_wf_def by blast
      then show False using len by simp
    qed
    then have "entry u l \<noteq> entry t k" using entry_eq_iff [OF al [OF uA] al [OF tA] l k] by simp
    then show ?thesis using Cons.IH [OF qok] Some by (simp add: tab.simps)
  qed
qed

lemma leaf_store_leaf:
  assumes wf: "pt_wf m A r" and al: "\<And>x. x \<in> A \<Longrightarrow> page_aligned x"
    and t: "tab m r [j, i] = Some t" and ji: "j < 512" "i < 256" and k: "k < 512"
    and ji': "j' < 512" "i' < 256" and k': "k' < 512"
  shows "leaf (m(entry t k := v)) r i' j' k' = (if (i', j', k') = (i, j, k) then v else leaf m r i' j' k')"
proof -
  have T: "tab (m(entry t k := v)) r [j', i'] = tab m r [j', i']"
    using tab_store_leaf [OF wf al t ji k] ji' by simp
  show ?thesis
  proof (cases "tab m r [j', i']")
    case None
    then have "(i', j', k') \<noteq> (i, j, k)" using t by auto
    then show ?thesis using T None by (simp only: leaf_def option.simps if_False)
  next
    case (Some u)
    have uA: "u \<in> A" and tA: "t \<in> A" using wf Some t ji ji' by (meson pt_wf_def user_path_simps(3))+
    have "u = t \<longleftrightarrow> (i', j') = (i, j)"
    proof
      assume "u = t"
      then have "[j', i'] = [j, i]" using wf Some t ji ji' by (meson pt_wf_def user_path_simps(3))
      then show "(i', j') = (i, j)" by simp
    next
      assume "(i', j') = (i, j)"
      then have "Some u = Some t" using Some t by (metis prod.inject)
      then show "u = t" by simp
    qed
    then have "entry u k' = entry t k \<longleftrightarrow> (i', j', k') = (i, j, k)"
      using entry_eq_iff [OF al [OF uA] al [OF tA] k' k] by auto
    then show ?thesis using T Some by (simp add: leaf_def)
  qed
qed

section \<open>Allocating a table\<close>

lemma clear_pgdir_zero:
  assumes "\<And>i. i < 512 \<Longrightarrow> mem s (entry p i) = 0"
  shows "clear_pgdir p s = s"
proof -
  have st: "store a 0 s = s" if "mem s a = 0" for a
    using that by (simp add: store_def) (metis (mono_tags) fun_upd_triv mm_state.surjective mm_state.update_convs(1))
  have "fold (\<lambda>i. store (entry p i) 0) is s = s" if "\<forall>i\<in>set is. i < 512" for "is"
    using that assms by (induction "is") (auto simp: st)
  then show ?thesis by (simp add: clear_pgdir_def)
qed

lemma table_entry:
  assumes "page_aligned p" "FREEMEM_KERNEL \<le> p" "attr AND NOT (mask 10) = 0" "bit attr 0"
  defines "e \<equiv> set_attribute (set_pfn (drop_bit 12 (kva2pa p))) attr"
  shows "e \<noteq> 0" "get_pa e = kva2pa p" "table_of e = p"
proof -
  have "bit e 0" using assms(4) by (simp add: e_def set_attribute_def bit_or_iff)
  then show "e \<noteq> 0" by auto
  show pa: "get_pa e = kva2pa p"
    unfolding e_def using kernel_pa [OF assms(1,2)] assms(3) by (intro get_pa_of_entry)
  show "table_of e = p" by (simp add: table_of_def pa)
qed

abbreviation user_attr :: u64 where
  "user_attr \<equiv> PAGE_PRESENT OR PAGE_READ OR PAGE_WRITE OR PAGE_EXEC OR PAGE_USER"

lemma attr_bits:
  "PAGE_PRESENT AND NOT (mask 10) = 0" "bit PAGE_PRESENT 0"
  "user_attr AND NOT (mask 10) = 0" "bit user_attr 0"
  by (simp_all add: PAGE_PRESENT_def PAGE_READ_def PAGE_WRITE_def PAGE_EXEC_def PAGE_USER_def
      mask_eq_exp_minus_1)

text \<open>What \<open>alloc_table\<close> does: a fresh zero page becomes the table of the entry; nothing else in use changes.\<close>

lemma alloc_table_spec:
  assumes rep: "pages_rep s A (Suc n)" and t: "t \<in> A" and i: "i < 512"
  shows "\<exists>p. p \<notin> A \<and> page_aligned p \<and> pages_rep (alloc_table (entry t i) s) (insert p A) n \<and>
    mem (alloc_table (entry t i) s) (entry t i) \<noteq> 0 \<and>
    table_of (mem (alloc_table (entry t i) s) (entry t i)) = p \<and>
    (\<forall>a. page_no a = page_no p \<longrightarrow> mem (alloc_table (entry t i) s) a = 0) \<and>
    agrees A {entry t i} (mem s) (mem (alloc_table (entry t i) s))"
proof -
  obtain p s1 where k: "kalloc s = (p, s1)" by fastforce
  note kc = kalloc_correct [OF rep k]
  have tal: "page_aligned t" using pages_repD [OF rep t] by simp
  have pt: "page_no (entry t i) \<noteq> page_no p"
    using kc t tal page_no_entry [OF tal i] page_no_inj by metis
  define e where "e = set_attribute (set_pfn (drop_bit 12 (kva2pa p))) PAGE_PRESENT"
  have e: "e \<noteq> 0" "table_of e = p"
    using table_entry [of p PAGE_PRESENT] kc attr_bits(1,2) by (auto simp: e_def)
  define s3 where "s3 = store (entry t i) e s1"
  have s3m: "mem s3 a = (if a = entry t i then e else mem s1 a)" for a
    by (simp add: s3_def store_def)
  have "mem s3 (entry p j) = 0" if "j < 512" for j
    using kc page_no_entry [of p j] that pt by (auto simp: s3m)
  then have "clear_pgdir p s3 = s3" by (rule clear_pgdir_zero)
  moreover have "store (entry t i) e (store (entry t i) x s1) = s3" for x
    by (simp add: s3_def store_def)
  ultimately have at: "alloc_table (entry t i) s = s3"
    using e by (simp add: alloc_table_def k s3m e_def [symmetric]) (simp add: store_def e_def s3_def)
  have "pages_rep s3 (insert p A) n"
    unfolding s3_def using kc t page_no_entry [OF tal i] by (intro pages_rep_store [of _ _ _ t]) auto
  moreover have "agrees A {entry t i} (mem s) (mem s3)"
    using kc by (auto simp: agrees_def s3m)
  moreover have "mem s3 a = 0" if "page_no a = page_no p" for a
    using kc that pt by (auto simp: s3m)
  ultimately show ?thesis using kc e unfolding at by (intro exI [of _ p]) (simp add: s3m)
qed

text \<open>
  The conditional allocations of \<^verbatim>\<open>map_uva_to_kva\<close>: afterwards the entry is set, the tree is
  well formed, it has the same leaves, and only pages that are tables of this tree changed.
\<close>

definition tables :: "(u64 \<Rightarrow> u64) \<Rightarrow> u64 \<Rightarrow> u64 set" where
  "tables m r = {t. \<exists>ps. user_path ps \<and> tab m r ps = Some t}"

definition ensure_table :: "u64 \<Rightarrow> ('d, 'a) mm_state_scheme \<Rightarrow> ('d, 'a) mm_state_scheme" where
  "ensure_table a s = (if mem s a = 0 then alloc_table a s else s)"

lemma ensure_table_spec:
  assumes rep: "pages_rep s A (Suc n)" and wf: "pt_wf (mem s) A r"
    and t: "tab (mem s) r ps = Some t" and ok: "user_path (i # ps)"
  defines "s' \<equiv> ensure_table (entry t i) s"
  shows "\<exists>A'. A \<subseteq> A' \<and> pages_rep s' A' n \<and> pt_wf (mem s') A' r \<and>
    tab (mem s') r ps = Some t \<and> mem s' (entry t i) \<noteq> 0 \<and>
    tab (mem s') r (i # ps) = Some (table_of (mem s' (entry t i))) \<and>
    tables (mem s') r \<inter> A \<subseteq> tables (mem s) r \<and>
    (\<forall>p\<in>A - tables (mem s) r. \<forall>a. page_no a = page_no p \<longrightarrow> mem s' a = mem s a) \<and>
    (\<forall>i j k. i < 256 \<longrightarrow> j < 512 \<longrightarrow> k < 512 \<longrightarrow> leaf (mem s') r i j k = leaf (mem s) r i j k)"
proof (cases "mem s (entry t i) = 0")
  case False
  then have "s' = s" by (simp add: s'_def ensure_table_def)
  then show ?thesis using rep wf t False pages_rep_mono [of s A "Suc n" n]
    by (intro exI [of _ A]) (simp add: tab.simps)
next
  case True
  then have s': "s' = alloc_table (entry t i) s" by (simp add: s'_def ensure_table_def)
  have al: "\<And>x. x \<in> A \<Longrightarrow> page_aligned x" using pages_repD [OF rep] by simp
  have tA: "t \<in> A" using wf t user_path_Cons [OF ok] by (auto simp: pt_wf_def)
  have i: "i < 512" using ok by (simp add: user_path_def)
  obtain p where p: "p \<notin> A" "page_aligned p" "pages_rep s' (insert p A) n"
    and e: "mem s' (entry t i) \<noteq> 0" "table_of (mem s' (entry t i)) = p"
    and z: "\<And>a. page_no a = page_no p \<Longrightarrow> mem s' a = 0" and ag: "agrees A {entry t i} (mem s) (mem s')"
    using alloc_table_spec [OF rep tA i] unfolding s' by blast
  have eq: "tab (mem s') r qs = (if qs = i # ps then Some p else tab (mem s) r qs)" if "user_path qs" for qs
    using tab_add [OF wf al p(2,1) t ok True e z ag that] .
  have leafs: "leaf (mem s') r i' j' k' = leaf (mem s) r i' j' k'" if "i' < 256" "j' < 512" "k' < 512" for i' j' k'
  proof (cases "[j', i'] = i # ps")
    case True
    have "tab (mem s') r [j', i'] = Some p" using eq [OF ok] True by simp
    moreover have "tab (mem s) r [j', i'] = None"
      using t \<open>mem s (entry t i) = 0\<close> unfolding True by (simp add: tab.simps)
    moreover have "mem s' (entry p k') = 0" using z page_no_entry [OF p(2)] that by blast
    ultimately show ?thesis by (simp add: leaf_def)
  next
    case False
    then have T: "tab (mem s') r [j', i'] = tab (mem s) r [j', i']" using eq [of "[j', i']"] that by auto
    show ?thesis
    proof (cases "tab (mem s) r [j', i']")
      case None
      then show ?thesis using T by (simp add: leaf_def)
    next
      case (Some u)
      have uA: "u \<in> A" using wf Some that by (meson pt_wf_def user_path_simps(3))
      have "u \<noteq> t"
      proof
        assume "u = t"
        then have "[j', i'] = ps" using wf Some t that user_path_Cons [OF ok]
          by (meson pt_wf_def user_path_simps(3))
        then show False using ok by (auto simp: user_path_def)
      qed
      then have "entry u k' \<noteq> entry t i" using entry_eq_iff [OF al [OF uA] al [OF tA] _ i] that by blast
      then show ?thesis using T Some ag uA page_no_entry [OF al [OF uA] that(3)]
        by (simp add: leaf_def agrees_def)
    qed
  qed
  have tt: "t \<in> tables (mem s) r" using t user_path_Cons [OF ok] by (auto simp: tables_def)
  have "mem s' a = mem s a" if "q \<in> A - tables (mem s) r" "page_no a = page_no q" for q a
  proof -
    have "a \<noteq> entry t i" using that tt al page_no_entry [OF al [OF tA] i] page_no_inj tA by (metis DiffE)
    then show ?thesis using ag that by (auto simp: agrees_def)
  qed
  moreover have "tables (mem s') r \<inter> A \<subseteq> tables (mem s) r"
    using eq p(1) by (fastforce simp: tables_def split: if_splits)
  moreover have "pt_wf (mem s') (insert p A) r" using pt_wf_add [OF wf p(1) eq] .
  moreover have "tab (mem s') r ps = Some t" using eq [OF user_path_Cons [OF ok]] t by auto
  moreover have "tab (mem s') r (i # ps) = Some p" using eq [OF ok] by simp
  ultimately show ?thesis using p e leafs by (intro exI [of _ "insert p A"]) blast
qed

section \<open>Mapping and lookup\<close>

lemma vpn_bounds: "vpn1_of u < 512" "vpn0_of u < 512"
proof -
  have "unat (x AND mask 9) < 512" for x :: u64
  proof -
    have "unat (take_bit 9 x) = take_bit 9 (unat x)" by (rule unsigned_take_bit_eq)
    also have "\<dots> < 2 ^ 9" by (rule take_bit_nat_less_exp)
    finally show ?thesis by (simp add: take_bit_eq_mask)
  qed
  then show "vpn1_of u < 512" "vpn0_of u < 512" by (simp_all add: vpn1_of_def vpn0_of_def)
qed

text \<open>The mapping of an address is read off the leaf of its three indices.\<close>

definition leaf_of :: "(u64 \<Rightarrow> u64) \<Rightarrow> u64 \<Rightarrow> u64 \<Rightarrow> u64" where
  "leaf_of m r u = leaf m r (vpn2_of u) (vpn1_of u) (vpn0_of u)"

lemma get_kva_leaf:
  assumes rep: "pages_rep s A n" and wf: "pt_wf (mem s) A r" and u: "vpn2_of u < 256"
  shows "get_kva_of_uva u r s = (if leaf_of (mem s) r u = 0 then 0
           else pa2kva (get_pa (leaf_of (mem s) r u) OR (u AND mask 12)))"
proof (cases "tab (mem s) r [vpn1_of u, vpn2_of u]")
  case None
  then show ?thesis
    by (auto simp: get_kva_of_uva_def get_pte_of_uva_def leaf_of_def leaf_def Let_def tab.simps
        split: if_splits)
next
  case (Some t)
  have "t \<in> A" using wf Some u vpn_bounds by (meson pt_wf_def user_path_simps(3))
  then have tp: "page_aligned t" "t \<noteq> 0" using pages_repD [OF rep] by auto
  have "page_no t \<noteq> page_no 0" using tp page_no_inj [of t 0] by (auto simp: page_aligned_def)
  then have "entry t (vpn0_of u) \<noteq> 0" using page_no_entry [OF tp(1) vpn_bounds(2)] by metis
  moreover have "get_pte_of_uva u r s =
      (if mem s (entry t (vpn0_of u)) = 0 then 0 else entry t (vpn0_of u))"
    using Some by (auto simp: get_pte_of_uva_def Let_def tab.simps split: if_splits)
  ultimately show ?thesis using Some by (simp add: get_kva_of_uva_def leaf_of_def leaf_def Let_def)
qed

lemma map_uva_to_kva_leaf:
  fixes kva :: u64
  assumes rep: "pages_rep s A (Suc (Suc n))" and wf: "pt_wf (mem s) A r" and u: "vpn2_of u < 256"
  defines "s' \<equiv> map_uva_to_kva u kva r s"
    and "e \<equiv> set_attribute (set_pfn (drop_bit 12 (kva2pa kva))) user_attr"
  shows "\<exists>A'. A \<subseteq> A' \<and> pages_rep s' A' n \<and> pt_wf (mem s') A' r \<and> tables (mem s') r \<inter> A \<subseteq> tables (mem s) r \<and>
    (\<forall>p\<in>A - tables (mem s) r. \<forall>a. page_no a = page_no p \<longrightarrow> mem s' a = mem s a) \<and>
    (\<forall>i j k. i < 256 \<longrightarrow> j < 512 \<longrightarrow> k < 512 \<longrightarrow>
       leaf (mem s') r i j k = (if (i, j, k) = (vpn2_of u, vpn1_of u, vpn0_of u) then e
                                else leaf (mem s) r i j k))"
proof -
  define s1 where "s1 = ensure_table (entry r (vpn2_of u)) s"
  define t2 where "t2 = table_of (mem s1 (entry r (vpn2_of u)))"
  define s2 where "s2 = ensure_table (entry t2 (vpn1_of u)) s1"
  define t1 where "t1 = table_of (mem s2 (entry t2 (vpn1_of u)))"
  obtain A1 where 1: "A \<subseteq> A1" "pages_rep s1 A1 (Suc n)" "pt_wf (mem s1) A1 r"
      "tab (mem s1) r [vpn2_of u] = Some t2" "tables (mem s1) r \<inter> A \<subseteq> tables (mem s) r"
      "\<forall>p\<in>A - tables (mem s) r. \<forall>a. page_no a = page_no p \<longrightarrow> mem s1 a = mem s a"
      "\<forall>i j k. i < 256 \<longrightarrow> j < 512 \<longrightarrow> k < 512 \<longrightarrow> leaf (mem s1) r i j k = leaf (mem s) r i j k"
    using ensure_table_spec [OF rep wf, of "[]" r "vpn2_of u"] u by (auto simp: s1_def t2_def)
  have ok: "user_path [vpn1_of u, vpn2_of u]" using u vpn_bounds by simp
  obtain A2 where 2: "A1 \<subseteq> A2" "pages_rep s2 A2 n" "pt_wf (mem s2) A2 r"
      "tab (mem s2) r [vpn1_of u, vpn2_of u] = Some t1" "tables (mem s2) r \<inter> A1 \<subseteq> tables (mem s1) r"
      "\<forall>p\<in>A1 - tables (mem s1) r. \<forall>a. page_no a = page_no p \<longrightarrow> mem s2 a = mem s1 a"
      "\<forall>i j k. i < 256 \<longrightarrow> j < 512 \<longrightarrow> k < 512 \<longrightarrow> leaf (mem s2) r i j k = leaf (mem s1) r i j k"
    using ensure_table_spec [OF 1(2,3,4) ok] by (auto simp: s2_def t1_def)
  have s': "s' = store (entry t1 (vpn0_of u)) e s2"
    by (simp add: s'_def map_uva_to_kva_def Let_def s2_def s1_def t1_def t2_def ensure_table_def e_def store_def)
  have al: "\<And>x. x \<in> A2 \<Longrightarrow> page_aligned x" using pages_repD [OF 2(2)] by simp
  have t1A: "t1 \<in> A2" using 2(3,4) ok unfolding pt_wf_def by blast
  have pn: "page_no (entry t1 (vpn0_of u)) = page_no t1" using page_no_entry [OF al [OF t1A] vpn_bounds(2)] .
  have m': "mem s' = (mem s2)(entry t1 (vpn0_of u) := e)" by (simp add: s' store_def)
  have T: "tab (mem s') r qs = tab (mem s2) r qs" if "user_path qs" for qs
    unfolding m' using tab_store_leaf [OF 2(3) al 2(4) vpn_bounds(1) u vpn_bounds(2) that] by simp
  have "pages_rep s' A2 n" unfolding s' using 2(2) t1A pn by (rule pages_rep_store)
  moreover have "pt_wf (mem s') A2 r" using 2(3) T by (simp add: pt_wf_def)
  moreover have "tables (mem s') r \<inter> A \<subseteq> tables (mem s) r"
  proof -
    have "tables (mem s') r = tables (mem s2) r" using T by (auto simp: tables_def)
    then show ?thesis using 1(1,5) 2(5) by blast
  qed
  moreover have "mem s' a = mem s a" if "p \<in> A - tables (mem s) r" "page_no a = page_no p" for p a
  proof -
    have pA: "p \<in> A1 - tables (mem s1) r" using that 1(1,5) by auto
    then have npt: "p \<notin> tables (mem s2) r" using 2(5) by auto
    have "t1 \<in> tables (mem s2) r" using 2(4) ok unfolding tables_def by blast
    then have "a \<noteq> entry t1 (vpn0_of u)"
      using npt that pn page_no_inj al t1A 1(1) 2(1) by (metis DiffD1 subsetD)
    then show ?thesis using 1(6) 2(6) that pA by (simp add: m')
  qed
  moreover have "leaf (mem s') r i j k = (if (i, j, k) = (vpn2_of u, vpn1_of u, vpn0_of u) then e
                                else leaf (mem s) r i j k)" if "i < 256" "j < 512" "k < 512" for i j k
  proof -
    have "leaf (mem s2) r i j k = leaf (mem s) r i j k" using 1(7) 2(7) that by metis
    then show ?thesis
      using leaf_store_leaf [OF 2(3) al 2(4) vpn_bounds(1) u
          vpn_bounds(2) [of u] that(2,1,3), where v = e]
      unfolding m' by simp
  qed
  ultimately show ?thesis using 1(1) 2(1) by (intro exI [of _ A2]) blast
qed

lemma aligned_or_offset:
  assumes "pa AND mask 12 = (0::u64)" shows "pa OR (u AND mask 12) = pa + (u AND mask 12)"
proof -
  have "pa AND (u AND mask 12) = (pa AND mask 12) AND u" by (simp add: ac_simps)
  then have "pa AND (u AND mask 12) = 0" using assms by simp
  then show ?thesis by (simp add: disjunctive_add_eq_or)
qed

lemma map_uva_to_kva_spec:
  fixes kva :: u64
  assumes rep: "pages_rep s A (Suc (Suc n))" and wf: "pt_wf (mem s) A pgdir"
    and u: "vpn2_of uva < 256" and kva: "page_aligned kva" "FREEMEM_KERNEL \<le> kva"
  shows "\<exists>A'. A \<subseteq> A' \<and> pages_rep (map_uva_to_kva uva kva pgdir s) A' n \<and>
    pt_wf (mem (map_uva_to_kva uva kva pgdir s)) A' pgdir \<and>
    (\<forall>p\<in>A - tables (mem s) pgdir. \<forall>a. page_no a = page_no p \<longrightarrow>
       mem (map_uva_to_kva uva kva pgdir s) a = mem s a) \<and>
    (\<forall>v. vpn2_of v < 256 \<longrightarrow>
       get_kva_of_uva v pgdir (map_uva_to_kva uva kva pgdir s) =
         (if (vpn2_of v, vpn1_of v, vpn0_of v) = (vpn2_of uva, vpn1_of uva, vpn0_of uva)
          then kva + (v AND mask 12) else get_kva_of_uva v pgdir s))"
proof -
  define s' where "s' = map_uva_to_kva uva kva pgdir s"
  define e where "e = set_attribute (set_pfn (drop_bit 12 (kva2pa kva))) user_attr"
  obtain A' where A': "A \<subseteq> A'" "pages_rep s' A' n" "pt_wf (mem s') A' pgdir"
      "\<forall>p\<in>A - tables (mem s) pgdir. \<forall>a. page_no a = page_no p \<longrightarrow> mem s' a = mem s a"
    and l: "\<And>i j k. i < 256 \<Longrightarrow> j < 512 \<Longrightarrow> k < 512 \<Longrightarrow>
       leaf (mem s') pgdir i j k = (if (i, j, k) = (vpn2_of uva, vpn1_of uva, vpn0_of uva) then e
                                else leaf (mem s) pgdir i j k)"
    using map_uva_to_kva_leaf [OF rep wf u, of kva] by (auto simp: s'_def e_def)
  have e: "e \<noteq> 0" "get_pa e = kva2pa kva"
    using table_entry [OF kva attr_bits(3,4)] by (simp_all add: e_def)
  have "get_kva_of_uva v pgdir s' =
         (if (vpn2_of v, vpn1_of v, vpn0_of v) = (vpn2_of uva, vpn1_of uva, vpn0_of uva)
          then kva + (v AND mask 12) else get_kva_of_uva v pgdir s)" if v: "vpn2_of v < 256" for v
  proof -
    have "pa2kva (get_pa e OR (v AND mask 12)) = kva + (v AND mask 12)"
      using aligned_or_offset [OF kernel_pa(1) [OF kva]] e by (simp add: pa2kva_def kva2pa_def)
    moreover have "leaf_of (mem s') pgdir v =
        (if (vpn2_of v, vpn1_of v, vpn0_of v) = (vpn2_of uva, vpn1_of uva, vpn0_of uva) then e
         else leaf_of (mem s) pgdir v)"
      unfolding leaf_of_def by (rule l [OF v vpn_bounds(1,2)])
    ultimately show ?thesis
      using e by (simp add: get_kva_leaf [OF A'(2,3) v] get_kva_leaf [OF rep wf v])
  qed
  then show ?thesis using A' unfolding s'_def by blast
qed

lemma pt_wf_empty:
  assumes "page_aligned r" "\<And>a. page_no a = page_no r \<Longrightarrow> m a = 0"
  shows "pt_wf m {r} r"
proof -
  have "tab m r ps = (if ps = [] then Some r else None)" if "user_path ps" for ps
    using that
  proof (induction ps)
    case Nil
    then show ?case by simp
  next
    case (Cons i ps)
    then show ?case using user_path_Cons [OF Cons.prems] assms(2) page_no_entry [OF assms(1), of i]
      by (auto simp: tab.simps user_path_def)
  qed
  then show ?thesis by (auto simp: pt_wf_def split: if_splits)
qed

section \<open>Properties\<close>

text \<open>
  C8: after \<^verbatim>\<open>map_uva_to_kva(uva, kva, pgdir)\<close> on a well-formed user page table, looking up any
  user address gives \<open>kva\<close> plus the page offset when it lies in the page just mapped, and what it
  gave before otherwise; the table stays well formed, and no page in use other than the tables
  themselves is written.
\<close>
theorem map_uva_to_kva_correct:
  fixes kva :: u64
  assumes rep: "pages_rep s A (Suc (Suc n))" and wf: "pt_wf (mem s) A pgdir"
    and u: "vpn2_of uva < 256" and kva: "page_aligned kva" "FREEMEM_KERNEL \<le> kva"
  shows "\<exists>A'. A \<subseteq> A' \<and> pages_rep (map_uva_to_kva uva kva pgdir s) A' n \<and>
    pt_wf (mem (map_uva_to_kva uva kva pgdir s)) A' pgdir \<and>
    (\<forall>p\<in>A - tables (mem s) pgdir. \<forall>a. page_no a = page_no p \<longrightarrow>
       mem (map_uva_to_kva uva kva pgdir s) a = mem s a) \<and>
    (\<forall>v. vpn2_of v < 256 \<longrightarrow>
       get_kva_of_uva v pgdir (map_uva_to_kva uva kva pgdir s) =
         (if (vpn2_of v, vpn1_of v, vpn0_of v) = (vpn2_of uva, vpn1_of uva, vpn0_of uva)
          then kva + (v AND mask 12) else get_kva_of_uva v pgdir s))"
  using map_uva_to_kva_spec [OF assms] .

theorem map_uva_to_kva_correct_witness:
  "\<exists>r s A'. {r} \<subseteq> A' \<and>
    pages_rep (map_uva_to_kva 0x10000 0xffffffc053000000 r (s :: unit mm_state)) A' 7 \<and>
    pt_wf (mem (map_uva_to_kva 0x10000 0xffffffc053000000 r s)) A' r \<and>
    (\<forall>p\<in>{r} - tables (mem s) r. \<forall>a. page_no a = page_no p \<longrightarrow>
       mem (map_uva_to_kva 0x10000 0xffffffc053000000 r s) a = mem s a) \<and>
    (\<forall>v. vpn2_of v < 256 \<longrightarrow>
       get_kva_of_uva v r (map_uva_to_kva 0x10000 0xffffffc053000000 r s) =
         (if (vpn2_of v, vpn1_of v, vpn0_of v) = (vpn2_of 0x10000, vpn1_of 0x10000, vpn0_of 0x10000)
          then 0xffffffc053000000 + (v AND mask 12) else get_kva_of_uva v r s))"
proof -
  obtain r s where k: "kalloc (init_kernel_freemem (mm_boot ())) = (r, s)" by fastforce
  have i: "pages_rep (init_kernel_freemem (mm_boot ())) {} (Suc 9)" by (rule init_pages_rep) simp
  note c = kalloc_correct [OF i k]
  have rep: "pages_rep s {r} (Suc (Suc 7))" using c by (simp add: eval_nat_numeral)
  have wf: "pt_wf (mem s) {r} r" using c by (intro pt_wf_empty) auto
  have u: "vpn2_of 0x10000 < 256" by (simp add: vpn2_of_def VA_MASK_def mask_eq_exp_minus_1)
  have a: "page_aligned 0xffffffc053000000" "FREEMEM_KERNEL \<le> 0xffffffc053000000"
    by (simp_all add: page_aligned_def FREEMEM_KERNEL_def)
  show ?thesis using map_uva_to_kva_correct [OF rep wf u a] by blast
qed

end
