(* ===== verification/MM_Pages.thy ===== *)
theory MM_Pages
  imports MM_Table "HOL-Library.Multiset"
begin

text \<open>
  User pages: the \<^verbatim>\<open>pages[]\<close> table and the present and swapped queues of
  \<open>src/kernel/mm/mm.c\<close>. The page operations are clients of the queue interface of \<open>Klist\<close>.
\<close>

section \<open>Frame lemmas\<close>

text \<open>Kernel allocation and mapping only touch memory and the free list.\<close>

lemma store_frame [simp]:
  "freemem_list (store a v s) = freemem_list s" "lnk (store a v s) = lnk s"
  "pages (store a v s) = pages s" "page_id (store a v s) = page_id s"
  "present_pages_num (store a v s) = present_pages_num s"
  "disk_sectors_startid (store a v s) = disk_sectors_startid s"
  "share_pages (store a v s) = share_pages s" "sd (store a v s) = sd s"
  "mm_state.more (store a v s) = mm_state.more s"
  by (simp_all add: store_def)

lemma zero_page_frame [simp]:
  "lnk (zero_page p s) = lnk s" "pages (zero_page p s) = pages s" "page_id (zero_page p s) = page_id s"
  "present_pages_num (zero_page p s) = present_pages_num s"
  "disk_sectors_startid (zero_page p s) = disk_sectors_startid s"
  "share_pages (zero_page p s) = share_pages s" "sd (zero_page p s) = sd s"
  "mm_state.more (zero_page p s) = mm_state.more s"
  by (simp_all add: zero_page_def)

text \<open>\<open>same_rest s s'\<close>: the two states differ at most in memory and in the free list.\<close>

definition same_rest :: "('d, 'a) mm_state_scheme \<Rightarrow> ('d, 'a) mm_state_scheme \<Rightarrow> bool" where
  "same_rest s s' \<longleftrightarrow> lnk s' = lnk s \<and> pages s' = pages s \<and> page_id s' = page_id s \<and>
     present_pages_num s' = present_pages_num s \<and> disk_sectors_startid s' = disk_sectors_startid s \<and>
     share_pages s' = share_pages s \<and> sd s' = sd s \<and> mm_state.more s' = mm_state.more s"

lemma same_rest_refl [simp]: "same_rest s s"
  by (simp add: same_rest_def)

lemma same_rest_trans: "same_rest s t \<Longrightarrow> same_rest t u \<Longrightarrow> same_rest s u"
  by (simp add: same_rest_def)

lemma same_rest_store [simp]: "same_rest s (store a v t) = same_rest s t"
  by (simp add: same_rest_def)

lemma same_rest_kalloc: "same_rest s (snd (kalloc s))"
  by (simp add: kalloc_def Let_def same_rest_def)

lemma same_rest_fold:
  "(\<And>x t. same_rest t (f x t)) \<Longrightarrow> same_rest s (fold f xs s)"
proof (induction xs arbitrary: s)
  case Nil
  then show ?case by simp
next
  case (Cons x xs)
  have "same_rest s (f x s)" "same_rest (f x s) (fold f xs (f x s))" using Cons by blast+
  then show ?case using same_rest_trans by force
qed

lemma same_rest_clear_pgdir: "same_rest s (clear_pgdir p s)"
  unfolding clear_pgdir_def by (rule same_rest_fold) simp

lemma same_rest_fill_page: "same_rest s (fill_page p bs s)"
  unfolding fill_page_def by (rule same_rest_fold) simp

lemma same_rest_alloc_table: "same_rest s (alloc_table a s)"
proof -
  obtain p s1 where k: "kalloc s = (p, s1)" by fastforce
  have "same_rest s s1" using same_rest_kalloc [of s] k by simp
  then have "same_rest s (store a x (store a y s1))" for x y by simp
  then show ?thesis using same_rest_trans same_rest_clear_pgdir
    by (fastforce simp: alloc_table_def k Let_def)
qed

lemma same_rest_map: "same_rest s (map_uva_to_kva uva kva pgdir s)"
proof -
  have t: "same_rest s (if c then alloc_table a s else s)" for s :: "('a, 'b) mm_state_scheme" and a c
    by (simp add: same_rest_alloc_table)
  show ?thesis unfolding map_uva_to_kva_def Let_def same_rest_store by (rule same_rest_trans [OF t t])
qed

text \<open>Allocating one more page keeps a page table well formed.\<close>

lemma tab_frame:
  assumes "pt_wf m A r" "\<And>x. x \<in> A \<Longrightarrow> page_aligned x" "agrees A {} m m'" "user_path ps"
  shows "tab m' r ps = tab m r ps"
  using assms(4)
proof (induction ps)
  case Nil
  then show ?case by simp
next
  case (Cons i ps)
  have ok: "user_path ps" by (rule user_path_Cons [OF Cons.prems])
  show ?case
  proof (cases "tab m r ps")
    case None
    then show ?thesis using Cons.IH [OF ok] by (simp add: tab.simps)
  next
    case (Some t)
    then have "t \<in> A" using assms(1) ok by (auto simp: pt_wf_def)
    moreover have "i < 512" using Cons.prems by (simp add: user_path_def)
    ultimately have "m' (entry t i) = m (entry t i)"
      using assms(2,3) page_no_entry [of t i] by (auto simp: agrees_def)
    then show ?thesis using Cons.IH [OF ok] Some by (simp add: tab.simps)
  qed
qed

lemma tables_frame:
  assumes "pt_wf m A r" "\<And>x. x \<in> A \<Longrightarrow> page_aligned x" "agrees A {} m m'"
  shows "tables m' r = tables m r"
  using tab_frame [OF assms] by (auto simp: tables_def)

lemma leaf_frame:
  assumes "pt_wf m A r" "\<And>x. x \<in> A \<Longrightarrow> page_aligned x" "agrees A {} m m'" "i < 256" "j < 512" "k < 512"
  shows "leaf m' r i j k = leaf m r i j k"
proof -
  have ok: "user_path [j, i]" using assms(4,5) by simp
  have "m' (entry t k) = m (entry t k)" if "tab m r [j, i] = Some t" for t
  proof -
    have "t \<in> A" using assms(1) that ok unfolding pt_wf_def by blast
    then show ?thesis using assms(2,3,6) page_no_entry [of t k] by (auto simp: agrees_def)
  qed
  then show ?thesis using tab_frame [OF assms(1-3) ok] by (simp add: leaf_def split: option.splits)
qed

lemma tables_subset: "pt_wf m A r \<Longrightarrow> tables m r \<subseteq> A"
  by (auto simp: pt_wf_def tables_def)

lemma pt_wf_frame:
  assumes "pt_wf m A r" "\<And>x. x \<in> A \<Longrightarrow> page_aligned x" "agrees A {} m m'" "A \<subseteq> A'"
  shows "pt_wf m' A' r"
  using assms(1,4) tab_frame [OF assms(1-3)] unfolding pt_wf_def by (metis subsetD)

lemma pt_wf_fresh:
  assumes "pages_rep s A (Suc n)" "kalloc s = (p, s')" "pt_wf (mem s) A r"
  shows "pt_wf (mem s') (insert p A) r"
  using assms(3)
proof (rule pt_wf_frame)
  show "page_aligned x" if "x \<in> A" for x using pages_repD [OF assms(1) that] by simp
  show "agrees A {} (mem s) (mem s')" using kalloc_correct [OF assms(1,2)] by (simp add: agrees_def)
qed auto

lemma get_kva_of_uva_mem: "mem s' = mem s \<Longrightarrow> get_kva_of_uva uva pgdir s' = get_kva_of_uva uva pgdir s"
  by (simp add: get_kva_of_uva_def get_pte_of_uva_def Let_def)

section \<open>The page queues\<close>

text \<open>
  \<open>page_inv H Q P W s\<close>: among the queues \<open>Q\<close> with heads \<open>H\<close>, the present queue holds the pages \<open>P\<close>
  and the swapped queue the pages \<open>W\<close> (indices into \<^verbatim>\<open>pages[]\<close>); a slot of \<^verbatim>\<open>pages[]\<close> is in use
  exactly when it is in one of the two; \<^verbatim>\<open>present_pages_num\<close> counts the present ones.
\<close>

definition page_inv :: "node set \<Rightarrow> (node \<Rightarrow> node list) \<Rightarrow> nat list \<Rightarrow> nat list \<Rightarrow>
    ('d, 'a) mm_state_scheme \<Rightarrow> bool" where
  "page_inv H Q P W s \<longleftrightarrow>
     queues H (lnk s) Q \<and> Present_pages_queue \<in> H \<and> Swapped_pages_queue \<in> H \<and>
     Q Present_pages_queue = map Page_list P \<and> Q Swapped_pages_queue = map Page_list W \<and>
     (\<forall>i. Page_list i \<notin> H) \<and> (\<forall>h\<in>H. \<forall>i. Page_list i \<in> set (Q h) \<longrightarrow> h \<in> {Present_pages_queue, Swapped_pages_queue}) \<and>
     length (pages s) = MAX_PFN \<and> distinct (P @ W) \<and> 0 \<le> page_id s \<and>
     (\<forall>i. i < MAX_PFN \<and> pg_id (pages s ! i) \<noteq> 0 \<longleftrightarrow> i \<in> set P \<union> set W) \<and>
     present_pages_num s = int (length P)"

lemma page_invD:
  assumes "page_inv H Q P W s"
  shows "i \<in> set P \<union> set W \<Longrightarrow> i < length (pages s)"
    "is_queue (lnk s) Present_pages_queue (map Page_list P)"
    "is_queue (lnk s) Swapped_pages_queue (map Page_list W)"
  using assms by (auto simp: page_inv_def queues_def)

lemma page_inv_count:
  assumes "page_inv H Q P W s" shows "length P + length W \<le> MAX_PFN"
proof -
  have "distinct (P @ W)" using assms by (simp add: page_inv_def)
  then have "card (set (P @ W)) = length (P @ W)" by (rule distinct_card)
  moreover have "set (P @ W) \<subseteq> {..<MAX_PFN}" using assms by (auto simp: page_inv_def)
  then have "card (set (P @ W)) \<le> card {..<MAX_PFN}" by (intro card_mono) auto
  ultimately show ?thesis by simp
qed

lemma page_invI:
  assumes "queues H (lnk s) Q" "Present_pages_queue \<in> H" "Swapped_pages_queue \<in> H"
    and "Q Present_pages_queue = map Page_list P" "Q Swapped_pages_queue = map Page_list W"
    and "\<And>i. Page_list i \<notin> H"
    and "\<And>h i. h \<in> H \<Longrightarrow> Page_list i \<in> set (Q h) \<Longrightarrow> h \<in> {Present_pages_queue, Swapped_pages_queue}"
    and "length (pages s) = MAX_PFN" "distinct (P @ W)" "0 \<le> page_id s"
    and "\<And>i. i < MAX_PFN \<and> pg_id (pages s ! i) \<noteq> 0 \<longleftrightarrow> i \<in> set P \<union> set W"
    and "present_pages_num s = int (length P)"
  shows "page_inv H Q P W s"
  using assms unfolding page_inv_def by blast

text \<open>The search loops return, with the first page of the queue that passes the test.\<close>

lemma find_page_loop_suffix:
  assumes "is_queue (lnk s) h (as @ map Page_list is)" "\<And>i. Page_list i \<noteq> h"
  shows "find_page_loop P h (nxt (lnk s) (last (h # as))) s = Some (List.find (\<lambda>i. P (pages s ! i)) is)"
  using assms(1)
proof (induction "is" arbitrary: as)
  case Nil
  then have "nxt (lnk s) (last (h # as)) = h"
    using is_queue_last(1) [of "lnk s" h as "butlast (h # as)" "last (h # as)"] by simp
  then show ?case by (subst find_page_loop.simps) simp
next
  case (Cons i "is")
  obtain ys p where s: "h # as = ys @ [p]" by (metis rev_exhaust list.distinct(1))
  obtain x zs where t: "map Page_list is @ [h] = x # zs" by (cases "is") auto
  have "nxt (lnk s) (last (h # as)) = Page_list i"
    using Cons.prems is_queue_mid [OF s t, of "lnk s" "Page_list i"] s by simp
  moreover have "find_page_loop P h (nxt (lnk s) (last (h # as @ [Page_list i]))) s
      = Some (List.find (\<lambda>i. P (pages s ! i)) is)"
    using Cons.IH [of "as @ [Page_list i]"] Cons.prems by simp
  ultimately show ?case using assms(2) [of i] by (subst find_page_loop.simps) simp
qed

lemma find_page_loop_queue:
  assumes "is_queue (lnk s) h (map Page_list is)" "\<And>i. Page_list i \<noteq> h"
  shows "find_page_loop P h (nxt (lnk s) h) s = Some (List.find (\<lambda>i. P (pages s ! i)) is)"
  using find_page_loop_suffix [of s h "[]" "is" P] assms by simp

lemma find_page_with_kva_eq:
  assumes "page_inv H Q P W s"
  shows "find_page_with_kva kva Present_pages_queue s = Some (List.find (\<lambda>i. pg_kva (pages s ! i) = kva) P)"
    "find_page_with_kva kva Swapped_pages_queue s = Some (List.find (\<lambda>i. pg_kva (pages s ! i) = kva) W)"
  using page_invD(2,3) [OF assms] by (simp_all add: find_page_with_kva_def find_page_loop_queue)

lemma find_page_with_uva_eq:
  assumes "page_inv H Q P W s"
  shows "find_page_with_uva uva pgdir Present_pages_queue s =
      Some (List.find (\<lambda>i. pg_uva (pages s ! i) = uva \<and> pg_pgdir (pages s ! i) = pgdir) P)"
    "find_page_with_uva uva pgdir Swapped_pages_queue s =
      Some (List.find (\<lambda>i. pg_uva (pages s ! i) = uva \<and> pg_pgdir (pages s ! i) = pgdir) W)"
  using page_invD(2,3) [OF assms] by (simp_all add: find_page_with_uva_def find_page_loop_queue)

section \<open>Adding and dropping pages\<close>

lemma remove1_map_inj: "inj f \<Longrightarrow> remove1 (f x) (map f xs) = map f (remove1 x xs)"
  by (induction xs) (auto simp: inj_def)

lemma inj_Page_list: "inj Page_list"
  by (simp add: inj_def)

lemma add_new_pre_page_spec:
  assumes inv: "page_inv H Q P W s" and room: "length P + length W < MAX_PFN"
  shows "\<exists>i s'. add_new_pre_page uva kva pgdir s = Some s' \<and> i \<notin> set P \<union> set W \<and>
    page_inv H (enq (Page_list i) Present_pages_queue Q) (P @ [i]) W s' \<and>
    pg_uva (pages s' ! i) = uva \<and> pg_kva (pages s' ! i) = kva \<and> pg_pgdir (pages s' ! i) = pgdir \<and>
    mem s' = mem s \<and> freemem_list s' = freemem_list s"
proof -
  have len: "length (pages s) = MAX_PFN" and d: "distinct (P @ W)" using inv by (auto simp: page_inv_def)
  have "\<exists>i<MAX_PFN. i \<notin> set P \<union> set W"
  proof (rule ccontr)
    assume "\<not> ?thesis"
    then have "{..<MAX_PFN} \<subseteq> set (P @ W)" by auto
    then have "MAX_PFN \<le> card (set (P @ W))" using card_mono [of "set (P @ W)" "{..<MAX_PFN}"] by simp
    then show False using room d distinct_card [of "P @ W"] by simp
  qed
  then have "find_index (\<lambda>p. pg_id p = 0) (pages s) \<noteq> None"
    using inv len nth_mem by (fastforce simp: find_index_None_iff page_inv_def)
  then obtain i where i: "find_index (\<lambda>p. pg_id p = 0) (pages s) = Some i" by blast
  have ilen: "i < MAX_PFN" and iz: "pg_id (pages s ! i) = 0" using find_index_SomeD [OF i] len by auto
  then have iPW: "i \<notin> set P \<union> set W" using inv by (auto simp: page_inv_def)
  define s' where "s' = s\<lparr>pages := (pages s)[i := (pages s ! i)\<lparr>pg_uva := uva, pg_kva := kva,
      pg_id := page_id s + 1, pg_pgdir := pgdir\<rparr>], page_id := page_id s + 1,
    lnk := list_add_tail (Page_list i) Present_pages_queue (lnk s),
    present_pages_num := present_pages_num s + 1\<rparr>"
  have s': "add_new_pre_page uva kva pgdir s = Some s'" by (simp add: add_new_pre_page_def i s'_def Let_def)
  have "queues H (lnk s') (enq (Page_list i) Present_pages_queue Q)"
    using inv iPW unfolding s'_def page_inv_def by (auto intro!: klist.rep_add)
  then have "page_inv H (enq (Page_list i) Present_pages_queue Q) (P @ [i]) W s'"
  proof (rule page_invI)
    show "j < MAX_PFN \<and> pg_id (pages s' ! j) \<noteq> 0 \<longleftrightarrow> j \<in> set (P @ [i]) \<union> set W" for j
      using inv ilen iPW unfolding page_inv_def by (cases "j = i") (auto simp: s'_def)
    show "h \<in> {Present_pages_queue, Swapped_pages_queue}"
      if "h \<in> H" "Page_list j \<in> set (enq (Page_list i) Present_pages_queue Q h)" for h j
      using inv that unfolding page_inv_def by (auto simp: enq_def split: if_splits)
  qed (use inv iPW in \<open>auto simp: s'_def enq_def page_inv_def\<close>)
  then show ?thesis using s' iPW ilen len by (intro exI [of _ i] exI [of _ s']) (simp add: s'_def)
qed

text \<open>
  Dropping a page takes it out of its queue and frees its slot. The frame is not given back:
  \<^verbatim>\<open>page->kva\<close> has been reset to 0 when \<^verbatim>\<open>kfree\<close> looks at it.
\<close>

lemma drop_page_eq:
  assumes "i < length (pages s)"
  shows "drop_page i s = (reset_page_info i s)\<lparr>lnk := list_delete_entry (Page_list i) (lnk s)\<rparr>"
  using assms by (simp add: drop_page_def reset_page_info_def Let_def kfree_def FREEMEM_KERNEL_def)

lemma drop_page_present:
  assumes inv: "page_inv H Q P W s" and i: "i \<in> set P"
  shows "page_inv H (deq (Page_list i) Present_pages_queue Q) (remove1 i P) W
    ((drop_page i s)\<lparr>present_pages_num := present_pages_num (drop_page i s) - 1\<rparr>)"
proof -
  let ?d = "drop_page i s"
  have il: "i < length (pages s)" using page_invD(1) [OF inv] i by simp
  have q: "queues H (list_delete_entry (Page_list i) (lnk s)) (deq (Page_list i) Present_pages_queue Q)"
    using inv i by (intro klist.rep_remove) (auto simp: page_inv_def)
  have d: "distinct P" "i \<notin> set W" using inv i by (auto simp: page_inv_def)
  have l: "int (length P) - 1 = int (length (remove1 i P))"
    using length_pos_if_in_set [OF i] i unfolding length_remove1 by (simp del: length_greater_0_conv)
  show ?thesis
  proof (rule page_invI)
    show "j < MAX_PFN \<and> pg_id (pages (?d\<lparr>present_pages_num := present_pages_num ?d - 1\<rparr>) ! j) \<noteq> 0 \<longleftrightarrow>
        j \<in> set (remove1 i P) \<union> set W" for j
      using inv d il unfolding page_inv_def by (cases "j = i") (auto simp: drop_page_eq reset_page_info_def)
    show "h \<in> {Present_pages_queue, Swapped_pages_queue}"
      if "h \<in> H" "Page_list j \<in> set (deq (Page_list i) Present_pages_queue Q h)" for h j
      using inv that unfolding page_inv_def by (auto simp: deq_def split: if_splits)
    show "present_pages_num (?d\<lparr>present_pages_num := present_pages_num ?d - 1\<rparr>) = int (length (remove1 i P))"
      using inv l il by (simp add: drop_page_eq reset_page_info_def page_inv_def)
  qed (use inv q il d in \<open>auto simp: drop_page_eq reset_page_info_def deq_def page_inv_def
      remove1_map_inj [OF inj_Page_list] dest: notin_set_remove1\<close>)
qed

lemma drop_page_swapped:
  assumes inv: "page_inv H Q P W s" and i: "i \<in> set W"
  shows "page_inv H (deq (Page_list i) Swapped_pages_queue Q) P (remove1 i W) (drop_page i s)"
proof -
  have il: "i < length (pages s)" using page_invD(1) [OF inv] i by simp
  have q: "queues H (list_delete_entry (Page_list i) (lnk s)) (deq (Page_list i) Swapped_pages_queue Q)"
    using inv i by (intro klist.rep_remove) (auto simp: page_inv_def)
  have d: "distinct W" "i \<notin> set P" using inv i by (auto simp: page_inv_def)
  show ?thesis
  proof (rule page_invI)
    show "j < MAX_PFN \<and> pg_id (pages (drop_page i s) ! j) \<noteq> 0 \<longleftrightarrow> j \<in> set P \<union> set (remove1 i W)" for j
      using inv d il unfolding page_inv_def by (cases "j = i") (auto simp: drop_page_eq reset_page_info_def)
    show "h \<in> {Present_pages_queue, Swapped_pages_queue}"
      if "h \<in> H" "Page_list j \<in> set (deq (Page_list i) Swapped_pages_queue Q h)" for h j
      using inv that unfolding page_inv_def by (auto simp: deq_def split: if_splits)
  qed (use inv q il d in \<open>auto simp: drop_page_eq reset_page_info_def deq_def page_inv_def
      remove1_map_inj [OF inj_Page_list] dest: notin_set_remove1\<close>)
qed

lemma find_Some_mem: "List.find P xs = Some x \<Longrightarrow> x \<in> set xs \<and> P x"
  by (induction xs) (auto split: if_splits)

lemma swap_out_inv:
  assumes inv: "page_inv H Q P W s" and so: "swap_out B s = Some s'"
  shows "\<exists>i P'. P = i # P' \<and>
    page_inv H (enq (Page_list i) Swapped_pages_queue (deq (Page_list i) Present_pages_queue Q))
      P' (W @ [i]) s'"
proof -
  have pq: "is_queue (lnk s) Present_pages_queue (map Page_list P)" using page_invD(2) [OF inv] .
  have "P \<noteq> []"
  proof
    assume "P = []"
    then have "nxt (lnk s) Present_pages_queue = Present_pages_queue" using pq by (simp add: is_queue_def)
    then show False using so by (simp add: swap_out_def)
  qed
  then obtain i P' where P: "P = i # P'" by (cases P) auto
  have nx: "nxt (lnk s) Present_pages_queue = Page_list i" using pq P by (simp add: is_queue_first)
  define L where "L = list_add_tail (Page_list i) Swapped_pages_queue (list_delete_entry (Page_list i) (lnk s))"
  define Q' where "Q' = enq (Page_list i) Swapped_pages_queue (deq (Page_list i) Present_pages_queue Q)"
  have qL: "queues H L Q'"
    unfolding L_def Q'_def using inv P by (intro klist.rep_move) (auto simp: page_inv_def)
  have "lnk s' = L" "page_id s' = page_id s" "present_pages_num s' = present_pages_num s - 1"
    "pages s' = (pages s)[i := (pages s ! i)\<lparr>pg_sector := disk_sectors_startid s\<rparr>]"
    using so by (auto simp: swap_out_def nx Let_def L_def kfree_def split: if_splits)
  note s' = this
  have "page_inv H Q' P' (W @ [i]) s'"
  proof (rule page_invI)
    show "queues H (lnk s') Q'" using qL s' by simp
    show "j < MAX_PFN \<and> pg_id (pages s' ! j) \<noteq> 0 \<longleftrightarrow> j \<in> set P' \<union> set (W @ [i])" for j
    proof -
      have "pg_id (pages s' ! j) = pg_id (pages s ! j)"
        using page_invD(1) [OF inv, of i] P by (cases "j = i") (simp_all add: s')
      then show ?thesis using inv P unfolding page_inv_def by auto
    qed
    show "h \<in> {Present_pages_queue, Swapped_pages_queue}"
      if "h \<in> H" "Page_list j \<in> set (Q' h)" for h j
      using inv that notin_set_remove1 unfolding page_inv_def
      by (fastforce simp: Q'_def enq_def deq_def split: if_splits)
  qed (use inv P s' in \<open>auto simp: Q'_def enq_def deq_def page_inv_def\<close>)
  then show ?thesis using P by (auto simp: Q'_def)
qed

text \<open>Swapping a page back in moves it to the end of the present queue.\<close>

lemma same_rest_fields:
  assumes "same_rest s s'"
  shows "lnk s' = lnk s" "pages s' = pages s" "page_id s' = page_id s"
    "present_pages_num s' = present_pages_num s" "mm_state.more s' = mm_state.more s"
  using assms by (simp_all add: same_rest_def)

lemma swap_in_fields:
  assumes "i < length (pages s)"
  shows "lnk (swap_in B i s) = list_add_tail (Page_list i) Present_pages_queue (list_delete_entry (Page_list i) (lnk s))"
    "length (pages (swap_in B i s)) = length (pages s)"
    "pg_id (pages (swap_in B i s) ! j) = pg_id (pages s ! j)"
    "page_id (swap_in B i s) = page_id s"
    "present_pages_num (swap_in B i s) = present_pages_num s + 1"
    "mm_state.more (swap_in B i s) = mm_state.more s"
proof -
  define s1 where "s1 = s\<lparr>lnk := list_add_tail (Page_list i) Present_pages_queue (list_delete_entry (Page_list i) (lnk s))\<rparr>"
  obtain kva s2 where k: "kalloc s1 = (kva, s2)" by fastforce
  define s3 where "s3 = s2\<lparr>pages := (pages s2)[i := (pages s2 ! i)\<lparr>pg_kva := kva\<rparr>]\<rparr>"
  define g where "g = pages s3 ! i"
  define s4 where "s4 = map_uva_to_kva (pg_uva g) (pg_kva g) (pg_pgdir g) s3"
  define s5 where "s5 = fill_page (pg_kva g) (sd_read B (sd s4) SECTORS_PER_PAGE (of_int (pg_sector g))) s4"
  have sw: "swap_in B i s = s5\<lparr>pages := (pages s5)[i := g\<lparr>pg_sector := 0\<rparr>], present_pages_num := present_pages_num s5 + 1\<rparr>"
    unfolding swap_in_def Let_def s1_def [symmetric] k prod.case s3_def [symmetric] g_def [symmetric]
      s4_def [symmetric] s5_def [symmetric] ..
  have r2: "same_rest s1 s2" using same_rest_kalloc [of s1] k by simp
  have "same_rest s3 s4" "same_rest s4 s5" unfolding s4_def s5_def by (rule same_rest_map same_rest_fill_page)+
  then have r5: "same_rest s3 s5" by (rule same_rest_trans)
  note f = same_rest_fields [OF r2] same_rest_fields [OF r5]
  show "lnk (swap_in B i s) = list_add_tail (Page_list i) Present_pages_queue (list_delete_entry (Page_list i) (lnk s))"
    "length (pages (swap_in B i s)) = length (pages s)"
    "page_id (swap_in B i s) = page_id s"
    "present_pages_num (swap_in B i s) = present_pages_num s + 1"
    "mm_state.more (swap_in B i s) = mm_state.more s"
    by (simp_all add: sw f s3_def s1_def)
  show "pg_id (pages (swap_in B i s) ! j) = pg_id (pages s ! j)"
    using assms by (cases "j = i") (simp_all add: sw f g_def s3_def s1_def)
qed

lemma swap_in_inv:
  assumes inv: "page_inv H Q P W s" and i: "i \<in> set W"
  shows "page_inv H (enq (Page_list i) Present_pages_queue (deq (Page_list i) Swapped_pages_queue Q))
    (P @ [i]) (remove1 i W) (swap_in B i s)"
proof -
  have il: "i < length (pages s)" using page_invD(1) [OF inv] i by simp
  have q: "queues H (list_add_tail (Page_list i) Present_pages_queue (list_delete_entry (Page_list i) (lnk s)))
      (enq (Page_list i) Present_pages_queue (deq (Page_list i) Swapped_pages_queue Q))"
    using inv i by (intro klist.rep_move) (auto simp: page_inv_def)
  have d: "distinct W" "i \<notin> set P" using inv i by (auto simp: page_inv_def)
  show ?thesis
  proof (rule page_invI)
    show "j < MAX_PFN \<and> pg_id (pages (swap_in B i s) ! j) \<noteq> 0 \<longleftrightarrow> j \<in> set (P @ [i]) \<union> set (remove1 i W)" for j
      using inv d il i unfolding page_inv_def swap_in_fields(3) [OF il] by (cases "j = i") auto
    show "h \<in> {Present_pages_queue, Swapped_pages_queue}"
      if "h \<in> H" "Page_list j \<in> set (enq (Page_list i) Present_pages_queue (deq (Page_list i) Swapped_pages_queue Q) h)" for h j
      using inv that unfolding page_inv_def by (auto simp: enq_def deq_def split: if_splits)
  qed (use inv q il d in \<open>auto simp: swap_in_fields deq_def enq_def page_inv_def
      remove1_map_inj [OF inj_Page_list] dest: notin_set_remove1\<close>)
qed

lemma swap_in_all_pages_returns:
  fixes s :: "('d, 'a) mm_state_scheme"
  assumes inv: "page_inv H Q P W s"
  shows "\<exists>s' Q' P' W'. swap_in_all_pages B pgdir s = Some s' \<and> page_inv H Q' P' W' s' \<and>
    mset (P' @ W') = mset (P @ W) \<and> (\<forall>h. h \<notin> {Present_pages_queue, Swapped_pages_queue} \<longrightarrow> Q' h = Q h) \<and>
    mm_state.more s' = mm_state.more s"
proof -
  define I where "I xs t \<longleftrightarrow> (\<exists>Q' P' as js. xs = map Page_list js \<and> page_inv H Q' P' (as @ js) t \<and>
    mset (P' @ as @ js) = mset (P @ W) \<and> (\<forall>h. h \<notin> {Present_pages_queue, Swapped_pages_queue} \<longrightarrow> Q' h = Q h) \<and>
    mm_state.more t = mm_state.more s)" for xs and t :: "('d, 'a) mm_state_scheme"
  have "\<exists>s'. list_for_each_entry_safe lnk Swapped_pages_queue (swap_in_if B pgdir) s = Some s' \<and> I [] s'"
  proof (rule list_for_each_entry_safe_rule)
    show "I (map Page_list W) s" using inv unfolding I_def by (intro exI [of _ Q] exI [of _ P] exI [of _ "[]"] exI [of _ W]) simp
    show "is_queue (lnk s) Swapped_pages_queue (map Page_list W)" by (rule page_invD(3) [OF inv])
    show "\<exists>as. is_queue (lnk t) Swapped_pages_queue (as @ xs)" if "I xs t" for xs t
      using that page_invD(3) unfolding I_def by fastforce
    show "\<exists>t'. swap_in_if B pgdir x t = Some t' \<and> I xs t'" if I: "I (x # xs) t" for x xs t
    proof -
      obtain Q' P' as i js where x: "x = Page_list i" "xs = map Page_list js"
        and inv': "page_inv H Q' P' (as @ i # js) t" and m: "mset (P' @ as @ i # js) = mset (P @ W)"
        and fr: "\<forall>h. h \<notin> {Present_pages_queue, Swapped_pages_queue} \<longrightarrow> Q' h = Q h" "mm_state.more t = mm_state.more s"
        using I unfolding I_def by (auto simp: Cons_eq_map_conv)
      have d: "i \<notin> set as" and il: "i < length (pages t)"
        using inv' page_invD(1) [OF inv', of i] by (auto simp: page_inv_def)
      have same: "I xs t" unfolding I_def
        using inv' m fr x by (intro exI [of _ Q'] exI [of _ P'] exI [of _ "as @ [i]"] exI [of _ js]) simp
      have moved: "I xs (swap_in B i t)" unfolding I_def
        using swap_in_inv [OF inv', of i B] m fr x d swap_in_fields(6) [OF il, of B]
        by - (rule exI [of _ "enq (Page_list i) Present_pages_queue (deq (Page_list i) Swapped_pages_queue Q')"],
            rule exI [of _ "P' @ [i]"], rule exI [of _ as], rule exI [of _ js],
            simp add: remove1_append enq_def deq_def)
      show ?thesis using same moved by (simp add: swap_in_if_def x)
    qed
  qed
  then show ?thesis unfolding swap_in_all_pages_def I_def by fastforce
qed

section \<open>States with present pages\<close>

text \<open>The state after boot with \<open>n\<close> pages on the present queue.\<close>

definition mm_present :: "nat \<Rightarrow> 'd \<Rightarrow> 'd mm_state" where
  "mm_present n d = (mm_boot d)\<lparr>
     lnk := fold (\<lambda>x. list_add_tail x Present_pages_queue) (map Page_list [0..<n]) (lnk (mm_boot d)),
     pages := map (\<lambda>i. \<lparr>pg_uva = 0x10000, pg_kva = FREEMEM_KERNEL + of_nat i * PAGE_SIZE, pg_pgdir = 0,
                       pg_id = (if i < n then int i + 1 else 0), pg_sector = 0\<rparr>) [0..<MAX_PFN],
     page_id := int n, present_pages_num := int n\<rparr>"

abbreviation page_heads :: "node set" where
  "page_heads \<equiv> {Present_pages_queue, Swapped_pages_queue}"

lemma mm_boot_queues: "queues page_heads (lnk (mm_boot d)) (\<lambda>_. [])"
  by (auto simp: queues_def is_queue_def mm_boot_def link_defs)

lemma mm_boot_page_inv: "page_inv page_heads (\<lambda>_. []) [] [] (init_kernel_freemem (mm_boot d))"
  using mm_boot_queues [of d]
  by (simp add: page_inv_def init_kernel_freemem_def store_def mm_boot_def)

lemma mm_present_page_inv:
  assumes "n \<le> MAX_PFN"
  shows "page_inv page_heads ((\<lambda>_. [])(Present_pages_queue := map Page_list [0..<n])) [0..<n] [] (mm_present n d)"
proof -
  have "distinct (map Page_list [0..<n])" by (simp add: distinct_map inj_on_def)
  then have "queues page_heads (lnk (mm_present n d)) ((\<lambda>_. [])(Present_pages_queue := map Page_list [0..<n]))"
    using queues_fold_add_tail [OF mm_boot_queues [of d], of Present_pages_queue "map Page_list [0..<n]"]
    by (auto simp: mm_present_def)
  then show ?thesis using assms
    by (intro page_invI) (auto simp: mm_present_def split: if_splits)
qed

section \<open>Allocating a user page\<close>

text \<open>The entry that \<^verbatim>\<open>map_uva_to_kva\<close> writes for the frame at \<open>kva\<close>.\<close>

definition user_entry :: "u64 \<Rightarrow> u64" where
  "user_entry kva = set_attribute (set_pfn (drop_bit 12 (kva2pa kva))) user_attr"

lemma user_entry_pa:
  assumes "page_aligned kva" "FREEMEM_KERNEL \<le> kva"
  shows "user_entry kva \<noteq> 0" "pa2kva (get_pa (user_entry kva) OR (u AND mask 12)) = kva + (u AND mask 12)"
proof -
  have e: "user_entry kva \<noteq> 0" "get_pa (user_entry kva) = kva2pa kva"
    using table_entry [OF assms attr_bits(3,4)] by (simp_all add: user_entry_def)
  then show "user_entry kva \<noteq> 0" "pa2kva (get_pa (user_entry kva) OR (u AND mask 12)) = kva + (u AND mask 12)"
    using aligned_or_offset [OF kernel_pa(1) [OF assms]] by (simp_all add: pa2kva_def kva2pa_def)
qed

lemma kalloc_then_map:
  assumes rep: "pages_rep s A (Suc (Suc (Suc n)))" and wf: "pt_wf (mem s) A r" and u: "vpn2_of u < 256"
    and k: "kalloc s = (kva, s1)"
  defines "s2 \<equiv> map_uva_to_kva u kva r s1"
  shows "\<exists>A'. kva \<notin> A \<and> page_aligned kva \<and> FREEMEM_KERNEL \<le> kva \<and> insert kva A \<subseteq> A' \<and> pages_rep s2 A' n \<and> pt_wf (mem s2) A' r \<and>
    tables (mem s2) r \<inter> insert kva A \<subseteq> tables (mem s) r \<and>
    (\<forall>a. page_no a = page_no kva \<longrightarrow> mem s2 a = 0) \<and>
    (\<forall>p\<in>A - tables (mem s) r. \<forall>a. page_no a = page_no p \<longrightarrow> mem s2 a = mem s a) \<and>
    (\<forall>i j k. i < 256 \<longrightarrow> j < 512 \<longrightarrow> k < 512 \<longrightarrow> leaf (mem s2) r i j k =
       (if (i, j, k) = (vpn2_of u, vpn1_of u, vpn0_of u) then user_entry kva else leaf (mem s) r i j k))"
proof -
  note kc = kalloc_correct [OF rep k]
  have al: "\<And>x. x \<in> A \<Longrightarrow> page_aligned x" using pages_repD [OF rep] by simp
  have ag: "agrees A {} (mem s) (mem s1)" using kc by (simp add: agrees_def)
  have wf1: "pt_wf (mem s1) (insert kva A) r" by (rule pt_wf_fresh [OF rep k wf])
  have tb: "tables (mem s1) r = tables (mem s) r" by (rule tables_frame [OF wf al ag])
  have kt: "kva \<in> insert kva A - tables (mem s) r" using tables_subset [OF wf] kc by auto
  have rep1: "pages_rep s1 (insert kva A) (Suc (Suc n))" using kc by simp
  obtain A' where A': "insert kva A \<subseteq> A'" "pages_rep s2 A' n" "pt_wf (mem s2) A' r"
      "tables (mem s2) r \<inter> insert kva A \<subseteq> tables (mem s) r"
    and fr: "\<forall>p\<in>insert kva A - tables (mem s) r. \<forall>a. page_no a = page_no p \<longrightarrow> mem s2 a = mem s1 a"
    and l: "\<forall>i j k. i < 256 \<longrightarrow> j < 512 \<longrightarrow> k < 512 \<longrightarrow> leaf (mem s2) r i j k =
       (if (i, j, k) = (vpn2_of u, vpn1_of u, vpn0_of u) then user_entry kva else leaf (mem s1) r i j k)"
    using map_uva_to_kva_leaf [OF rep1 wf1 u, of kva] unfolding s2_def user_entry_def tb by blast
  have "\<forall>a. page_no a = page_no kva \<longrightarrow> mem s2 a = 0" using fr kt kc by metis
  moreover have "mem s2 a = mem s a" if "p \<in> A - tables (mem s) r" "page_no a = page_no p" for p a
  proof -
    have "mem s1 a = mem s a" using ag that unfolding agrees_def by blast
    moreover have "mem s2 a = mem s1 a" using fr that by blast
    ultimately show ?thesis by simp
  qed
  moreover have "leaf (mem s2) r i j k = (if (i, j, k) = (vpn2_of u, vpn1_of u, vpn0_of u) then user_entry kva else leaf (mem s) r i j k)"
    if "i < 256" "j < 512" "k < 512" for i j k
    using l that leaf_frame [OF wf al ag that] by simp
  ultimately show ?thesis using A' kc by (intro exI [of _ A']) blast
qed

text \<open>
  What \<^verbatim>\<open>alloc_page_helper\<close> does while there is room: the page is fresh and zero, exactly the leaf of
  \<open>uva\<close> changes, no page in use other than tables is written, and the page is recorded as present.
\<close>

lemma alloc_page_helper_spec:
  fixes s :: "('d, 'a) mm_state_scheme"
  assumes inv: "page_inv H Q P W s" and slots: "length P + length W < MAX_PFN" "length P < 512"
    and rep: "pages_rep s A (Suc (Suc (Suc n)))" and wf: "pt_wf (mem s) A r" and u: "vpn2_of u < 256"
  shows "\<exists>i kva s' A'. alloc_page_helper B u r s = Some (kva, s') \<and>
    kva \<notin> A \<and> page_aligned kva \<and> FREEMEM_KERNEL \<le> kva \<and> insert kva A \<subseteq> A' \<and> pages_rep s' A' n \<and> pt_wf (mem s') A' r \<and>
    tables (mem s') r \<inter> insert kva A \<subseteq> tables (mem s) r \<and>
    (\<forall>a. page_no a = page_no kva \<longrightarrow> mem s' a = 0) \<and>
    (\<forall>p\<in>A - tables (mem s) r. \<forall>a. page_no a = page_no p \<longrightarrow> mem s' a = mem s a) \<and>
    (\<forall>i j k. i < 256 \<longrightarrow> j < 512 \<longrightarrow> k < 512 \<longrightarrow> leaf (mem s') r i j k =
       (if (i, j, k) = (vpn2_of u, vpn1_of u, vpn0_of u) then user_entry kva else leaf (mem s) r i j k)) \<and>
    page_inv H (enq (Page_list i) Present_pages_queue Q) (P @ [i]) W s' \<and>
    pg_uva (pages s' ! i) = u \<and> pg_kva (pages s' ! i) = kva \<and> pg_pgdir (pages s' ! i) = r \<and>
    mm_state.more s' = mm_state.more s"
proof -
  obtain kva s1 where k: "kalloc s = (kva, s1)" by fastforce
  define s2 where "s2 = map_uva_to_kva u kva r s1"
  obtain A' where A': "kva \<notin> A" "page_aligned kva" "FREEMEM_KERNEL \<le> kva" "insert kva A \<subseteq> A'" "pages_rep s2 A' n" "pt_wf (mem s2) A' r"
    "tables (mem s2) r \<inter> insert kva A \<subseteq> tables (mem s) r"
    "\<forall>a. page_no a = page_no kva \<longrightarrow> mem s2 a = 0"
    "\<forall>p\<in>A - tables (mem s) r. \<forall>a. page_no a = page_no p \<longrightarrow> mem s2 a = mem s a"
    "\<forall>i j k. i < 256 \<longrightarrow> j < 512 \<longrightarrow> k < 512 \<longrightarrow> leaf (mem s2) r i j k =
       (if (i, j, k) = (vpn2_of u, vpn1_of u, vpn0_of u) then user_entry kva else leaf (mem s) r i j k)"
    using kalloc_then_map [OF rep wf u k] unfolding s2_def by blast
  have sr: "same_rest s s2"
    using same_rest_kalloc [of s] same_rest_map [of s1] k same_rest_trans unfolding s2_def by fastforce
  then have inv2: "page_inv H Q P W s2" using inv by (simp add: page_inv_def same_rest_def)
  then have np: "\<not> present_pages_num s2 \<ge> MAX_PRESENT_PFN"
    using slots(2) by (simp add: page_inv_def MAX_PRESENT_PFN_def)
  obtain i s' where s': "add_new_pre_page u kva r s2 = Some s'"
    "page_inv H (enq (Page_list i) Present_pages_queue Q) (P @ [i]) W s'"
    "pg_uva (pages s' ! i) = u" "pg_kva (pages s' ! i) = kva" "pg_pgdir (pages s' ! i) = r"
    "mem s' = mem s2" "freemem_list s' = freemem_list s2"
    using add_new_pre_page_spec [OF inv2 slots(1)] by blast
  have "mm_state.more s' = mm_state.more s"
    using s'(1) sr by (auto simp: add_new_pre_page_def same_rest_def Let_def split: option.splits)
  moreover have "alloc_page_helper B u r s = Some (kva, s')"
    using np s' by (simp add: alloc_page_helper_def k s2_def [symmetric])
  moreover have "pages_rep s' A' n" using A'(5) s' pages_rep_upd [of s2 A' n s'] by simp
  ultimately show ?thesis using A' s'
    by (intro exI [of _ i] exI [of _ kva] exI [of _ s'] exI [of _ A']) simp
qed

section \<open>Properties\<close>

text \<open>
  C11: while fewer than \<^verbatim>\<open>MAX_PFN\<close> page slots are in use and fewer than \<^verbatim>\<open>MAX_PRESENT_PFN\<close> pages are
  present, \<^verbatim>\<open>alloc_page_helper\<close> returns a page that was not in use, maps it at \<open>uva\<close> in a
  well-formed user table and records it at the end of the present queue, keeping the page
  accounting.
\<close>
theorem alloc_page_helper_maps:
  assumes inv: "page_inv H Q P W s" and slots: "length P + length W < MAX_PFN" "length P < 512"
    and rep: "pages_rep s A (Suc (Suc (Suc n)))" and wf: "pt_wf (mem s) A pgdir" and u: "vpn2_of uva < 256"
  shows "\<exists>i kva s' A'. alloc_page_helper B uva pgdir s = Some (kva, s') \<and> kva \<notin> A \<and>
    insert kva A \<subseteq> A' \<and> pages_rep s' A' n \<and> pt_wf (mem s') A' pgdir \<and>
    get_kva_of_uva uva pgdir s' = kva + (uva AND mask 12) \<and>
    page_inv H (enq (Page_list i) Present_pages_queue Q) (P @ [i]) W s' \<and>
    pg_uva (pages s' ! i) = uva \<and> pg_kva (pages s' ! i) = kva \<and> pg_pgdir (pages s' ! i) = pgdir"
proof -
  obtain i kva s' A' where sp: "alloc_page_helper B uva pgdir s = Some (kva, s')"
    "kva \<notin> A" "page_aligned kva" "FREEMEM_KERNEL \<le> kva" "insert kva A \<subseteq> A'" "pages_rep s' A' n" "pt_wf (mem s') A' pgdir"
    "page_inv H (enq (Page_list i) Present_pages_queue Q) (P @ [i]) W s'"
    "pg_uva (pages s' ! i) = uva" "pg_kva (pages s' ! i) = kva" "pg_pgdir (pages s' ! i) = pgdir"
    "leaf_of (mem s') pgdir uva = user_entry kva"
    using alloc_page_helper_spec [OF assms, of B] u vpn_bounds [of uva] unfolding leaf_of_def by auto
  then have "get_kva_of_uva uva pgdir s' = kva + (uva AND mask 12)"
    using get_kva_leaf [OF sp(6,7) u] user_entry_pa [OF sp(3,4)] by simp
  then show ?thesis using sp by (intro exI [of _ i] exI [of _ kva] exI [of _ s'] exI [of _ A']) simp
qed

theorem alloc_page_helper_maps_witness:
  "\<exists>(s :: unit mm_state) r B i kva s' A'. alloc_page_helper B 0x10000 r s = Some (kva, s') \<and> kva \<notin> {r} \<and>
    insert kva {r} \<subseteq> A' \<and> pages_rep s' A' 6 \<and> pt_wf (mem s') A' r \<and>
    get_kva_of_uva 0x10000 r s' = kva + (0x10000 AND mask 12) \<and>
    page_inv page_heads (enq (Page_list i) Present_pages_queue (\<lambda>_. [])) ([] @ [i]) [] s' \<and>
    pg_uva (pages s' ! i) = 0x10000 \<and> pg_kva (pages s' ! i) = kva \<and> pg_pgdir (pages s' ! i) = r"
proof -
  obtain r s where k: "kalloc (init_kernel_freemem (mm_boot ())) = (r, s)" by fastforce
  have i: "pages_rep (init_kernel_freemem (mm_boot ())) {} (Suc 9)" by (rule init_pages_rep) simp
  note c = kalloc_correct [OF i k]
  have rep: "pages_rep s {r} (Suc (Suc (Suc 6)))" using c by (simp add: eval_nat_numeral)
  have wf: "pt_wf (mem s) {r} r" using c by (intro pt_wf_empty) auto
  have u: "vpn2_of 0x10000 < 256" by (simp add: vpn2_of_def VA_MASK_def mask_eq_exp_minus_1)
  have "same_rest (init_kernel_freemem (mm_boot ())) s" using same_rest_kalloc k by (metis snd_conv)
  then have inv: "page_inv page_heads (\<lambda>_. []) [] [] s"
    using mm_boot_page_inv [of "()"] by (simp add: page_inv_def same_rest_def)
  have sl: "length ([]::nat list) + length ([]::nat list) < MAX_PFN" "length ([]::nat list) < 512"
    by (simp_all add: MAX_PFN_def)
  show ?thesis using alloc_page_helper_maps [OF inv sl rep wf u] by metis
qed

text \<open>
  C27: when \<^verbatim>\<open>MAX_PRESENT_PFN\<close> pages are present, \<^verbatim>\<open>alloc_page_helper\<close> never returns: swapping a page
  out does not free its slot of \<^verbatim>\<open>pages[]\<close>, which has only \<^verbatim>\<open>MAX_PFN = MAX_PRESENT_PFN\<close> slots, so
  \<^verbatim>\<open>add_new_pre_page\<close> finds none and its assertion fails.
\<close>
theorem alloc_page_helper_full_panics:
  assumes inv: "page_inv H Q P W s" and full: "present_pages_num s \<ge> MAX_PRESENT_PFN"
  shows "alloc_page_helper B uva pgdir s = None"
proof -
  obtain kva s1 where k: "kalloc s = (kva, s1)" by fastforce
  define s2 where "s2 = map_uva_to_kva uva kva pgdir s1"
  have "same_rest s s2"
    using same_rest_kalloc [of s] same_rest_map [of s1] k same_rest_trans unfolding s2_def by fastforce
  then have inv2: "page_inv H Q P W s2" and full2: "present_pages_num s2 \<ge> MAX_PRESENT_PFN"
    using inv full by (simp_all add: page_inv_def same_rest_def)
  have none: "add_new_pre_page uva kva pgdir s3 = None" if so: "swap_out B s2 = Some s3" for s3
  proof -
    obtain i P' Q' where P: "P = i # P'" and i3: "page_inv H Q' P' (W @ [i]) s3"
      using swap_out_inv [OF inv2 so] by blast
    have "512 \<le> length P" using full inv by (simp add: page_inv_def MAX_PRESENT_PFN_def)
    then have "MAX_PFN \<le> length (P' @ W @ [i])" using P by (simp add: MAX_PFN_def)
    moreover have d: "distinct (P' @ W @ [i])" and sub: "set (P' @ W @ [i]) \<subseteq> {..<MAX_PFN}"
      using i3 by (auto simp: page_inv_def)
    ultimately have "card {..<MAX_PFN} \<le> card (set (P' @ W @ [i]))"
      unfolding distinct_card [OF d] by simp
    then have "set (P' @ W @ [i]) = {..<MAX_PFN}"
      using sub by (intro card_seteq) auto
    then have "\<forall>j<MAX_PFN. pg_id (pages s3 ! j) \<noteq> 0" using i3 by (auto simp: page_inv_def)
    then have "find_index (\<lambda>p. pg_id p = 0) (pages s3) = None"
      using i3 by (auto simp: find_index_None_iff page_inv_def in_set_conv_nth)
    then show ?thesis by (simp add: add_new_pre_page_def)
  qed
  then show ?thesis using full2
    by (cases "swap_out B s2") (auto simp: alloc_page_helper_def k s2_def [symmetric])
qed

theorem alloc_page_helper_full_panics_witness:
  "present_pages_num (mm_present 512 ()) \<ge> MAX_PRESENT_PFN \<and>
    alloc_page_helper \<lparr>sd_read = \<lambda>_ _ _. [], sd_write = \<lambda>d _ _ _. d\<rparr> 0x10000 0 (mm_present 512 ()) = None"
proof -
  have f: "present_pages_num (mm_present 512 ()) \<ge> MAX_PRESENT_PFN"
    by (simp add: mm_present_def MAX_PRESENT_PFN_def)
  have "page_inv page_heads ((\<lambda>_. [])(Present_pages_queue := map Page_list [0..<512])) [0..<512] [] (mm_present 512 ())"
    by (rule mm_present_page_inv) (simp add: MAX_PFN_def)
  then show ?thesis using alloc_page_helper_full_panics [OF _ f] f by blast
qed

text \<open>
  \<^verbatim>\<open>free_page_with_kva\<close> on a page that is present takes it off the present queue and frees its
  slot, but never returns its frame to the allocator: free list and memory are unchanged, because
  \<^verbatim>\<open>reset_page_info\<close> has cleared \<^verbatim>\<open>page->kva\<close> before \<^verbatim>\<open>kfree(page->kva)\<close>.
\<close>
theorem free_page_leaks_frame:
  assumes inv: "page_inv H Q P W s" and f: "List.find (\<lambda>i. pg_kva (pages s ! i) = kva) P = Some i"
  shows "\<exists>s'. free_page_with_kva kva s = Some s' \<and>
    page_inv H (deq (Page_list i) Present_pages_queue Q) (remove1 i P) W s' \<and>
    pg_id (pages s' ! i) = 0 \<and> freemem_list s' = freemem_list s \<and> mem s' = mem s"
proof -
  have i: "i \<in> set P" using find_Some_mem [OF f] by simp
  then have il: "i < length (pages s)" using page_invD(1) [OF inv] by simp
  show ?thesis
    using drop_page_present [OF inv i] il
    by (simp add: free_page_with_kva_def find_page_with_kva_eq [OF inv] f Let_def drop_page_eq reset_page_info_def)
qed

theorem free_page_leaks_frame_witness:
  "\<exists>Q' s'. free_page_with_kva FREEMEM_KERNEL (mm_present 3 ()) = Some s' \<and>
    page_inv page_heads Q' (remove1 0 [0, 1, 2]) [] s' \<and>
    pg_id (pages s' ! 0) = 0 \<and> freemem_list s' = freemem_list (mm_present 3 ()) \<and> mem s' = mem (mm_present 3 ())"
proof -
  have l: "[0..<3] = [0, 1, 2::nat]" by (simp add: upt_rec)
  have inv: "page_inv page_heads ((\<lambda>_. [])(Present_pages_queue := map Page_list [0..<3])) [0, 1, 2] [] (mm_present 3 ())"
    using mm_present_page_inv [of 3 "()"] unfolding l by (simp add: MAX_PFN_def)
  have "List.find (\<lambda>i. pg_kva (pages (mm_present 3 ()) ! i) = FREEMEM_KERNEL) [0, 1, 2] = Some 0"
    by (simp add: mm_present_def MAX_PFN_def)
  then show ?thesis using free_page_leaks_frame [OF inv] by blast
qed

end
