(* ===== verification/CString.thy ===== *)
theory CString
  imports Prelude
begin

text \<open>
  The kernel's string library, \<open>src/libs/string.c\<close> (\<open>src/tiny_libc/string.c\<close> repeats the
  same functions for user programs and adds \<^verbatim>\<open>strrev\<close>). A pointer argument is the list of
  bytes from the pointed-to byte to the end of its object, so running past the object is
  \<^term>\<open>None\<close>. Characters are \<^verbatim>\<open>unsigned char\<close> on RISC-V.
\<close>

section \<open>The functions\<close>

fun memcpy :: "u8 list \<Rightarrow> u8 list \<Rightarrow> nat \<Rightarrow> u8 list option" where
  "memcpy dest src 0 = Some dest"
| "memcpy (d # dest) (s # src) (Suc len) = map_option ((#) s) (memcpy dest src len)"
| "memcpy _ _ (Suc len) = None"

fun memset :: "u8 list \<Rightarrow> u8 \<Rightarrow> nat \<Rightarrow> u8 list option" where
  "memset dest val 0 = Some dest"
| "memset (d # dest) val (Suc len) = map_option ((#) val) (memset dest val len)"
| "memset [] val (Suc len) = None"

definition bzero :: "u8 list \<Rightarrow> nat \<Rightarrow> u8 list option" where
  "bzero dest len = memset dest 0 len"

fun strlen :: "u8 list \<Rightarrow> nat option" where
  "strlen [] = None"
| "strlen (c # src) = (if c \<noteq> 0 then map_option Suc (strlen src) else Some 0)"

fun strcmp :: "u8 list \<Rightarrow> u8 list \<Rightarrow> int option" where
  "strcmp (a # str1) (b # str2) =
     (if a \<noteq> 0 \<and> b \<noteq> 0
      then if a \<noteq> b then Some (uint a - uint b) else strcmp str1 str2
      else Some (uint a - uint b))"
| "strcmp _ _ = None"

fun strncmp :: "u8 list \<Rightarrow> u8 list \<Rightarrow> int \<Rightarrow> int option" where
  "strncmp (a # str1) (b # str2) n =
     (if a \<noteq> 0 \<and> b \<noteq> 0 \<and> n > 0
      then if a \<noteq> b then Some (uint a - uint b) else strncmp str1 str2 (n - 1)
      else Some (uint a - uint b))"
| "strncmp _ _ n = None"

fun strcpy :: "u8 list \<Rightarrow> u8 list \<Rightarrow> u8 list option" where
  "strcpy (d # dest) (s # src) =
     (if s \<noteq> 0 then map_option ((#) s) (strcpy dest src) else Some (0 # dest))"
| "strcpy _ _ = None"

text \<open>
  The first loop of \<^verbatim>\<open>strncpy\<close> ends at the terminator, with \<^verbatim>\<open>n\<close> unchanged, or when \<^verbatim>\<open>n--\<close>
  finds no room left, with \<^verbatim>\<open>n\<close> decremented once more; the second loop writes the zeros.
\<close>

fun strncpy :: "u8 list \<Rightarrow> u8 list \<Rightarrow> int \<Rightarrow> u8 list option" where
  "strncpy dest [] n = None"
| "strncpy dest (s # src) n =
     (if s \<noteq> 0
      then if n > 0
        then (case dest of [] \<Rightarrow> None
              | d # dest' \<Rightarrow> map_option ((#) s) (strncpy dest' src (n - 1)))
        else memset dest 0 (nat (n - 1))
      else memset dest 0 (nat n))"

fun strcat :: "u8 list \<Rightarrow> u8 list \<Rightarrow> u8 list option" where
  "strcat [] src = None"
| "strcat (d # dest) src =
     (if d \<noteq> 0 then map_option ((#) d) (strcat dest src) else strcpy (d # dest) src)"

text \<open>The swapping loop of \<^verbatim>\<open>strrev\<close>, with its two indices.\<close>

function strrev_loop :: "u8 list \<Rightarrow> int \<Rightarrow> int \<Rightarrow> u8 list" where
  "strrev_loop str i j =
     (if i < j
      then strrev_loop (str[nat i := str ! nat j, nat j := str ! nat i]) (i + 1) (j - 1)
      else str)"
  by pat_completeness auto
termination
  by (relation "measure (\<lambda>(str, i, j). nat (j - i))") auto

declare strrev_loop.simps [simp del]

definition strrev :: "u8 list \<Rightarrow> u8 list option" where
  "strrev str = do { len \<leftarrow> strlen str; Some (strrev_loop str 0 (int len - 1)) }"

section \<open>C strings\<close>

text \<open>A C string: characters that are not zero, then a zero byte (then anything).\<close>

abbreviation chars :: "u8 list \<Rightarrow> bool" where
  "chars s \<equiv> 0 \<notin> set s"

definition cstr :: "string \<Rightarrow> u8 list" where
  "cstr s = map of_char s @ [0]"

lemma uint_eqD: "uint a = uint b \<Longrightarrow> a = b"
  by (simp add: word_uint_eq_iff)

lemma memcpy_take:
  "len \<le> length dest \<Longrightarrow> len \<le> length src \<Longrightarrow>
   memcpy dest src len = Some (take len src @ drop len dest)"
proof (induction len arbitrary: dest src)
  case 0
  then show ?case by simp
next
  case (Suc len)
  then obtain d dest' s src' where "dest = d # dest'" "src = s # src'"
    by (metis Suc_le_length_iff)
  then show ?case using Suc by simp
qed

lemma memset_replicate:
  "len \<le> length dest \<Longrightarrow> memset dest val len = Some (replicate len val @ drop len dest)"
proof (induction len arbitrary: dest)
  case 0
  then show ?case by simp
next
  case (Suc len)
  then obtain d dest' where "dest = d # dest'" by (metis Suc_le_length_iff)
  then show ?case using Suc by simp
qed

lemma memcpy_overrun: "length dest < len \<or> length src < len \<Longrightarrow> memcpy dest src len = None"
  by (induction dest src len rule: memcpy.induct) auto

lemma strlen_cstr [simp]: "chars s \<Longrightarrow> strlen (s @ 0 # r) = Some (length s)"
  by (induction s) auto

lemma strlen_None_iff: "strlen src = None \<longleftrightarrow> chars src"
  by (induction src) auto

lemma strlen_SomeD: "strlen src = Some n \<Longrightarrow> n < length src \<and> src ! n = 0 \<and> chars (take n src)"
proof (induction src arbitrary: n)
  case Nil
  then show ?case by simp
next
  case (Cons c src)
  then show ?case by (cases n) (auto split: if_splits)
qed

lemma strcmp_zero_iff:
  "chars s \<Longrightarrow> chars t \<Longrightarrow> \<exists>r. strcmp (s @ 0 # x) (t @ 0 # y) = Some r \<and> (r = 0 \<longleftrightarrow> s = t)"
proof (induction s arbitrary: t)
  case Nil
  then show ?case by (cases t) (auto simp: uint_0_iff)
next
  case (Cons a s)
  show ?case
  proof (cases t)
    case Nil
    then show ?thesis using Cons.prems by (auto simp: uint_0_iff)
  next
    case (Cons b t')
    then show ?thesis using Cons.prems Cons.IH [of t'] Cons
      by (auto dest: uint_eqD)
  qed
qed

lemma strcmp_cstr_eq_0 [simp]:
  "chars s \<Longrightarrow> chars t \<Longrightarrow> strcmp (s @ 0 # x) (t @ 0 # y) = Some 0 \<longleftrightarrow> s = t"
  using strcmp_zero_iff [of s t x y] by auto

lemma strcmp_swap:
  "strcmp a b = Some r \<Longrightarrow> strcmp b a = Some (- r)"
  by (induction a b arbitrary: r rule: strcmp.induct) (auto split: if_splits)

lemma strcpy_fits:
  "chars s \<Longrightarrow> length s < length dest \<Longrightarrow>
   strcpy dest (s @ 0 # r) = Some (s @ 0 # drop (Suc (length s)) dest)"
proof (induction s arbitrary: dest)
  case Nil
  then show ?case by (cases dest) auto
next
  case (Cons a s)
  then show ?case by (cases dest) auto
qed

lemma strcpy_overrun:
  "chars s \<Longrightarrow> length dest \<le> length s \<Longrightarrow> strcpy dest (s @ 0 # r) = None"
proof (induction s arbitrary: dest)
  case Nil
  then show ?case by simp
next
  case (Cons a s)
  then show ?case by (cases dest) auto
qed

lemma strcat_fits:
  "chars d \<Longrightarrow> chars s \<Longrightarrow> length d + length s < length (d @ 0 # room) \<Longrightarrow>
   strcat (d @ 0 # room) (s @ 0 # r) = Some (d @ s @ 0 # drop (length s) room)"
proof (induction d)
  case Nil
  then show ?case using strcpy_fits [of s "0 # room" r] by simp
next
  case (Cons a d)
  then show ?case by simp
qed

lemma rev_short: "length xs \<le> 1 \<Longrightarrow> rev xs = xs"
  by (cases xs) auto

lemma take_slice_drop: "take a xs @ slice a n xs @ drop (a + n) xs = xs"
  by (metis append_take_drop_id drop_drop add.commute slice_def)

text \<open>Swapping the ends of a segment and reversing the inside reverses the segment.\<close>

lemma strrev_step:
  assumes "a < b" "b < length str"
  shows "take (Suc a) (str[a := str ! b, b := str ! a])
       @ rev (slice (Suc a) (b - Suc a) (str[a := str ! b, b := str ! a]))
       @ drop b (str[a := str ! b, b := str ! a])
     = take a str @ rev (slice a (Suc b - a) str) @ drop (Suc b) str" (is "?L = ?R")
proof (rule nth_equalityI)
  show "length ?L = length ?R" using assms by simp
next
  fix k assume "k < length ?L"
  then have k: "k < length str" using assms by simp
  show "?L ! k = ?R ! k"
  proof (cases "a < k \<and> k < b")
    case True
    then have "b - Suc k < b - Suc a" "b - k < Suc b - a" by auto
    then have "?L ! k = str ! (Suc a + (b - Suc k))" "?R ! k = str ! (a + (b - k))"
      using True assms by (auto simp: nth_append rev_nth slice_def Suc_diff_le Suc_diff_Suc)
    then show ?thesis using True by (simp add: Suc_diff_Suc)
  next
    case False
    have e: "length str - Suc 0 = b" if "length str - a \<le> Suc (b - a)" using that assms by auto
    from False consider "k < a" | "k = a" | "k = b" | "b < k" by linarith
    then show ?thesis
      using assms k by cases (auto simp: nth_append rev_nth slice_def min_def Suc_diff_le e)
  qed
qed

lemma strrev_loop_swaps:
  assumes "0 \<le> i" "i \<le> j + 1" "j < int (length str)"
  shows "strrev_loop str i j =
    take (nat i) str @ rev (slice (nat i) (nat (j + 1 - i)) str) @ drop (nat (j + 1)) str"
  using assms
proof (induction str i j rule: strrev_loop.induct)
  case (1 str i j)
  show ?case
  proof (cases "i < j")
    case False
    with 1 have "nat (j + 1 - i) \<le> 1" "nat (j + 1) = nat i + nat (j + 1 - i)" by auto
    moreover have "rev (slice (nat i) (nat (j + 1 - i)) str) = slice (nat i) (nat (j + 1 - i)) str"
      using \<open>nat (j + 1 - i) \<le> 1\<close> by (intro rev_short) simp
    ultimately show ?thesis using False
      by (simp add: strrev_loop.simps [of str i j] take_slice_drop)
  next
    case True
    define a b where "a = nat i" and "b = nat j"
    define str' where "str' = str[a := str ! b, b := str ! a]"
    have ij: "a < b" "b < length str" using 1 True by (auto simp: a_def b_def)
    have n: "nat (i + 1) = Suc a" "nat (j - 1 + 1) = b"
      "nat (j - 1 + 1 - (i + 1)) = b - Suc a" "nat (j + 1 - i) = Suc b - a" "nat (j + 1) = Suc b"
      using 1 True by (auto simp: a_def b_def)
    have "strrev_loop str' (i + 1) (j - 1) =
        take (nat (i + 1)) str' @ rev (slice (nat (i + 1)) (nat (j - 1 + 1 - (i + 1))) str')
        @ drop (nat (j - 1 + 1)) str'"
      unfolding str'_def a_def b_def using 1 True by (intro 1(1)) auto
    then have IH: "strrev_loop str' (i + 1) (j - 1) =
        take (Suc a) str' @ rev (slice (Suc a) (b - Suc a) str') @ drop b str'"
      unfolding n .
    have "strrev_loop str i j = strrev_loop str' (i + 1) (j - 1)"
      using True by (simp add: strrev_loop.simps [of str i j] str'_def a_def b_def)
    then show ?thesis unfolding IH n
      by (simp add: strrev_step [OF ij] str'_def flip: a_def)
  qed
qed

section \<open>Properties\<close>

text \<open>
  C28: \<^verbatim>\<open>strcmp\<close> on two C strings always returns, returns 0 exactly when they are equal, and
  changes sign when its arguments are swapped.
\<close>
theorem strcmp_correct:
  assumes "chars s" "chars t"
  shows "\<exists>r. strcmp (s @ 0 # x) (t @ 0 # y) = Some r \<and> (r = 0 \<longleftrightarrow> s = t)
           \<and> strcmp (t @ 0 # y) (s @ 0 # x) = Some (- r)"
  using strcmp_zero_iff [OF assms] strcmp_swap by blast

theorem strcmp_correct_witness:
  "\<exists>r. strcmp (map of_char ''ls'' @ [0, 7]) (map of_char ''lsx'' @ [0]) = Some r
     \<and> (r = 0 \<longleftrightarrow> (map of_char ''ls'' :: u8 list) = map of_char ''lsx'')
     \<and> strcmp (map of_char ''lsx'' @ [0]) (map of_char ''ls'' @ [0, 7]) = Some (- r)"
  by (rule strcmp_correct) simp_all

text \<open>
  \<^verbatim>\<open>strrev\<close> reverses the characters of a C string in place and keeps everything from the
  terminator on.
\<close>
theorem strrev_correct:
  assumes "chars s"
  shows "strrev (s @ 0 # r) = Some (rev s @ 0 # r)"
proof -
  have "strrev_loop (s @ 0 # r) 0 (int (length s) - 1) = rev s @ 0 # r"
    by (subst strrev_loop_swaps) (auto simp: slice_def)
  then show ?thesis using assms by (simp add: strrev_def)
qed

theorem strrev_correct_witness:
  "strrev (map of_char ''321'' @ [0]) = Some (rev (map of_char ''321'') @ [0])"
  by (rule strrev_correct) simp

text \<open>
  \<^verbatim>\<open>strncmp\<close> does not stop its comparison at \<^verbatim>\<open>n\<close> characters: after \<^verbatim>\<open>n\<close> equal characters it
  returns the difference of the next pair, so two strings that agree on their first \<^verbatim>\<open>n\<close>
  characters and differ in the following one do not compare as equal.
\<close>
theorem strncmp_reads_past_n:
  assumes "chars s" "a \<noteq> b"
  shows "\<exists>r. strncmp (s @ a # x) (s @ b # y) (int (length s)) = Some r \<and> r \<noteq> 0"
  using assms by (induction s) (auto dest: uint_eqD)

theorem strncmp_reads_past_n_witness:
  "\<exists>r. strncmp (map of_char ''ab'' @ of_char (CHR ''c'') # [0])
        (map of_char ''ab'' @ of_char (CHR ''d'') # [0])
        (int (length (map of_char ''ab'' :: u8 list))) = Some r \<and> r \<noteq> 0"
  by (rule strncmp_reads_past_n) simp_all

end
