(* ===== verification/E1000.thy ===== *)
theory E1000
  imports CString MM
begin

text \<open>
  The network driver \<open>src/drivers/e1000.c\<close>: descriptor rings, packet buffers and the registers it
  writes. The driver's own reads (\<^verbatim>\<open>TDT\<close>, \<^verbatim>\<open>RDT\<close>) give back what it wrote, since the device never
  writes the tail registers; the interrupt cause register is the stream \<open>icr\<close> of the values that
  successive reads return. The device's part of the transmit ring is the relation \<open>nic_tx\<close>.
\<close>

section \<open>Rings and registers\<close>

definition TXDESCS :: nat where "TXDESCS = 64"
definition RXDESCS :: nat where "RXDESCS = 64"
definition TX_PKT_SIZE :: nat where "TX_PKT_SIZE = 2048"
definition RX_PKT_SIZE :: nat where "RX_PKT_SIZE = 2048"

definition E1000_TXD_CMD_EOP :: u8 where "E1000_TXD_CMD_EOP = 1"
definition E1000_TXD_CMD_RS :: u8 where "E1000_TXD_CMD_RS = 8"
definition E1000_TXD_STAT_DD :: u8 where "E1000_TXD_STAT_DD = 1"
definition E1000_RXD_STAT_DD :: u8 where "E1000_RXD_STAT_DD = 1"

definition E1000_ICR :: u32 where "E1000_ICR = 0xC0"
definition E1000_IMC :: u32 where "E1000_IMC = 0xD8"
definition E1000_RCTL :: u32 where "E1000_RCTL = 0x100"
definition E1000_TCTL :: u32 where "E1000_TCTL = 0x400"
definition E1000_RDBAL :: u32 where "E1000_RDBAL = 0x2800"
definition E1000_RDBAH :: u32 where "E1000_RDBAH = 0x2804"
definition E1000_RDLEN :: u32 where "E1000_RDLEN = 0x2808"
definition E1000_RDH :: u32 where "E1000_RDH = 0x2810"
definition E1000_RDT :: u32 where "E1000_RDT = 0x2818"
definition E1000_TDBAL :: u32 where "E1000_TDBAL = 0x3800"
definition E1000_TDBAH :: u32 where "E1000_TDBAH = 0x3804"
definition E1000_TDLEN :: u32 where "E1000_TDLEN = 0x3808"
definition E1000_TDH :: u32 where "E1000_TDH = 0x3810"
definition E1000_TDT :: u32 where "E1000_TDT = 0x3818"
definition E1000_RA :: u32 where "E1000_RA = 0x5400"

lemmas reg_defs = E1000_ICR_def E1000_IMC_def E1000_RCTL_def E1000_TCTL_def E1000_RDBAL_def
  E1000_RDBAH_def E1000_RDLEN_def E1000_RDH_def E1000_RDT_def E1000_TDBAL_def E1000_TDBAH_def
  E1000_TDLEN_def E1000_TDH_def E1000_TDT_def E1000_RA_def

record e1000_tx_desc =
  tx_addr :: u64
  tx_length :: u16
  tx_cso :: u8
  tx_cmd :: u8
  tx_status :: u8
  tx_css :: u8
  tx_special :: u16

record e1000_rx_desc =
  rx_addr :: u64
  rx_length :: u16
  rx_csum :: u16
  rx_status :: u8
  rx_errors :: u8
  rx_special :: u16

text \<open>
  The driver's variables. The last four fields are fixed by the linker: the addresses of the two
  descriptor arrays and of the two packet buffers.
\<close>

record e1000_state =
  e1000_regs :: "u32 \<Rightarrow> u32"
  icr :: "nat \<Rightarrow> u32"
  icr_reads :: nat
  tx_desc_array :: "e1000_tx_desc list"
  rx_desc_array :: "e1000_rx_desc list"
  tx_pkt_buffer :: "u8 list list"
  rx_pkt_buffer :: "u8 list list"
  tx_desc_base :: u64
  rx_desc_base :: u64
  tx_pkt_base :: u64
  rx_pkt_base :: u64

definition e1000_write_reg :: "u32 \<Rightarrow> u32 \<Rightarrow> e1000_state \<Rightarrow> e1000_state" where
  "e1000_write_reg reg val n = n\<lparr>e1000_regs := (e1000_regs n)(reg := val)\<rparr>"

definition e1000_read_reg :: "u32 \<Rightarrow> e1000_state \<Rightarrow> u32" where
  "e1000_read_reg reg n = e1000_regs n reg"

definition e1000_write_reg_array :: "u32 \<Rightarrow> u32 \<Rightarrow> u32 \<Rightarrow> e1000_state \<Rightarrow> e1000_state" where
  "e1000_write_reg_array reg off val n = e1000_write_reg (reg + push_bit 2 off) val n"

section \<open>Initialisation\<close>

partial_function (option) wait_icr :: "e1000_state \<Rightarrow> e1000_state option" where
  "wait_icr n =
     (let v = icr n (icr_reads n); n' = n\<lparr>icr_reads := icr_reads n + 1\<rparr>
      in if v = 0 then Some n' else wait_icr n')"

text \<open>\<^verbatim>\<open>latency(1)\<close> between the two groups of writes only waits.\<close>

definition e1000_reset :: "e1000_state \<Rightarrow> e1000_state option" where
  "e1000_reset n =
     (let n1 = e1000_write_reg E1000_TCTL 0 (e1000_write_reg E1000_RCTL 0 n);
          n2 = e1000_write_reg E1000_TDT 0 (e1000_write_reg E1000_TDH 0 n1);
          n3 = e1000_write_reg E1000_RDT 0 (e1000_write_reg E1000_RDH 0 n2)
      in wait_icr (e1000_write_reg E1000_IMC 0xffffffff n3))"

definition e1000_configure_tx :: "e1000_state \<Rightarrow> e1000_state" where
  "e1000_configure_tx n =
     (let n1 = n\<lparr>tx_desc_array := map (\<lambda>i. (tx_desc_array n ! i)
                   \<lparr>tx_addr := kva2pa (tx_pkt_base n + of_nat (i * TX_PKT_SIZE)),
                    tx_cmd := 0 OR E1000_TXD_CMD_RS,
                    tx_status := tx_status (tx_desc_array n ! i) OR E1000_TXD_STAT_DD\<rparr>) [0..<TXDESCS]\<rparr>;
          pa = kva2pa (tx_desc_base n);
          n2 = e1000_write_reg E1000_TDBAL (ucast (pa AND 0xffffffff)) n1;
          n3 = e1000_write_reg E1000_TDBAH (ucast (drop_bit 32 pa)) n2;
          n4 = e1000_write_reg E1000_TDLEN (of_nat (16 * TXDESCS)) n3;
          n5 = e1000_write_reg E1000_TDT 0 (e1000_write_reg E1000_TDH 0 n4)
      in e1000_write_reg E1000_TCTL (2 OR 8 OR push_bit 4 0x10 OR push_bit 12 0x40) n5)"

definition enetaddr :: "u8 list" where
  "enetaddr = [0x00, 0x0a, 0x35, 0x00, 0x1e, 0x53]"

definition e1000_configure_rx :: "e1000_state \<Rightarrow> e1000_state" where
  "e1000_configure_rx n =
     (let ral = fold (\<lambda>i r. r OR push_bit (8 * i) (ucast (enetaddr ! i))) [0..<4] (0::u32);
          rah = fold (\<lambda>i r. r OR push_bit (8 * (i - 4)) (ucast (enetaddr ! i))) [4..<6] (0::u32);
          rah' = rah OR 0x80000000;
          n0 = e1000_write_reg_array E1000_RA 1 rah' (e1000_write_reg_array E1000_RA 0 ral n);
          n1 = n0\<lparr>rx_desc_array := map (\<lambda>i. if i < TXDESCS
                     then (rx_desc_array n ! i)\<lparr>rx_addr := kva2pa (rx_pkt_base n + of_nat (i * RX_PKT_SIZE))\<rparr>
                     else rx_desc_array n ! i) [0..<RXDESCS]\<rparr>;
          pa = kva2pa (rx_desc_base n);
          n2 = e1000_write_reg E1000_RDBAL (ucast (pa AND 0xffffffff)) n1;
          n3 = e1000_write_reg E1000_RDBAH (ucast (drop_bit 32 pa)) n2;
          n4 = e1000_write_reg E1000_RDLEN (of_nat (16 * RXDESCS)) n3;
          n5 = e1000_write_reg E1000_RDT (of_nat (RXDESCS - 1)) (e1000_write_reg E1000_RDH 0 n4)
      in e1000_write_reg E1000_RCTL (0 OR 2 OR 0x8000) n5)"

definition e1000_init :: "e1000_state \<Rightarrow> e1000_state option" where
  "e1000_init n = do { n1 \<leftarrow> e1000_reset n; Some (e1000_configure_rx (e1000_configure_tx n1)) }"

section \<open>Transmit and receive\<close>

text \<open>
  \<open>txpacket\<close> are the bytes at the pointer argument. A packet longer than a slot of
  \<^verbatim>\<open>tx_pkt_buffer\<close> overruns it: no result.
\<close>

definition e1000_transmit :: "u8 list \<Rightarrow> int \<Rightarrow> e1000_state \<Rightarrow> (int \<times> e1000_state) option" where
  "e1000_transmit txpacket len n =
     (let tail = unat (e1000_read_reg E1000_TDT n) in
      if tail \<ge> length (tx_desc_array n) then None
      else let d = tx_desc_array n ! tail in
      if tx_status d AND E1000_TXD_STAT_DD = 0 then Some (0, n)
      else let d' = d\<lparr>tx_length := of_int len, tx_status := tx_status d AND NOT E1000_TXD_STAT_DD,
                      tx_cmd := tx_cmd d OR E1000_TXD_CMD_EOP\<rparr>
           in do {
             buf \<leftarrow> memcpy (tx_pkt_buffer n ! tail) txpacket (unat (of_int len :: u32));
             Some (len, e1000_write_reg E1000_TDT (of_nat ((tail + 1) mod TXDESCS))
               (n\<lparr>tx_desc_array := (tx_desc_array n)[tail := d'],
                  tx_pkt_buffer := (tx_pkt_buffer n)[tail := buf]\<rparr>))
           })"

text \<open>\<open>rxbuffer\<close> is the memory at the pointer argument; the result holds its new contents.\<close>

definition e1000_poll :: "u8 list \<Rightarrow> e1000_state \<Rightarrow> (int \<times> u8 list \<times> e1000_state) option" where
  "e1000_poll rxbuffer n =
     (let tail = unat ((e1000_read_reg E1000_RDT n + 1) mod of_nat RXDESCS) in
      if tail \<ge> length (rx_desc_array n) then None
      else let d = rx_desc_array n ! tail in
      if rx_status d AND E1000_RXD_STAT_DD = 0 then Some (0, rxbuffer, n)
      else let len = unat (rx_length d) in do {
        buf \<leftarrow> memcpy rxbuffer (rx_pkt_buffer n ! tail) len;
        Some (int len, buf, e1000_write_reg E1000_RDT (of_nat tail)
          (n\<lparr>rx_desc_array := (rx_desc_array n)
               [tail := d\<lparr>rx_status := rx_status d AND NOT E1000_RXD_STAT_DD\<rparr>]\<rparr>))
      })"

definition is_tx_desc_stat_dd :: "e1000_state \<Rightarrow> bool" where
  "is_tx_desc_stat_dd n \<longleftrightarrow>
     tx_status (tx_desc_array n ! unat (e1000_read_reg E1000_TDT n)) AND E1000_TXD_STAT_DD \<noteq> 0"

definition is_rx_desc_stat_dd :: "e1000_state \<Rightarrow> bool" where
  "is_rx_desc_stat_dd n \<longleftrightarrow>
     rx_status (rx_desc_array n ! unat ((e1000_read_reg E1000_RDT n + 1) mod of_nat RXDESCS))
       AND E1000_RXD_STAT_DD \<noteq> 0"

section \<open>The transmit ring\<close>

text \<open>
  The shape of the driver's state: the arrays have their sizes and both tail registers are
  indices.
\<close>

definition nic_wf :: "e1000_state \<Rightarrow> bool" where
  "nic_wf n \<longleftrightarrow> length (tx_desc_array n) = 64 \<and> length (rx_desc_array n) = 64 \<and>
     length (tx_pkt_buffer n) = 64 \<and> length (rx_pkt_buffer n) = 64 \<and>
     (\<forall>b\<in>set (tx_pkt_buffer n). length b = 2048) \<and> (\<forall>b\<in>set (rx_pkt_buffer n). length b = 2048) \<and>
     e1000_regs n E1000_TDT < 64 \<and> e1000_regs n E1000_RDT < 64"

text \<open>The packet in slot \<open>i\<close> of the ring.\<close>

definition slot :: "e1000_state \<Rightarrow> nat \<Rightarrow> u8 list" where
  "slot n i = take (unat (tx_length (tx_desc_array n ! i))) (tx_pkt_buffer n ! i)"

definition pending :: "e1000_state \<Rightarrow> nat \<Rightarrow> bool" where
  "pending n i \<longleftrightarrow> tx_status (tx_desc_array n ! i) AND E1000_TXD_STAT_DD = 0"

text \<open>
  \<open>tx_ring (h, n) ps\<close>: the packets \<open>ps\<close>, accepted by the driver and not yet sent by the device,
  are in the slots from \<open>h\<close> on, in order and ending before the tail; only these slots are pending.
\<close>

definition tx_ring :: "nat \<times> e1000_state \<Rightarrow> u8 list list \<Rightarrow> bool" where
  "tx_ring hn ps \<longleftrightarrow> (case hn of (h, n) \<Rightarrow> nic_wf n \<and> h < 64 \<and> length ps \<le> 64 \<and>
     unat (e1000_regs n E1000_TDT) = (h + length ps) mod 64 \<and>
     (\<forall>k<64. pending n ((h + k) mod 64) \<longleftrightarrow> k < length ps) \<and>
     (\<forall>k<length ps. slot n ((h + k) mod 64) = ps ! k))"

text \<open>
  The driver's end of the ring, and the device's: it sends the packet at its head when the
  descriptor is pending, reports the descriptor done and advances.
\<close>

definition tx_push :: "u8 list \<Rightarrow> nat \<times> e1000_state \<Rightarrow> (nat \<times> e1000_state) option" where
  "tx_push pkt hn = (case e1000_transmit pkt (int (length pkt)) (snd hn) of
      Some (l, n') \<Rightarrow> if l = 0 then None else Some (fst hn, n') | None \<Rightarrow> None)"

definition tx_pop :: "nat \<times> e1000_state \<Rightarrow> (u8 list \<times> nat \<times> e1000_state) option" where
  "tx_pop hn = (case hn of (h, n) \<Rightarrow>
     if \<not> pending n h then None
     else Some (slot n h, (h + 1) mod 64, n\<lparr>tx_desc_array := (tx_desc_array n)[h :=
       (tx_desc_array n ! h)\<lparr>tx_status := tx_status (tx_desc_array n ! h) OR E1000_TXD_STAT_DD\<rparr>]\<rparr>))"

definition tx_packet :: "u8 list \<Rightarrow> bool" where
  "tx_packet pkt \<longleftrightarrow> 0 < length pkt \<and> length pkt \<le> 2048"

lemma ring_index_inj:
  assumes "j < 64" "k < 64" "(h + j) mod 64 = (h + k) mod (64::nat)" shows "j = k"
proof -
  have ge: "a \<ge> b" if "b < 64" "(h + a) mod 64 = (h + b) mod 64" for a b
  proof (rule ccontr)
    assume "\<not> a \<ge> b"
    then have "64 dvd b - a" using that(2) mod_eq_dvd_iff_nat [of "h + a" "h + b" 64] by simp
    then show False using nat_dvd_not_less [of "b - a" 64] that(1) \<open>\<not> a \<ge> b\<close> by simp
  qed
  show ?thesis using ge [of k j] ge [of j k] assms by simp
qed

text \<open>Taking the first of \<open>m + 1\<close> marked slots off a ring leaves the next \<open>m\<close> marked.\<close>

lemma ring_shift:
  assumes "h < 64" "\<forall>k<64. P ((h + k) mod 64) \<longleftrightarrow> k < length (p # ps)"
    and "\<And>i. i < 64 \<Longrightarrow> P' i \<longleftrightarrow> i \<noteq> h \<and> P i" "length ps < m" "m \<le> 64" "j < 64"
  shows "P' ((h + Suc j) mod 64) \<longleftrightarrow> j < length ps"
proof (cases "Suc j < 64")
  case True
  then show ?thesis
    using assms(3) [of "(h + Suc j) mod 64"] spec [OF assms(2), of "Suc j"] ring_index_inj [of "Suc j" 0 h] assms(1)
    by auto
next
  case False
  then have "j = 63" using assms(6) by simp
  then have "(h + Suc j) mod 64 = h" using assms(1) by simp
  then show ?thesis using assms(3) [of h] assms(1,4,5) \<open>j = 63\<close> by simp
qed

lemma dd_bit: "(x AND NOT 1) AND (1::u8) = 0" "(x OR 1) AND (1::u8) \<noteq> 0"
proof -
  show "(x AND NOT 1) AND (1::u8) = 0" by (rule bit_eqI) (auto simp: bit_simps)
  have "(x OR 1) AND (1::u8) = 1" by (rule bit_eqI) (auto simp: bit_simps)
  then show "(x OR 1) AND (1::u8) \<noteq> 0" by simp
qed

lemma u32_small: "m < 64 \<Longrightarrow> unat (of_nat m :: u32) = m"
  by (simp add: unat_of_nat)

lemma transmit_room:
  assumes r: "tx_ring (h, n) ps" and l: "length ps < 64" and k: "k \<le> 2048" "k \<le> length pkt"
  shows "\<exists>n'. e1000_transmit pkt (int k) n = Some (int k, n') \<and> tx_ring (h, n') (ps @ [take k pkt])"
proof -
  define t where "t = (h + length ps) mod 64"
  have wf: "nic_wf n" and h: "h < 64" and tdt: "unat (e1000_regs n E1000_TDT) = t"
    and pend: "\<forall>k<64. pending n ((h + k) mod 64) \<longleftrightarrow> k < length ps"
    and slots: "\<forall>k<length ps. slot n ((h + k) mod 64) = ps ! k"
    using r by (simp_all add: tx_ring_def t_def)
  have t: "t < 64" by (simp add: t_def)
  have np: "\<not> pending n t" using pend l by (simp add: t_def)
  have lb: "length (tx_pkt_buffer n ! t) = 2048" using wf t by (simp add: nic_wf_def)
  define buf where "buf = take k pkt @ drop k (tx_pkt_buffer n ! t)"
  define d where "d = (tx_desc_array n ! t)\<lparr>tx_length := of_nat k,
    tx_status := tx_status (tx_desc_array n ! t) AND NOT E1000_TXD_STAT_DD,
    tx_cmd := tx_cmd (tx_desc_array n ! t) OR E1000_TXD_CMD_EOP\<rparr>"
  define n' where "n' = e1000_write_reg E1000_TDT (of_nat ((t + 1) mod TXDESCS))
    (n\<lparr>tx_desc_array := (tx_desc_array n)[t := d], tx_pkt_buffer := (tx_pkt_buffer n)[t := buf]\<rparr>)"
  have "unat (of_int (int k) :: u32) = k" using k by (simp add: unat_of_nat)
  then have tr: "e1000_transmit pkt (int k) n = Some (int k, n')"
    using np t lb k wf memcpy_take [of k "tx_pkt_buffer n ! t" pkt]
    by (simp add: e1000_transmit_def e1000_read_reg_def tdt pending_def nic_wf_def n'_def d_def buf_def Let_def)
  have len: "length (tx_desc_array n) = 64" "length (tx_pkt_buffer n) = 64" using wf by (simp_all add: nic_wf_def)
  have ot: "(h + j) mod 64 \<noteq> t" if "j < 64" "j \<noteq> length ps" for j
    using ring_index_inj [of j "length ps" h] that l by (auto simp: t_def)
  have pend': "pending n' i \<longleftrightarrow> i = t \<or> pending n i" if "i < 64" for i
    using that t len dd_bit by (cases "i = t")
      (simp_all add: pending_def n'_def d_def e1000_write_reg_def E1000_TXD_STAT_DD_def)
  have slot': "slot n' i = (if i = t then take k pkt else slot n i)" if "i < 64" for i
    using that t len k lb by (simp add: slot_def n'_def d_def e1000_write_reg_def buf_def unat_of_nat)
  have "unat (e1000_regs n' E1000_TDT) = (h + length (ps @ [take k pkt])) mod 64"
    by (simp add: n'_def e1000_write_reg_def TXDESCS_def u32_small t_def mod_simps)
  moreover have "nic_wf n'"
    using wf k lb t by (auto simp: nic_wf_def n'_def e1000_write_reg_def TXDESCS_def buf_def reg_defs
        word_less_nat_alt u32_small dest!: set_update_subset_insert [THEN subsetD])
  moreover have "pending n' ((h + j) mod 64) \<longleftrightarrow> j < length (ps @ [take k pkt])" if "j < 64" for j
    using pend' [of "(h + j) mod 64"] pend ot [OF that] that by (cases "j = length ps") (auto simp: t_def)
  moreover have "slot n' ((h + j) mod 64) = (ps @ [take k pkt]) ! j" if "j < length (ps @ [take k pkt])" for j
    using slot' [of "(h + j) mod 64"] slots ot [of j] that l
    by (cases "j = length ps") (auto simp: t_def nth_append)
  ultimately show ?thesis using tr h l by (intro exI [of _ n']) (simp add: tx_ring_def)
qed

lemma transmit_full:
  assumes "tx_ring (h, n) ps" "length ps = 64" shows "e1000_transmit pkt k n = Some (0, n)"
proof -
  have "h < 64" "\<forall>k<64. pending n ((h + k) mod 64)" using assms by (simp_all add: tx_ring_def)
  then have "h < 64" "pending n h" by (simp, metis add_0_right mod_less zero_less_numeral)
  moreover have "unat (e1000_regs n E1000_TDT) = h" using assms \<open>h < 64\<close> by (simp add: tx_ring_def)
  ultimately show ?thesis using assms
    by (simp add: e1000_transmit_def e1000_read_reg_def pending_def tx_ring_def nic_wf_def Let_def)
qed

lemma tx_pop_first:
  assumes "tx_ring (h, n) (p # ps)"
  shows "\<exists>n'. tx_pop (h, n) = Some (p, (h + 1) mod 64, n') \<and> tx_ring ((h + 1) mod 64, n') ps"
proof -
  have wf: "nic_wf n" and h: "h < 64" and l: "length ps < 64"
    and tdt: "unat (e1000_regs n E1000_TDT) = (h + length (p # ps)) mod 64"
    and pend: "\<forall>k<64. pending n ((h + k) mod 64) \<longleftrightarrow> k < length (p # ps)"
    and slots: "\<forall>k<length (p # ps). slot n ((h + k) mod 64) = (p # ps) ! k"
    using assms by (simp_all add: tx_ring_def)
  have ph: "pending n h" "slot n h = p" using pend slots h by (metis add_0_right length_greater_0_conv
      list.distinct(1) mod_less nth_Cons_0 zero_less_numeral)+
  define n' where "n' = n\<lparr>tx_desc_array := (tx_desc_array n)[h :=
       (tx_desc_array n ! h)\<lparr>tx_status := tx_status (tx_desc_array n ! h) OR E1000_TXD_STAT_DD\<rparr>]\<rparr>"
  have len: "length (tx_desc_array n) = 64" using wf by (simp add: nic_wf_def)
  have pend': "pending n' i \<longleftrightarrow> i \<noteq> h \<and> pending n i" if "i < 64" for i
    using that h len dd_bit by (cases "i = h") (simp_all add: pending_def n'_def E1000_TXD_STAT_DD_def)
  have slot': "slot n' i = slot n i" if "i < 64" for i
    using that h len by (cases "i = h") (simp_all add: slot_def n'_def)
  have nx: "((h + 1) mod 64 + j) mod 64 = (h + Suc j) mod 64" for j by (simp add: mod_simps)
  have "pending n' (((h + 1) mod 64 + j) mod 64) \<longleftrightarrow> j < length ps" if "j < 64" for j
    using ring_shift [OF h pend pend' l le_refl that] unfolding nx .
  moreover have "slot n' (((h + 1) mod 64 + j) mod 64) = ps ! j" if "j < length ps" for j
    using slot' [of "(h + Suc j) mod 64"] slots that unfolding nx by force
  moreover have "nic_wf n'" using wf by (simp add: nic_wf_def n'_def)
  moreover have "unat (e1000_regs n' E1000_TDT) = ((h + 1) mod 64 + length ps) mod 64"
    using tdt unfolding nx by (simp add: n'_def)
  ultimately show ?thesis using l ph
    by (intro exI [of _ n']) (simp add: tx_ring_def tx_pop_def n'_def [symmetric])
qed

interpretation txring: bounded_fifo tx_ring 64 tx_packet tx_push tx_pop
proof unfold_locales
  show "\<exists>s'. tx_push x s = Some s' \<and> tx_ring s' (q @ [x])"
    if "tx_ring s q" "tx_packet x" "length q < 64" for s q x
    using transmit_room [of "fst s" "snd s" q "length x" x] that
    by (cases s) (auto simp: tx_push_def tx_packet_def)
  show "tx_push x s = None" if "tx_ring s q" "tx_packet x" "\<not> length q < 64" for s q x
    using transmit_full [of "fst s" "snd s" q] that by (cases s) (auto simp: tx_push_def tx_ring_def)
  show "\<exists>s'. tx_pop s = Some (x, s') \<and> tx_ring s' q" if "tx_ring s (x # q)" for s x q
    using tx_pop_first [of "fst s" "snd s" x q] that by (cases s) auto
  show "tx_pop s = None" if "tx_ring s []" for s
  proof (cases s)
    case (Pair h n)
    then have "h < 64" "\<forall>k<64. \<not> pending n ((h + k) mod 64)" using that by (simp_all add: tx_ring_def)
    then have "\<not> pending n h" by (metis add_0_right mod_less zero_less_numeral)
    then show ?thesis using Pair by (simp add: tx_pop_def)
  qed
qed

section \<open>The receive ring\<close>

text \<open>
  The device fills slots from its head \<open>h\<close> up to, but not including, the tail register; the driver
  reads the slot after the tail. \<open>rx_ring (h, n) ps\<close>: the packets \<open>ps\<close> are delivered and not yet
  read.
\<close>

definition rx_holds :: "e1000_state \<Rightarrow> nat \<Rightarrow> u8 list \<Rightarrow> bool" where
  "rx_holds n i p \<longleftrightarrow> tx_packet p \<and> unat (rx_length (rx_desc_array n ! i)) = length p \<and>
     take (length p) (rx_pkt_buffer n ! i) = p"

definition filled :: "e1000_state \<Rightarrow> nat \<Rightarrow> bool" where
  "filled n i \<longleftrightarrow> rx_status (rx_desc_array n ! i) AND E1000_RXD_STAT_DD \<noteq> 0"

definition rx_first :: "e1000_state \<Rightarrow> nat" where
  "rx_first n = (unat (e1000_regs n E1000_RDT) + 1) mod 64"

definition rx_ring :: "nat \<times> e1000_state \<Rightarrow> u8 list list \<Rightarrow> bool" where
  "rx_ring hn ps \<longleftrightarrow> (case hn of (h, n) \<Rightarrow> nic_wf n \<and> length ps \<le> 63 \<and>
     h = (rx_first n + length ps) mod 64 \<and>
     (\<forall>k<64. filled n ((rx_first n + k) mod 64) \<longleftrightarrow> k < length ps) \<and>
     (\<forall>k<length ps. rx_holds n ((rx_first n + k) mod 64) (ps ! k)))"

text \<open>The device stores a packet it received, unless its head has reached the tail.\<close>

definition rx_push :: "u8 list \<Rightarrow> nat \<times> e1000_state \<Rightarrow> (nat \<times> e1000_state) option" where
  "rx_push pkt hn = (case hn of (h, n) \<Rightarrow>
     if h = unat (e1000_regs n E1000_RDT) then None
     else Some ((h + 1) mod 64, n\<lparr>rx_desc_array := (rx_desc_array n)[h := (rx_desc_array n ! h)
         \<lparr>rx_length := of_nat (length pkt), rx_status := rx_status (rx_desc_array n ! h) OR E1000_RXD_STAT_DD\<rparr>],
       rx_pkt_buffer := (rx_pkt_buffer n)[h := pkt @ drop (length pkt) (rx_pkt_buffer n ! h)]\<rparr>))"

text \<open>The driver's read into a buffer of the size of a slot.\<close>

definition rx_pop :: "nat \<times> e1000_state \<Rightarrow> (u8 list \<times> nat \<times> e1000_state) option" where
  "rx_pop hn = (case e1000_poll (replicate 2048 0) (snd hn) of
      Some (len, buf, n') \<Rightarrow> if len = 0 then None else Some (take (nat len) buf, fst hn, n') | None \<Rightarrow> None)"

lemma rdt_next:
  assumes "nic_wf n" shows "unat ((e1000_regs n E1000_RDT + 1) mod of_nat RXDESCS) = rx_first n"
proof -
  have "unat (e1000_regs n E1000_RDT) < 64" using assms by (simp add: nic_wf_def word_less_nat_alt)
  then have "unat (e1000_regs n E1000_RDT + 1) = unat (e1000_regs n E1000_RDT) + 1"
    by (simp add: unat_word_ariths)
  then show ?thesis by (simp add: rx_first_def RXDESCS_def unat_mod_distrib)
qed

lemma poll_first:
  assumes r: "rx_ring (h, n) (p # ps)" and b: "length p \<le> length buf"
  shows "\<exists>n'. e1000_poll buf n = Some (int (length p), p @ drop (length p) buf, n') \<and> rx_ring (h, n') ps"
proof -
  define f where "f = rx_first n"
  have wf: "nic_wf n" and l: "length ps < 63" and h: "h = (f + length (p # ps)) mod 64"
    and fl: "\<forall>k<64. filled n ((f + k) mod 64) \<longleftrightarrow> k < length (p # ps)"
    and sl: "\<forall>k<length (p # ps). rx_holds n ((f + k) mod 64) ((p # ps) ! k)"
    using r by (simp_all add: rx_ring_def f_def)
  have f: "f < 64" by (simp add: f_def rx_first_def)
  have f0: "filled n f" "rx_holds n f p"
    using spec [OF fl, of 0] spec [OF sl, of 0] f by simp_all
  have len: "length (rx_desc_array n) = 64" "length (rx_pkt_buffer n) = 64" "length (rx_pkt_buffer n ! f) = 2048"
    using wf f by (simp_all add: nic_wf_def)
  define n' where "n' = e1000_write_reg E1000_RDT (of_nat f) (n\<lparr>rx_desc_array := (rx_desc_array n)
    [f := (rx_desc_array n ! f)\<lparr>rx_status := rx_status (rx_desc_array n ! f) AND NOT E1000_RXD_STAT_DD\<rparr>]\<rparr>)"
  have e: "e1000_poll buf n = Some (int (length p), p @ drop (length p) buf, n')"
    using f0 f len memcpy_take [of "length p" buf "rx_pkt_buffer n ! f"] b
    unfolding e1000_poll_def e1000_read_reg_def rdt_next [OF wf] f_def [symmetric]
    by (simp add: filled_def rx_holds_def tx_packet_def n'_def Let_def)
  have f': "rx_first n' = (f + 1) mod 64"
    using f by (simp add: rx_first_def n'_def e1000_write_reg_def u32_small)
  have nx: "(rx_first n' + j) mod 64 = (f + Suc j) mod 64" for j unfolding f' by (simp add: mod_simps)
  have fl': "filled n' i \<longleftrightarrow> i \<noteq> f \<and> filled n i" if "i < 64" for i
    using that f len dd_bit by (cases "i = f")
      (simp_all add: filled_def n'_def e1000_write_reg_def E1000_RXD_STAT_DD_def)
  have sl': "rx_holds n' i q = rx_holds n i q" if "i < 64" for i q
    using that f len by (cases "i = f") (simp_all add: rx_holds_def n'_def e1000_write_reg_def)
  have "filled n' ((rx_first n' + j) mod 64) \<longleftrightarrow> j < length ps" if "j < 64" for j
    using ring_shift [OF f fl fl' l _ that] unfolding nx by simp
  moreover have "rx_holds n' ((rx_first n' + j) mod 64) (ps ! j)" if "j < length ps" for j
    using sl' [of "(f + Suc j) mod 64"] spec [OF sl, of "Suc j"] that unfolding nx by simp
  moreover have "nic_wf n'" using wf f by (simp add: nic_wf_def n'_def e1000_write_reg_def reg_defs word_less_nat_alt u32_small)
  moreover have "h = (rx_first n' + length ps) mod 64" using h unfolding nx by simp
  ultimately show ?thesis using e l by (intro exI [of _ n']) (simp add: rx_ring_def)
qed

lemma rx_push_room:
  assumes r: "rx_ring (h, n) ps" and p: "tx_packet p" and room: "length ps < 63"
  shows "\<exists>n'. rx_push p (h, n) = Some ((h + 1) mod 64, n') \<and> rx_ring ((h + 1) mod 64, n') (ps @ [p])"
proof -
  define f where "f = rx_first n"
  have wf: "nic_wf n" and h: "h = (f + length ps) mod 64"
    and fl: "\<forall>k<64. filled n ((f + k) mod 64) \<longleftrightarrow> k < length ps"
    and sl: "\<forall>k<length ps. rx_holds n ((f + k) mod 64) (ps ! k)"
    using r by (simp_all add: rx_ring_def f_def)
  have hl: "h < 64" by (simp add: h)
  have rdt: "unat (e1000_regs n E1000_RDT) = (f + 63) mod 64"
    using wf by (simp add: f_def rx_first_def nic_wf_def word_less_nat_alt mod_simps)
  have ne: "h \<noteq> unat (e1000_regs n E1000_RDT)"
    using ring_index_inj [of "length ps" 63 f] room unfolding rdt h by auto
  have len: "length (rx_desc_array n) = 64" "length (rx_pkt_buffer n) = 64" "length (rx_pkt_buffer n ! h) = 2048"
    using wf hl by (simp_all add: nic_wf_def)
  define n' where "n' = n\<lparr>rx_desc_array := (rx_desc_array n)[h := (rx_desc_array n ! h)
         \<lparr>rx_length := of_nat (length p), rx_status := rx_status (rx_desc_array n ! h) OR E1000_RXD_STAT_DD\<rparr>],
       rx_pkt_buffer := (rx_pkt_buffer n)[h := p @ drop (length p) (rx_pkt_buffer n ! h)]\<rparr>"
  have f': "rx_first n' = f" by (simp add: rx_first_def n'_def f_def)
  have fl': "filled n' i \<longleftrightarrow> i = h \<or> filled n i" if "i < 64" for i
    using that hl len dd_bit by (cases "i = h") (simp_all add: filled_def n'_def E1000_RXD_STAT_DD_def)
  have sl': "rx_holds n' i q = (if i = h then q = p else rx_holds n i q)"
    if "i < 64" "length q = length p" for i q
    using that hl len p by (cases "i = h") (auto simp: rx_holds_def n'_def tx_packet_def unat_of_nat)
  have slh: "rx_holds n' h p" using sl' [of h p] hl by simp
  have slo: "rx_holds n' i q = rx_holds n i q" if "i < 64" "i \<noteq> h" for i q
    using that hl len by (simp add: rx_holds_def n'_def)
  have ot: "(f + j) mod 64 \<noteq> h" if "j < 64" "j \<noteq> length ps" for j
    using ring_index_inj [of j "length ps" f] that room by (auto simp: h)
  have "filled n' ((f + j) mod 64) \<longleftrightarrow> j < length (ps @ [p])" if "j < 64" for j
    using fl' [of "(f + j) mod 64"] fl ot [OF that] that by (cases "j = length ps") (auto simp: h)
  moreover have "rx_holds n' ((f + j) mod 64) ((ps @ [p]) ! j)" if "j < length (ps @ [p])" for j
    using slo [of "(f + j) mod 64"] slh sl ot [of j] that room
    by (cases "j = length ps") (auto simp: h nth_append)
  moreover have "nic_wf n'"
    using wf p len by (auto simp: nic_wf_def n'_def tx_packet_def dest!: set_update_subset_insert [THEN subsetD])
  moreover have "(h + 1) mod 64 = (f + length (ps @ [p])) mod 64" by (simp add: h mod_simps)
  ultimately show ?thesis using ne room
    by (intro exI [of _ n']) (simp add: rx_ring_def rx_push_def n'_def [symmetric] f')
qed

interpretation rxring: bounded_fifo rx_ring 63 tx_packet rx_push rx_pop
proof unfold_locales
  show "\<exists>s'. rx_push x s = Some s' \<and> rx_ring s' (q @ [x])"
    if "rx_ring s q" "tx_packet x" "length q < 63" for s q x
    using rx_push_room [of "fst s" "snd s" q x] that by (cases s) auto
  show "rx_push x s = None" if "rx_ring s q" "tx_packet x" "\<not> length q < 63" for s q x
  proof (cases s)
    case (Pair h n)
    then have "length q = 63" "h = (rx_first n + 63) mod 64" "nic_wf n" using that by (auto simp: rx_ring_def)
    then have "h = unat (e1000_regs n E1000_RDT)" by (simp add: rx_first_def nic_wf_def word_less_nat_alt mod_simps)
    then show ?thesis using Pair by (simp add: rx_push_def)
  qed
  show "\<exists>s'. rx_pop s = Some (x, s') \<and> rx_ring s' q" if "rx_ring s (x # q)" for s x q
  proof (cases s)
    case (Pair h n)
    then have "rx_holds n ((rx_first n + 0) mod 64) x" using that unfolding rx_ring_def by fastforce
    then have "0 < length x" "length x \<le> length (replicate 2048 (0::u8))" by (simp_all add: rx_holds_def tx_packet_def)
    then show ?thesis using poll_first [of h n x q "replicate 2048 0"] that Pair by (auto simp: rx_pop_def)
  qed
  show "rx_pop s = None" if "rx_ring s []" for s
  proof (cases s)
    case (Pair h n)
    then have "nic_wf n" "\<forall>k<64. \<not> filled n ((rx_first n + k) mod 64)" using that by (simp_all add: rx_ring_def)
    moreover from this have "\<not> filled n (rx_first n)" by (metis add_0_right mod_mod_trivial rx_first_def zero_less_numeral)
    moreover have "length (rx_desc_array n) = 64" "rx_first n < 64" using \<open>nic_wf n\<close> by (simp_all add: nic_wf_def rx_first_def)
    ultimately show ?thesis using Pair
      by (simp add: rx_pop_def e1000_poll_def e1000_read_reg_def rdt_next filled_def Let_def)
  qed
qed

section \<open>Initialisation\<close>

lemma wait_icr_returns:
  assumes "icr n (icr_reads n + k) = 0" shows "\<exists>m. wait_icr n = Some (n\<lparr>icr_reads := m\<rparr>)"
  using assms
proof (induction k arbitrary: n)
  case 0
  then show ?case by (subst wait_icr.simps) auto
next
  case (Suc k)
  define n1 where "n1 = n\<lparr>icr_reads := icr_reads n + 1\<rparr>"
  have "\<exists>m. wait_icr n1 = Some (n1\<lparr>icr_reads := m\<rparr>)" using Suc.prems by (intro Suc.IH) (simp add: n1_def)
  then show ?case by (subst wait_icr.simps) (auto simp: n1_def Let_def)
qed

text \<open>The state before initialisation: arrays of the right size and no packet received.\<close>

definition nic_boot_ok :: "e1000_state \<Rightarrow> bool" where
  "nic_boot_ok n \<longleftrightarrow> length (tx_pkt_buffer n) = 64 \<and> length (rx_pkt_buffer n) = 64 \<and>
     (\<forall>b\<in>set (tx_pkt_buffer n). length b = 2048) \<and> (\<forall>b\<in>set (rx_pkt_buffer n). length b = 2048) \<and>
     (\<forall>i<64. rx_status (rx_desc_array n ! i) = 0)"

lemma configure_rings:
  assumes "nic_boot_ok n"
  shows "tx_ring (0, e1000_configure_rx (e1000_configure_tx n)) [] \<and>
    rx_ring (0, e1000_configure_rx (e1000_configure_tx n)) []"
proof -
  define n' where "n' = e1000_configure_rx (e1000_configure_tx n)"
  have regs: "e1000_regs n' E1000_TDT = 0" "e1000_regs n' E1000_RDT = 63"
    by (simp_all add: n'_def e1000_configure_rx_def e1000_configure_tx_def Let_def e1000_write_reg_def
        e1000_write_reg_array_def RXDESCS_def reg_defs)
  have bufs: "tx_pkt_buffer n' = tx_pkt_buffer n" "rx_pkt_buffer n' = rx_pkt_buffer n"
    by (simp_all add: n'_def e1000_configure_rx_def e1000_configure_tx_def Let_def e1000_write_reg_def
        e1000_write_reg_array_def)
  have descs: "length (tx_desc_array n') = 64" "length (rx_desc_array n') = 64"
    "\<And>i. i < 64 \<Longrightarrow> tx_status (tx_desc_array n' ! i) = tx_status (tx_desc_array n ! i) OR 1"
    "\<And>i. i < 64 \<Longrightarrow> rx_status (rx_desc_array n' ! i) = rx_status (rx_desc_array n ! i)"
    by (simp_all add: n'_def e1000_configure_rx_def e1000_configure_tx_def Let_def e1000_write_reg_def
        e1000_write_reg_array_def TXDESCS_def RXDESCS_def E1000_TXD_STAT_DD_def)
  have "nic_wf n'" using assms regs bufs descs by (simp add: nic_wf_def nic_boot_ok_def)
  then show ?thesis using assms regs descs dd_bit(2) unfolding n'_def [symmetric]
    by (simp add: tx_ring_def rx_ring_def rx_first_def pending_def filled_def E1000_TXD_STAT_DD_def nic_boot_ok_def)
qed

definition nic_boot :: e1000_state where
  "nic_boot = \<lparr>e1000_regs = \<lambda>_. 0, icr = \<lambda>k. if k < 2 then 4 else 0, icr_reads = 0,
     tx_desc_array = replicate 64 \<lparr>tx_addr = 0, tx_length = 0, tx_cso = 0, tx_cmd = 0, tx_status = 0, tx_css = 0, tx_special = 0\<rparr>,
     rx_desc_array = replicate 64 \<lparr>rx_addr = 0, rx_length = 0, rx_csum = 0, rx_status = 0, rx_errors = 0, rx_special = 0\<rparr>,
     tx_pkt_buffer = replicate 64 (replicate 2048 0), rx_pkt_buffer = replicate 64 (replicate 2048 0),
     tx_desc_base = 0xffffffc050300000, rx_desc_base = 0xffffffc050301000,
     tx_pkt_base = 0xffffffc050310000, rx_pkt_base = 0xffffffc050330000\<rparr>"

lemma nic_boot_ok_boot: "nic_boot_ok nic_boot"
  by (simp add: nic_boot_ok_def nic_boot_def)

section \<open>Properties\<close>

text \<open>
  If the pending interrupt causes are ever read as 0, \<^verbatim>\<open>e1000_init\<close> returns with both rings
  empty: every transmit descriptor free with the tail at slot 0, and the device's receive window
  open on slots 0 to 62.
\<close>
theorem e1000_init_rings:
  assumes "nic_boot_ok n" "icr n (icr_reads n + k) = 0"
  shows "\<exists>n'. e1000_init n = Some n' \<and> tx_ring (0, n') [] \<and> rx_ring (0, n') [] \<and>
    e1000_regs n' E1000_TCTL = 0x4010A \<and> e1000_regs n' E1000_RCTL = 0x8002"
proof -
  define n1 where "n1 = e1000_write_reg E1000_IMC 0xffffffff (e1000_write_reg E1000_RDT 0
    (e1000_write_reg E1000_RDH 0 (e1000_write_reg E1000_TDT 0 (e1000_write_reg E1000_TDH 0
    (e1000_write_reg E1000_TCTL 0 (e1000_write_reg E1000_RCTL 0 n))))))"
  have "icr n1 (icr_reads n1 + k) = 0" using assms(2) by (simp add: n1_def e1000_write_reg_def)
  then obtain m where w: "wait_icr n1 = Some (n1\<lparr>icr_reads := m\<rparr>)" using wait_icr_returns by blast
  define n2 where "n2 = n1\<lparr>icr_reads := m\<rparr>"
  have "nic_boot_ok n2" using assms(1) by (simp add: nic_boot_ok_def n2_def n1_def e1000_write_reg_def)
  moreover have "e1000_init n = Some (e1000_configure_rx (e1000_configure_tx n2))"
    using w by (simp add: e1000_init_def e1000_reset_def Let_def n1_def n2_def)
  moreover have "e1000_regs (e1000_configure_rx (e1000_configure_tx n2)) E1000_TCTL = 0x4010A"
    "e1000_regs (e1000_configure_rx (e1000_configure_tx n2)) E1000_RCTL = 0x8002"
    by (simp_all add: e1000_configure_rx_def e1000_configure_tx_def Let_def e1000_write_reg_def
        e1000_write_reg_array_def reg_defs)
  ultimately show ?thesis using configure_rings [of n2] by simp
qed

theorem e1000_init_rings_witness:
  "\<exists>n'. e1000_init nic_boot = Some n' \<and> tx_ring (0, n') [] \<and> rx_ring (0, n') [] \<and>
    e1000_regs n' E1000_TCTL = 0x4010A \<and> e1000_regs n' E1000_RCTL = 0x8002"
proof -
  have "icr nic_boot (icr_reads nic_boot + 2) = 0" by (simp add: nic_boot_def)
  then show ?thesis using e1000_init_rings [OF nic_boot_ok_boot] by blast
qed



text \<open>
  C25: the receive ring is first-in first-out. In any interleaving of packets arriving at the device
  and \<^verbatim>\<open>e1000_poll\<close> calls, the packets read are exactly the ones the device stored, in order and
  unchanged, followed by those still in the ring; the device has room for 63 packets.
\<close>
theorem receive_fifo:
  assumes "rx_ring (h, n) q" "\<forall>x. Push x \<in> set es \<longrightarrow> tx_packet x"
    and "ring_run rx_push rx_pop es (h, n) = (arrived, got, h', n')"
  shows "\<exists>q'. rx_ring (h', n') q' \<and> q @ arrived = got @ q'"
  using rxring.run_fifo [OF assms] .

theorem receive_fifo_witness:
  "\<exists>n arrived got h' n' q'.
     ring_run rx_push rx_pop [Push [1, 2, 3], Pop, Pop, Push [5, 6]] (0, n) = (arrived, got, h', n') \<and>
     rx_ring (h', n') q' \<and> [] @ arrived = got @ q'"
proof -
  define n where "n = e1000_configure_rx (e1000_configure_tx nic_boot)"
  have t: "rx_ring (0, n) []" using configure_rings [OF nic_boot_ok_boot] by (simp add: n_def)
  obtain acc out h' n' where
    r: "ring_run rx_push rx_pop [Push [1, 2, 3], Pop, Pop, Push [5, 6]] (0, n) = (acc, out, h', n')"
    by (metis prod_cases4)
  show ?thesis using receive_fifo [OF t _ r] r by (fastforce simp: tx_packet_def)
qed

end
