(* ===== verification/Sched.thy ===== *)
theory Sched
  imports MM_Pages E1000
begin

text \<open>
  The kernel state and the scheduler: \<open>src/include/os/sched.h\<close>, the scheduling half of
  \<open>src/kernel/sched/sched.c\<close>, \<open>src/kernel/sched/time.c\<close> and the wake-ups of
  \<open>src/kernel/net/net.c\<close>. A context switch (\<^verbatim>\<open>switch_to\<close>) saves registers on the kernel stack of
  the old process and loads those of the new one; in the state it is the change of
  \<open>current_running\<close>, which \<^verbatim>\<open>find_idle_task\<close> makes just before. A process runs while it stays in
  the ready queue with status \<open>TASK_RUNNING\<close>.
\<close>

section \<open>State\<close>

datatype task_status_t = TASK_BLOCKED | TASK_RUNNING | TASK_READY | TASK_EXITED

record pcb_t =
  kernel_sp :: u64
  user_sp :: u64
  trapframe :: u64
  switchto_context :: u64
  pgdir :: u64
  pid :: int
  tid :: int
  status :: task_status_t
  cursor_x :: int
  cursor_y :: int
  wakeup_time :: u64
  cwd_inum :: int
  pname :: "u8 list"

datatype lock_status_t = UNLOCKED | LOCKED

record mutex_lock_t =
  mlock :: lock_status_t
  mkey :: int
  mpid :: int

record barrier_t =
  bcurrent :: int
  goal :: int
  bkey :: int

record condition_t =
  ckey :: int

record mailbox_t =
  mbname :: "u8 list"
  mbbuf :: "u8 list"
  mutex_id :: int
  mbref :: int
  nread :: int
  nwrite :: int
  round_read :: int
  round_write :: int

record task_info_t =
  tname :: "u8 list"
  sectors_num :: int
  filesz :: int
  memsz :: int

text \<open>
  The kernel's variables on top of the memory manager's. \<open>cpu\<close> is the hart that runs the kernel
  (under the kernel lock only one does), \<open>rdtime k\<close> the value the \<open>k\<close>-th execution of the
  \<^verbatim>\<open>rdtime\<close> instruction returns, \<open>timer_irq\<close> the last value given to \<^verbatim>\<open>set_timer\<close>. \<open>pcb_addr\<close> and
  \<open>ret_from_kernel_addr\<close> are addresses fixed by the linker.
\<close>

record 'd kernel = "'d mm_state" +
  pcb :: "pcb_ref \<Rightarrow> pcb_t"
  threads :: "int list"
  runnings :: "pcb_ref list"
  current_running :: pcb_ref
  process_id :: int
  cpu :: nat
  satp :: u64
  rdtime :: "nat \<Rightarrow> u64"
  time_reads :: nat
  time_elapsed :: u64
  time_base :: u64
  timer_irq :: u64
  tasks :: "task_info_t list"
  tasks_num :: int
  kernel_sectors_num :: int
  mlocks :: "mutex_lock_t list"
  barriers :: "barrier_t list"
  conditions :: "condition_t list"
  mailboxes :: "mailbox_t list"
  nic :: e1000_state
  pcb_addr :: "pcb_ref \<Rightarrow> u64"
  ret_from_kernel_addr :: u64

definition NUM_MAX_TASK :: nat where "NUM_MAX_TASK = 16"
definition NUM_MAX_SUB_THREADS :: nat where "NUM_MAX_SUB_THREADS = 64"
definition LOCK_NUM :: nat where "LOCK_NUM = 16"
definition BARRIER_NUM :: nat where "BARRIER_NUM = 16"
definition CONDITION_NUM :: nat where "CONDITION_NUM = 16"
definition MBOX_NUM :: nat where "MBOX_NUM = 16"
definition MAX_MBOX_LENGTH :: int where "MAX_MBOX_LENGTH = 64"
definition PGDIR_VA :: u64 where "PGDIR_VA = 0xffffffc051000000"

text \<open>An assignment to a field of the process control block at \<open>p\<close>.\<close>

definition upd_pcb :: "pcb_ref \<Rightarrow> (pcb_t \<Rightarrow> pcb_t) \<Rightarrow> ('d, 'a) kernel_scheme \<Rightarrow> ('d, 'a) kernel_scheme" where
  "upd_pcb p f s = s\<lparr>pcb := (pcb s)(p := f (pcb s p))\<rparr>"

section \<open>Time\<close>

definition get_ticks :: "('d, 'a) kernel_scheme \<Rightarrow> u64 \<times> ('d, 'a) kernel_scheme" where
  "get_ticks s =
     (let t = rdtime s (time_reads s)
      in (t, s\<lparr>time_elapsed := t, time_reads := time_reads s + 1\<rparr>))"

text \<open>The instruction \<^verbatim>\<open>divu\<close> gives all ones when dividing by 0.\<close>

definition divu :: "u64 \<Rightarrow> u64 \<Rightarrow> u64" where
  "divu a b = (if b = 0 then - 1 else a div b)"

definition get_timer :: "('d, 'a) kernel_scheme \<Rightarrow> u64 \<times> ('d, 'a) kernel_scheme" where
  "get_timer s = (let (t, s1) = get_ticks s in (divu t (time_base s1), s1))"

partial_function (option) latency_loop ::
    "u64 \<Rightarrow> u64 \<Rightarrow> ('d, 'a) kernel_scheme \<Rightarrow> ('d, 'a) kernel_scheme option" where
  "latency_loop begin_time time s =
     (let (t, s1) = get_timer s
      in if t - begin_time < time then latency_loop begin_time time s1 else Some s1)"

definition latency :: "u64 \<Rightarrow> ('d, 'a) kernel_scheme \<Rightarrow> ('d, 'a) kernel_scheme option" where
  "latency time s = (let (t, s1) = get_timer s in latency_loop t time s1)"

section \<open>Choosing the next process\<close>

text \<open>
  \<^verbatim>\<open>switch_pgdir\<close>: the value written to \<^verbatim>\<open>satp\<close>; the ASID is the pid, an \<^verbatim>\<open>unsigned\<close>.
\<close>

definition satp_value :: "u32 \<Rightarrow> u32 \<Rightarrow> u64 \<Rightarrow> u64" where
  "satp_value mode asid ppn = push_bit 60 (ucast mode) OR push_bit 44 (ucast asid) OR ppn"

definition switch_pgdir :: "('d, 'a) kernel_scheme \<Rightarrow> ('d, 'a) kernel_scheme" where
  "switch_pgdir s =
     (let p = pcb s (current_running s)
      in s\<lparr>satp := satp_value 8 (of_int (pid p)) (drop_bit 12 (kva2pa (pgdir p)))\<rparr>)"

definition is_idle_cand :: "('d, 'a) kernel_scheme \<Rightarrow> node \<Rightarrow> bool" where
  "is_idle_cand s n = (case n of Pcb_list p \<Rightarrow> status (pcb s p) \<noteq> TASK_RUNNING | _ \<Rightarrow> False)"

definition pid0_of_cpu :: "('d, 'a) kernel_scheme \<Rightarrow> pcb_ref" where
  "pid0_of_cpu s = (if cpu s = 0 then Pid0_pcb else Pid0_pcb2)"

definition find_idle_task ::
    "'d sdcard \<Rightarrow> ('d, 'a) kernel_scheme \<Rightarrow> ('d, 'a) kernel_scheme option" where
  "find_idle_task B s = do {
     found \<leftarrow> (if is_queue_empty Ready_queue (lnk s) then Some None
               else list_find (is_idle_cand s) Ready_queue (nxt (lnk s) Ready_queue) (lnk s));
     let idle = (case found of Some (Pcb_list p) \<Rightarrow> p | _ \<Rightarrow> pid0_of_cpu s);
     let s1 = upd_pcb idle (\<lambda>p. p\<lparr>status := TASK_RUNNING\<rparr>) (s\<lparr>current_running := idle\<rparr>);
     swap_in_all_pages B (pgdir (pcb s1 idle))
       (s1\<lparr>runnings := (runnings s1)[cpu s1 := idle]\<rparr>)
   }"

section \<open>Blocking and waking\<close>

text \<open>The argument is the list node of a process; \<^verbatim>\<open>list_entry\<close> gives the process.\<close>

definition do_block ::
    "'d sdcard \<Rightarrow> node \<Rightarrow> node \<Rightarrow> ('d, 'a) kernel_scheme \<Rightarrow> ('d, 'a) kernel_scheme option" where
  "do_block B pcb_node queue s =
     (case pcb_node of
        Pcb_list p \<Rightarrow> do {
          s1 \<leftarrow> find_idle_task B (upd_pcb p (\<lambda>p. p\<lparr>status := TASK_BLOCKED\<rparr>)
                 (s\<lparr>lnk := list_add_tail pcb_node queue (list_delete_entry pcb_node (lnk s))\<rparr>));
          Some (switch_pgdir s1)
        }
      | _ \<Rightarrow> None)"

definition do_unblock ::
    "node \<Rightarrow> ('d, 'a) kernel_scheme \<Rightarrow> ('d, 'a) kernel_scheme option" where
  "do_unblock pcb_node s =
     (case pcb_node of
        Pcb_list p \<Rightarrow>
          (let s1 = upd_pcb p (\<lambda>p. p\<lparr>status := TASK_READY\<rparr>) (s\<lparr>lnk := list_delete_entry pcb_node (lnk s)\<rparr>)
           in Some (s1\<lparr>lnk := list_add_tail pcb_node Ready_queue (lnk s1)\<rparr>))
      | _ \<Rightarrow> None)"

definition do_sleep :: "'d sdcard \<Rightarrow> u32 \<Rightarrow> ('d, 'a) kernel_scheme \<Rightarrow> ('d, 'a) kernel_scheme option" where
  "do_sleep B sleep_time s =
     (let gonna_sleep = current_running s;
          (t, s1) = get_timer s
      in do_block B (Pcb_list gonna_sleep) Sleep_queue
           (upd_pcb gonna_sleep (\<lambda>p. p\<lparr>wakeup_time := t + ucast sleep_time\<rparr>) s1))"

text \<open>The loop \<^verbatim>\<open>while (!is_queue_empty(q)) do_unblock(q->next)\<close>, which wakes everybody in \<open>q\<close>.\<close>

definition unblock_all :: "node \<Rightarrow> ('d, 'a) kernel_scheme \<Rightarrow> ('d, 'a) kernel_scheme option" where
  "unblock_all queue s = list_drain lnk queue do_unblock s"

definition wake_sleeper :: "node \<Rightarrow> ('d, 'a) kernel_scheme \<Rightarrow> ('d, 'a) kernel_scheme option" where
  "wake_sleeper n s =
     (case n of
        Pcb_list p \<Rightarrow> (let (t, s1) = get_timer s
                       in if t \<ge> wakeup_time (pcb s1 p) then do_unblock n s1 else Some s1)
      | _ \<Rightarrow> None)"

definition check_sleeping :: "('d, 'a) kernel_scheme \<Rightarrow> ('d, 'a) kernel_scheme option" where
  "check_sleeping s = list_for_each_entry_safe lnk Sleep_queue wake_sleeper s"

definition check_net_send :: "('d, 'a) kernel_scheme \<Rightarrow> ('d, 'a) kernel_scheme option" where
  "check_net_send s =
     (if is_tx_desc_stat_dd (nic s)
      then list_for_each_entry_safe lnk Send_block_queue do_unblock s else Some s)"

definition check_net_recv :: "('d, 'a) kernel_scheme \<Rightarrow> ('d, 'a) kernel_scheme option" where
  "check_net_recv s =
     (if is_rx_desc_stat_dd (nic s)
      then list_for_each_entry_safe lnk Recv_block_queue do_unblock s else Some s)"

section \<open>The scheduler\<close>

definition do_scheduler :: "'d sdcard \<Rightarrow> ('d, 'a) kernel_scheme \<Rightarrow> ('d, 'a) kernel_scheme option" where
  "do_scheduler B s = do {
     s1 \<leftarrow> check_sleeping s;
     s2 \<leftarrow> check_net_send s1;
     s3 \<leftarrow> check_net_recv s2;
     let before_running = current_running s3;
     let s4 = upd_pcb before_running (\<lambda>p. p\<lparr>status := TASK_READY\<rparr>) s3;
     let n = Pcb_list before_running;
     let s5 = (if before_running \<noteq> Pid0_pcb \<and> before_running \<noteq> Pid0_pcb2
               then s4\<lparr>lnk := list_add_tail n Ready_queue (list_delete_entry n (lnk s4))\<rparr> else s4);
     s6 \<leftarrow> find_idle_task B s5;
     Some (switch_pgdir s6)
   }"

definition handle_irq_timer :: "'d sdcard \<Rightarrow> ('d, 'a) kernel_scheme \<Rightarrow> ('d, 'a) kernel_scheme option" where
  "handle_irq_timer B s =
     (let (t, s1) = get_ticks s in do_scheduler B (s1\<lparr>timer_irq := t + 150000\<rparr>))"

definition do_getpid :: "('d, 'a) kernel_scheme \<Rightarrow> int" where
  "do_getpid s = pid (pcb s (runnings s ! cpu s))"

end
