(* ===== verification/Sched_Inv.thy ===== *)
theory Sched_Inv
  imports Sched
begin

text \<open>
  What the scheduler guarantees: the invariant that ties queues, statuses and the two harts
  together, its preservation by every scheduling operation, the round-robin order, and that a
  ready process is eventually run.
\<close>

section \<open>Frame lemmas\<close>

text \<open>The operations of the memory manager leave the kernel's own variables alone.\<close>

lemma more_kernel:
  fixes s s' :: "('d, 'a) kernel_scheme"
  assumes "mm_state.more s' = mm_state.more s"
  shows "pcb s' = pcb s" "threads s' = threads s" "runnings s' = runnings s"
    "current_running s' = current_running s" "process_id s' = process_id s" "cpu s' = cpu s"
    "satp s' = satp s" "rdtime s' = rdtime s" "time_reads s' = time_reads s" "time_base s' = time_base s"
    "mlocks s' = mlocks s" "barriers s' = barriers s" "conditions s' = conditions s"
    "mailboxes s' = mailboxes s" "nic s' = nic s" "tasks s' = tasks s" "kernel.more s' = kernel.more s"
  using assms by (cases s; cases s'; simp)+

text \<open>The page invariant only looks at the queues and at the page table.\<close>

lemma page_inv_cong:
  assumes "lnk s' = lnk s" "pages s' = pages s" "page_id s' = page_id s" "present_pages_num s' = present_pages_num s"
  shows "page_inv H Q P W s' = page_inv H Q P W s"
  using assms by (simp add: page_inv_def)

section \<open>Queues of processes\<close>

text \<open>
  \<open>kq H Q s\<close>: the queues of the kernel are \<open>Q\<close>, the page queues are in order, and every other
  queue holds processes of the table \<^verbatim>\<open>pcb[]\<close>.
\<close>

definition kq :: "node set \<Rightarrow> (node \<Rightarrow> node list) \<Rightarrow> ('d, 'a) kernel_scheme \<Rightarrow> bool" where
  "kq H Q s \<longleftrightarrow> (\<exists>P W. page_inv H Q P W s) \<and>
     {Ready_queue, Sleep_queue, Send_block_queue, Recv_block_queue} \<subseteq> H \<and>
     (\<forall>p. Pcb_list p \<notin> H) \<and>
     (\<forall>h\<in>H. h \<notin> page_heads \<longrightarrow> (\<forall>n\<in>set (Q h). \<exists>i. n = Pcb_list (Pcb i)))"

lemma kqI:
  assumes "page_inv H Q P W s" "{Ready_queue, Sleep_queue, Send_block_queue, Recv_block_queue} \<subseteq> H"
    and "\<And>p. Pcb_list p \<notin> H"
    and "\<And>h n. h \<in> H \<Longrightarrow> h \<notin> page_heads \<Longrightarrow> n \<in> set (Q h) \<Longrightarrow> \<exists>i. n = Pcb_list (Pcb i)"
  shows "kq H Q s"
  unfolding kq_def using assms(1) assms(2-4) by (intro conjI exI) auto

lemma kq_cong:
  assumes "lnk s' = lnk s" "pages s' = pages s" "page_id s' = page_id s" "present_pages_num s' = present_pages_num s"
  shows "kq H Q s' = kq H Q s"
  unfolding kq_def page_inv_cong [OF assms] ..

lemma kqD:
  assumes "kq H Q s"
  shows "queues H (lnk s) Q" "Ready_queue \<in> H" "Sleep_queue \<in> H" "Send_block_queue \<in> H" "Recv_block_queue \<in> H"
    "Pcb_list p \<notin> H" "h \<in> H \<Longrightarrow> h \<notin> page_heads \<Longrightarrow> n \<in> set (Q h) \<Longrightarrow> \<exists>i. n = Pcb_list (Pcb i)"
proof -
  obtain P W where "page_inv H Q P W s" using assms unfolding kq_def by blast
  then show "queues H (lnk s) Q" by (simp add: page_inv_def)
  show "Ready_queue \<in> H" "Sleep_queue \<in> H" "Send_block_queue \<in> H" "Recv_block_queue \<in> H" "Pcb_list p \<notin> H"
    using assms by (simp_all add: kq_def)
  show "h \<in> H \<Longrightarrow> h \<notin> page_heads \<Longrightarrow> n \<in> set (Q h) \<Longrightarrow> \<exists>i. n = Pcb_list (Pcb i)"
    using assms unfolding kq_def by blast
qed

lemma kq_queue:
  assumes "kq H Q s" "h \<in> H" shows "is_queue (lnk s) h (Q h)" "distinct (Q h)"
  using kqD(1) [OF assms(1)] assms(2) by (simp_all add: queues_def is_queue_def)

lemma kq_pcb:
  assumes "kq H Q s" "h \<in> H" "h \<notin> page_heads"
  obtains ps where "Q h = map (\<lambda>i. Pcb_list (Pcb i)) ps"
proof -
  have "\<forall>n\<in>set (Q h). \<exists>i. n = Pcb_list (Pcb i)" using kqD(7) [OF assms] by blast
  then have "\<exists>ps. Q h = map (\<lambda>i. Pcb_list (Pcb i)) ps" unfolding ex_map_conv by blast
  then show thesis using that by blast
qed

text \<open>Moving a process between two queues, in the shape every blocking operation has.\<close>

lemma kq_move:
  assumes k: "kq H Q s" and h: "h \<in> H" "h \<notin> page_heads" and g: "g \<in> H" "g \<notin> page_heads" and n: "n \<in> set (Q h)"
    and s': "lnk s' = list_add_tail n g (list_delete_entry n (lnk s))"
      "pages s' = pages s" "page_id s' = page_id s" "present_pages_num s' = present_pages_num s"
  shows "kq H (enq n g (deq n h Q)) s'"
proof -
  obtain P W where inv: "page_inv H Q P W s" using k by (auto simp: kq_def)
  obtain i where i: "n = Pcb_list (Pcb i)" using kqD(7) [OF k h n] by blast
  have q: "queues H (lnk s') (enq n g (deq n h Q))"
    unfolding s' using inv h g n by (intro klist.rep_move) (auto simp: page_inv_def)
  have same: "enq n g (deq n h Q) f = Q f" if "f \<in> page_heads" for f
    using that h g by (auto simp: enq_def deq_def)
  have sub: "set (enq n g (deq n h Q) f) \<subseteq> insert n (set (Q f))" for f
    by (auto simp: enq_def deq_def dest: notin_set_remove1)
  have "page_inv H (enq n g (deq n h Q)) P W s'"
  proof (rule page_invI [OF q])
    show "f \<in> {Present_pages_queue, Swapped_pages_queue}"
      if "f \<in> H" "Page_list j \<in> set (enq n g (deq n h Q) f)" for f j
      using inv that sub [of f] i unfolding page_inv_def by blast
    show "j < MAX_PFN \<and> pg_id (pages s' ! j) \<noteq> 0 \<longleftrightarrow> j \<in> set P \<union> set W" for j
      unfolding s'(2) using inv unfolding page_inv_def by blast
    show "\<And>i. Page_list i \<notin> H" "Present_pages_queue \<in> H" "Swapped_pages_queue \<in> H" "distinct (P @ W)"
      using inv unfolding page_inv_def by simp_all
    show "enq n g (deq n h Q) Present_pages_queue = map Page_list P"
      "enq n g (deq n h Q) Swapped_pages_queue = map Page_list W"
      using inv same unfolding page_inv_def by simp_all
    show "length (pages s') = MAX_PFN" "0 \<le> page_id s'" "present_pages_num s' = int (length P)"
      unfolding s'(2-4) using inv unfolding page_inv_def by simp_all
  qed
  then show ?thesis
  proof (rule kqI)
    show "\<exists>i. m = Pcb_list (Pcb i)"
      if "f \<in> H" "f \<notin> page_heads" "m \<in> set (enq n g (deq n h Q) f)" for f m
      using that(3) sub [of f] i kqD(7) [OF k that(1,2)] by blast
  qed (use kqD [OF k] in auto)
qed

section \<open>The operations on queues\<close>

text \<open>The process that runs next when the ready queue holds \<open>ps\<close>.\<close>

definition next_task :: "nat list \<Rightarrow> ('d, 'a) kernel_scheme \<Rightarrow> pcb_ref" where
  "next_task ps s = (case List.find (\<lambda>i. status (pcb s (Pcb i)) \<noteq> TASK_RUNNING) ps of
      Some i \<Rightarrow> Pcb i | None \<Rightarrow> pid0_of_cpu s)"

abbreviation pcb_nodes :: "nat list \<Rightarrow> node list" where
  "pcb_nodes ps \<equiv> map (\<lambda>i. Pcb_list (Pcb i)) ps"

lemma find_map: "List.find P (map f xs) = map_option f (List.find (P \<circ> f) xs)"
  by (induction xs) simp_all

lemma find_idle_task_spec:
  assumes k: "kq H Q s" and r: "Q Ready_queue = pcb_nodes ps"
  shows "\<exists>s' Q'. find_idle_task B s = Some s' \<and> kq H Q' s' \<and> (\<forall>h. h \<notin> page_heads \<longrightarrow> Q' h = Q h) \<and>
    mm_state.more s' = mm_state.more ((upd_pcb (next_task ps s) (\<lambda>p. p\<lparr>status := TASK_RUNNING\<rparr>)
      (s\<lparr>current_running := next_task ps s\<rparr>))\<lparr>runnings := (runnings s)[cpu s := next_task ps s]\<rparr>)"
proof -
  obtain P W where inv: "page_inv H Q P W s" using k by (auto simp: kq_def)
  have q: "is_queue (lnk s) Ready_queue (pcb_nodes ps)" using kq_queue(1) [OF k kqD(2) [OF k]] r by simp
  define found where "found = map_option (\<lambda>i. Pcb_list (Pcb i)) (List.find (\<lambda>i. status (pcb s (Pcb i)) \<noteq> TASK_RUNNING) ps)"
  have f: "(if is_queue_empty Ready_queue (lnk s) then Some None
      else list_find (is_idle_cand s) Ready_queue (nxt (lnk s) Ready_queue) (lnk s)) = Some found"
  proof (cases "ps = []")
    case True
    then show ?thesis using is_queue_empty_iff [OF q] by (simp add: found_def)
  next
    case False
    then show ?thesis using is_queue_empty_iff [OF q] list_find_queue [OF q]
      by (simp add: found_def find_map is_idle_cand_def comp_def)
  qed
  have idle: "(case found of Some (Pcb_list p) \<Rightarrow> p | _ \<Rightarrow> pid0_of_cpu s) = next_task ps s"
    by (simp add: found_def next_task_def split: option.splits)
  define s1 where "s1 = (upd_pcb (next_task ps s) (\<lambda>p. p\<lparr>status := TASK_RUNNING\<rparr>)
      (s\<lparr>current_running := next_task ps s\<rparr>))\<lparr>runnings := (runnings s)[cpu s := next_task ps s]\<rparr>"
  have e: "find_idle_task B s = swap_in_all_pages B (pgdir (pcb s1 (next_task ps s))) s1"
    unfolding find_idle_task_def f bind.bind_lunit idle Let_def by (simp add: s1_def upd_pcb_def)
  have "page_inv H Q P W s1" using inv page_inv_cong [of s1 s] by (simp add: s1_def upd_pcb_def)
  then obtain s' Q' P' W' where "find_idle_task B s = Some s'" "page_inv H Q' P' W' s'"
    "\<forall>h. h \<notin> page_heads \<longrightarrow> Q' h = Q h" "mm_state.more s' = mm_state.more s1"
    unfolding e using swap_in_all_pages_returns [of H Q P W s1 B] by fastforce
  moreover have "kq H Q' s'"
    by (rule kqI [OF calculation(2)]) (use kqD [OF k] calculation(3) in auto)
  ultimately show ?thesis unfolding s1_def by blast
qed

text \<open>\<^verbatim>\<open>switch_pgdir\<close> only writes \<^verbatim>\<open>satp\<close>.\<close>

lemma switch_pgdir_frame [simp]:
  "pcb (switch_pgdir s) = pcb s" "runnings (switch_pgdir s) = runnings s"
  "current_running (switch_pgdir s) = current_running s" "cpu (switch_pgdir s) = cpu s"
  "kq H Q (switch_pgdir s) = kq H Q s" "threads (switch_pgdir s) = threads s"
  "mlocks (switch_pgdir s) = mlocks s" "barriers (switch_pgdir s) = barriers s"
  "conditions (switch_pgdir s) = conditions s" "mailboxes (switch_pgdir s) = mailboxes s"
  "rdtime (switch_pgdir s) = rdtime s" "time_reads (switch_pgdir s) = time_reads s"
  "time_base (switch_pgdir s) = time_base s" "nic (switch_pgdir s) = nic s"
  by (simp_all add: switch_pgdir_def Let_def kq_def page_inv_def)

lemma do_unblock_spec:
  assumes k: "kq H Q s" and h: "h \<in> H" "h \<notin> page_heads" and p: "Pcb_list p \<in> set (Q h)"
  shows "\<exists>s'. do_unblock (Pcb_list p) s = Some s' \<and> kq H (enq (Pcb_list p) Ready_queue (deq (Pcb_list p) h Q)) s' \<and>
    mm_state.more s' = mm_state.more (upd_pcb p (\<lambda>p. p\<lparr>status := TASK_READY\<rparr>) s)"
proof -
  define s' where "s' = (upd_pcb p (\<lambda>p. p\<lparr>status := TASK_READY\<rparr>) s)
    \<lparr>lnk := list_add_tail (Pcb_list p) Ready_queue (list_delete_entry (Pcb_list p) (lnk s))\<rparr>"
  have "do_unblock (Pcb_list p) s = Some s'" by (simp add: do_unblock_def s'_def upd_pcb_def)
  moreover have "kq H (enq (Pcb_list p) Ready_queue (deq (Pcb_list p) h Q)) s'"
    by (rule kq_move [OF k h kqD(2) [OF k] _ p]) (simp_all add: s'_def upd_pcb_def)
  moreover have "mm_state.more s' = mm_state.more (upd_pcb p (\<lambda>p. p\<lparr>status := TASK_READY\<rparr>) s)"
    by (simp add: s'_def)
  ultimately show ?thesis by blast
qed

section \<open>The invariant\<close>

definition pid0_of :: "nat \<Rightarrow> pcb_ref" where
  "pid0_of c = (if c = 0 then Pid0_pcb else Pid0_pcb2)"

text \<open>Hart \<open>c\<close> runs a process of the ready queue that is marked as running, or its idle task.\<close>

definition hart_ok :: "(node \<Rightarrow> node list) \<Rightarrow> ('d, 'a) kernel_scheme \<Rightarrow> nat \<Rightarrow> bool" where
  "hart_ok Q s c = (case runnings s ! c of
      Pcb i \<Rightarrow> Pcb_list (Pcb i) \<in> set (Q Ready_queue) \<and> status (pcb s (Pcb i)) = TASK_RUNNING
    | r \<Rightarrow> r = pid0_of c)"

text \<open>A process is ready or running exactly in the ready queue; in any other queue it is blocked.\<close>

definition status_ok :: "node set \<Rightarrow> (node \<Rightarrow> node list) \<Rightarrow> ('d, 'a) kernel_scheme \<Rightarrow> bool" where
  "status_ok H Q s \<longleftrightarrow> (\<forall>h\<in>H. \<forall>i. Pcb_list (Pcb i) \<in> set (Q h) \<longrightarrow>
     (if h = Ready_queue then status (pcb s (Pcb i)) \<in> {TASK_READY, TASK_RUNNING}
      else status (pcb s (Pcb i)) = TASK_BLOCKED))"

lemma status_okD:
  assumes "status_ok H Q s" "h \<in> H" "Pcb_list (Pcb i) \<in> set (Q h)"
  shows "if h = Ready_queue then status (pcb s (Pcb i)) \<in> {TASK_READY, TASK_RUNNING}
      else status (pcb s (Pcb i)) = TASK_BLOCKED"
  using assms unfolding status_ok_def by blast

definition sched_inv :: "node set \<Rightarrow> (node \<Rightarrow> node list) \<Rightarrow> ('d, 'a) kernel_scheme \<Rightarrow> bool" where
  "sched_inv H Q s \<longleftrightarrow> kq H Q s \<and> status_ok H Q s \<and> length (runnings s) = 2 \<and> cpu s < 2 \<and>
     current_running s = runnings s ! cpu s \<and> hart_ok Q s 0 \<and> hart_ok Q s 1 \<and> runnings s ! 0 \<noteq> runnings s ! 1 \<and>
     (\<forall>i. Pcb_list (Pcb i) \<in> set (Q Ready_queue) \<and> status (pcb s (Pcb i)) = TASK_RUNNING \<longrightarrow>
        Pcb i \<in> set (runnings s))"

text \<open>The same after the process of the current hart has been taken off it.\<close>

definition off_inv :: "node set \<Rightarrow> (node \<Rightarrow> node list) \<Rightarrow> ('d, 'a) kernel_scheme \<Rightarrow> bool" where
  "off_inv H Q s \<longleftrightarrow> kq H Q s \<and> status_ok H Q s \<and> length (runnings s) = 2 \<and> cpu s < 2 \<and> hart_ok Q s (1 - cpu s) \<and>
     (\<forall>i. Pcb_list (Pcb i) \<in> set (Q Ready_queue) \<and> status (pcb s (Pcb i)) = TASK_RUNNING \<longrightarrow>
        runnings s ! (1 - cpu s) = Pcb i)"

lemma sched_invI:
  assumes "kq H Q s" "status_ok H Q s" "length (runnings s) = 2" "cpu s < 2"
    and "current_running s = runnings s ! cpu s" "hart_ok Q s 0" "hart_ok Q s 1" "runnings s ! 0 \<noteq> runnings s ! 1"
    and "\<And>i. Pcb_list (Pcb i) \<in> set (Q Ready_queue) \<Longrightarrow> status (pcb s (Pcb i)) = TASK_RUNNING \<Longrightarrow>
        Pcb i \<in> set (runnings s)"
  shows "sched_inv H Q s"
  unfolding sched_inv_def using assms by (intro conjI allI impI; (elim conjE)?) assumption+

lemma sched_invD:
  assumes "sched_inv H Q s"
  shows "kq H Q s" "status_ok H Q s" "length (runnings s) = 2" "cpu s < 2"
    "current_running s = runnings s ! cpu s" "hart_ok Q s 0" "hart_ok Q s 1" "runnings s ! 0 \<noteq> runnings s ! 1"
    "Pcb_list (Pcb i) \<in> set (Q Ready_queue) \<Longrightarrow> status (pcb s (Pcb i)) = TASK_RUNNING \<Longrightarrow>
        Pcb i \<in> set (runnings s)"
  using assms unfolding sched_inv_def by blast+

lemma sched_inv_cong:
  assumes "lnk s' = lnk s" "pages s' = pages s" "page_id s' = page_id s" "present_pages_num s' = present_pages_num s"
    and "\<And>r. status (pcb s' r) = status (pcb s r)" "runnings s' = runnings s" "cpu s' = cpu s"
      "current_running s' = current_running s"
  shows "sched_inv H Q s' = sched_inv H Q s"
  unfolding sched_inv_def kq_cong [OF assms(1-4)] status_ok_def hart_ok_def assms(5-8) ..

lemma find_idle_running:
  assumes off: "off_inv H Q s" and r: "Q Ready_queue = pcb_nodes ps"
  shows "\<exists>s' Q'. find_idle_task B s = Some s' \<and> sched_inv H Q' s' \<and> (\<forall>h. h \<notin> page_heads \<longrightarrow> Q' h = Q h) \<and>
    mm_state.more s' = mm_state.more ((upd_pcb (next_task ps s) (\<lambda>p. p\<lparr>status := TASK_RUNNING\<rparr>)
      (s\<lparr>current_running := next_task ps s\<rparr>))\<lparr>runnings := (runnings s)[cpu s := next_task ps s]\<rparr>)"
proof -
  have k: "kq H Q s" and st: "status_ok H Q s" and lr: "length (runnings s) = 2" and c: "cpu s < 2"
    and other: "hart_ok Q s (1 - cpu s)"
    and run: "\<And>i. Pcb_list (Pcb i) \<in> set (Q Ready_queue) \<Longrightarrow> status (pcb s (Pcb i)) = TASK_RUNNING \<Longrightarrow>
        runnings s ! (1 - cpu s) = Pcb i"
    using off unfolding off_inv_def by blast+
  define nx where "nx = next_task ps s"
  obtain s' Q' where s': "find_idle_task B s = Some s'" "kq H Q' s'" and q: "\<forall>h. h \<notin> page_heads \<longrightarrow> Q' h = Q h"
    and m: "mm_state.more s' = mm_state.more ((upd_pcb nx (\<lambda>p. p\<lparr>status := TASK_RUNNING\<rparr>)
      (s\<lparr>current_running := nx\<rparr>))\<lparr>runnings := (runnings s)[cpu s := nx]\<rparr>)"
    using find_idle_task_spec [OF k r] unfolding nx_def by blast
  have f: "pcb s' = (pcb s)(nx := (pcb s nx)\<lparr>status := TASK_RUNNING\<rparr>)" "runnings s' = (runnings s)[cpu s := nx]"
    "current_running s' = nx" "cpu s' = cpu s"
    using more_kernel [OF m] by (simp_all add: upd_pcb_def)
  have rq: "Q' Ready_queue = Q Ready_queue" using q by simp
  have nx: "(\<exists>i. nx = Pcb i \<and> Pcb_list (Pcb i) \<in> set (Q Ready_queue) \<and> status (pcb s (Pcb i)) \<noteq> TASK_RUNNING)
      \<or> nx = pid0_of (cpu s)"
    unfolding nx_def next_task_def r pid0_of_cpu_def pid0_of_def
    by (auto dest: find_Some_mem split: option.splits)
  have ne: "nx \<noteq> runnings s ! (1 - cpu s)"
    using nx other c unfolding hart_ok_def by (auto simp: pid0_of_def split: pcb_ref.splits if_splits)
  have st': "status_ok H Q' s'" unfolding status_ok_def
  proof (intro ballI allI impI)
    fix h i assume h: "h \<in> H" "Pcb_list (Pcb i) \<in> set (Q' h)"
    then have "h \<notin> page_heads" using s'(2) unfolding kq_def page_inv_def by auto
    then have i: "Pcb_list (Pcb i) \<in> set (Q h)" using q h by simp
    show "if h = Ready_queue then status (pcb s' (Pcb i)) \<in> {TASK_READY, TASK_RUNNING}
      else status (pcb s' (Pcb i)) = TASK_BLOCKED"
    proof (cases "nx = Pcb i")
      case True
      then have "Pcb_list (Pcb i) \<in> set (Q Ready_queue)" using nx by (auto simp: pid0_of_def split: if_splits)
      then have "h = Ready_queue" using klist.rep_disjoint [OF kqD(1) [OF k] h(1) kqD(2) [OF k] i] by simp
      then show ?thesis using True f by simp
    next
      case False
      then show ?thesis using status_okD [OF st h(1) i] f by (auto split: if_splits)
    qed
  qed
  have oc: "1 - cpu s \<noteq> cpu s" by arith
  have hc: "hart_ok Q' s' (cpu s)" using nx c lr unfolding hart_ok_def f rq by (auto simp: pid0_of_def)
  have ho: "hart_ok Q' s' (1 - cpu s)"
    using other ne oc unfolding hart_ok_def f rq by (auto split: pcb_ref.splits)
  have cases: "cpu s = 0 \<or> cpu s = 1" using c by auto
  have "Pcb i \<in> set (runnings s')"
    if "Pcb_list (Pcb i) \<in> set (Q' Ready_queue)" "status (pcb s' (Pcb i)) = TASK_RUNNING" for i
  proof (cases "nx = Pcb i")
    case True
    then show ?thesis using f lr c by (simp add: set_update_memI)
  next
    case False
    then have "runnings s ! (1 - cpu s) = Pcb i" using run [of i] that f rq by simp
    moreover have "runnings s' ! (1 - cpu s) = runnings s ! (1 - cpu s)" using f oc by simp
    moreover have "1 - cpu s < length (runnings s')" using f lr by simp
    ultimately show ?thesis by (metis nth_mem)
  qed
  then have "sched_inv H Q' s'"
    using s'(2) st' lr c hc ho ne cases unfolding sched_inv_def f by (auto simp: nth_list_update)
  then show ?thesis using s'(1) q m unfolding nx_def by blast
qed

section \<open>Waking\<close>

lemma in_enq_deq:
  "m \<in> set (enq n g (deq n h Q) f) \<Longrightarrow> m \<in> set (Q f) \<or> m = n \<and> f = g"
  by (auto simp: enq_def deq_def dest: set_remove1_subset [THEN subsetD] split: if_splits)

text \<open>A woken process becomes ready; nothing changes for the others.\<close>

lemma wake_inv:
  fixes s s' :: "('d, 'a) kernel_scheme"
  assumes inv: "sched_inv H Q s" and h: "h \<in> H" "h \<notin> page_heads" "h \<noteq> Ready_queue" and i: "Pcb_list (Pcb i) \<in> set (Q h)"
    and k': "kq H Q' s'" and Q': "Q' = enq (Pcb_list (Pcb i)) Ready_queue (deq (Pcb_list (Pcb i)) h Q)"
    and m: "mm_state.more s' = mm_state.more (upd_pcb (Pcb i) (\<lambda>p. p\<lparr>status := TASK_READY\<rparr>) s)"
  shows "sched_inv H Q' s'"
proof -
  have k: "kq H Q s" and st: "status_ok H Q s" using inv by (simp_all add: sched_inv_def)
  have f: "pcb s' = (pcb s)(Pcb i := (pcb s (Pcb i))\<lparr>status := TASK_READY\<rparr>)" "runnings s' = runnings s"
    "current_running s' = current_running s" "cpu s' = cpu s"
    using more_kernel [OF m] by (simp_all add: upd_pcb_def)
  have nr: "Pcb_list (Pcb i) \<notin> set (Q Ready_queue)"
    using klist.rep_disjoint [OF kqD(1) [OF k] h(1) kqD(2) [OF k] i] h(3) by blast
  have rq: "Q' Ready_queue = Q Ready_queue @ [Pcb_list (Pcb i)]" using h(3) by (simp add: Q' enq_def deq_def)
  have ho: "hart_ok Q' s' c" if "hart_ok Q s c" for c
    using that nr unfolding hart_ok_def f rq by (auto split: pcb_ref.splits)
  have st': "status_ok H Q' s'" unfolding status_ok_def
  proof (intro ballI allI impI)
    fix g j assume g: "g \<in> H" "Pcb_list (Pcb j) \<in> set (Q' g)"
    show "if g = Ready_queue then status (pcb s' (Pcb j)) \<in> {TASK_READY, TASK_RUNNING}
      else status (pcb s' (Pcb j)) = TASK_BLOCKED"
    proof (cases "j = i")
      case True
      moreover have "Pcb_list (Pcb i) \<in> set (Q' Ready_queue)" by (simp add: rq)
      then have "g = Ready_queue"
        using klist.rep_disjoint [OF kqD(1) [OF k'] g(1) kqD(2) [OF k'] g(2)] True by simp
      ultimately show ?thesis using f by simp
    next
      case False
      then have "Pcb_list (Pcb j) \<in> set (Q g)" using in_enq_deq [OF g(2) [unfolded Q']] by simp
      then show ?thesis using status_okD [OF st g(1), of j] f False by (auto split: if_splits)
    qed
  qed
  have run: "Pcb j \<in> set (runnings s')"
    if "Pcb_list (Pcb j) \<in> set (Q' Ready_queue)" "status (pcb s' (Pcb j)) = TASK_RUNNING" for j
  proof -
    have "j \<noteq> i" using that(2) f by auto
    then have "Pcb_list (Pcb j) \<in> set (Q Ready_queue)" "status (pcb s (Pcb j)) = TASK_RUNNING"
      using that f rq by auto
    then show ?thesis using sched_invD(9) [OF inv] f by simp
  qed
  have "hart_ok Q' s' 0" "hart_ok Q' s' 1" using inv ho unfolding sched_inv_def by simp_all
  then show ?thesis
    by (intro sched_invI [OF k' st'] run) (simp_all only: f sched_invD(3-5,8) [OF inv] not_False_eq_True)
qed

lemma do_unblock_inv:
  assumes inv: "sched_inv H Q s" and h: "h \<in> H" "h \<notin> page_heads" "h \<noteq> Ready_queue" and i: "Pcb_list (Pcb i) \<in> set (Q h)"
  shows "\<exists>s'. do_unblock (Pcb_list (Pcb i)) s = Some s' \<and>
    sched_inv H (enq (Pcb_list (Pcb i)) Ready_queue (deq (Pcb_list (Pcb i)) h Q)) s' \<and>
    mm_state.more s' = mm_state.more (upd_pcb (Pcb i) (\<lambda>p. p\<lparr>status := TASK_READY\<rparr>) s)"
proof -
  have k: "kq H Q s" using inv by (simp add: sched_inv_def)
  show ?thesis using do_unblock_spec [OF k h(1,2) i] wake_inv [OF inv h i _ refl] by blast
qed

text \<open>Everybody in a queue has been woken, in order.\<close>

definition woken :: "node \<Rightarrow> (node \<Rightarrow> node list) \<Rightarrow> node \<Rightarrow> node list" where
  "woken h Q = Q(Ready_queue := Q Ready_queue @ Q h, h := [])"

definition mark_ready :: "nat list \<Rightarrow> ('d, 'a) kernel_scheme \<Rightarrow> ('d, 'a) kernel_scheme" where
  "mark_ready ps s = s\<lparr>pcb := (\<lambda>r. if r \<in> Pcb ` set ps then (pcb s r)\<lparr>status := TASK_READY\<rparr> else pcb s r)\<rparr>"

lemma more_upd_ready:
  fixes s t :: "('d, 'a) kernel_scheme"
  assumes "mm_state.more t = mm_state.more (mark_ready ds s)"
  shows "mm_state.more (upd_pcb (Pcb i) (\<lambda>p. p\<lparr>status := TASK_READY\<rparr>) t) = mm_state.more (mark_ready (ds @ [i]) s)"
proof -
  have "mm_state.more (upd_pcb (Pcb i) (\<lambda>p. p\<lparr>status := TASK_READY\<rparr>) t) =
      mm_state.more (upd_pcb (Pcb i) (\<lambda>p. p\<lparr>status := TASK_READY\<rparr>) (mark_ready ds s))"
    using assms by (cases t; cases s) (simp add: upd_pcb_def mark_ready_def)
  also have "\<dots> = mm_state.more (mark_ready (ds @ [i]) s)"
    by (cases s) (auto simp: upd_pcb_def mark_ready_def)
  finally show ?thesis .
qed

lemma wake_loop_step:
  fixes s t :: "('d, 'a) kernel_scheme"
  assumes inv: "sched_inv H Q' t" and h: "h \<in> H" "h \<notin> page_heads" "h \<noteq> Ready_queue"
    and Q': "Q' = Q(Ready_queue := Q Ready_queue @ pcb_nodes ds, h := pcb_nodes (i # js))"
    and m: "mm_state.more t = mm_state.more (mark_ready ds s)"
  shows "\<exists>t'. do_unblock (Pcb_list (Pcb i)) t = Some t' \<and>
    sched_inv H (Q(Ready_queue := Q Ready_queue @ pcb_nodes (ds @ [i]), h := pcb_nodes js)) t' \<and>
    mm_state.more t' = mm_state.more (mark_ready (ds @ [i]) s)"
proof -
  have i: "Pcb_list (Pcb i) \<in> set (Q' h)" by (simp add: Q')
  obtain t' where t': "do_unblock (Pcb_list (Pcb i)) t = Some t'"
    "sched_inv H (enq (Pcb_list (Pcb i)) Ready_queue (deq (Pcb_list (Pcb i)) h Q')) t'"
    "mm_state.more t' = mm_state.more (upd_pcb (Pcb i) (\<lambda>p. p\<lparr>status := TASK_READY\<rparr>) t)"
    using do_unblock_inv [OF inv h i] by blast
  have q: "enq (Pcb_list (Pcb i)) Ready_queue (deq (Pcb_list (Pcb i)) h Q') =
      Q(Ready_queue := Q Ready_queue @ pcb_nodes (ds @ [i]), h := pcb_nodes js)"
    using h(3) by (auto simp: Q' enq_def deq_def)
  show ?thesis using t' q more_upd_ready [OF m] by auto
qed

lemma unblock_all_spec:
  fixes s :: "('d, 'a) kernel_scheme"
  assumes inv: "sched_inv H Q s" and h: "h \<in> H" "h \<notin> page_heads" "h \<noteq> Ready_queue" and ps: "Q h = pcb_nodes ps"
  shows "\<exists>s'. unblock_all h s = Some s' \<and> sched_inv H (woken h Q) s' \<and>
      mm_state.more s' = mm_state.more (mark_ready ps s)"
    "\<exists>s'. list_for_each_entry_safe lnk h do_unblock s = Some s' \<and> sched_inv H (woken h Q) s' \<and>
      mm_state.more s' = mm_state.more (mark_ready ps s)"
proof -
  define I where "I xs t \<longleftrightarrow> (\<exists>ds js. ps = ds @ js \<and> xs = pcb_nodes js \<and>
    sched_inv H (Q(Ready_queue := Q Ready_queue @ pcb_nodes ds, h := pcb_nodes js)) t \<and>
    mm_state.more t = mm_state.more (mark_ready ds s))" for xs and t :: "('d, 'a) kernel_scheme"
  have "Q(Ready_queue := Q Ready_queue @ pcb_nodes [], h := pcb_nodes ps) = Q" using h(3) ps by auto
  moreover have "mark_ready [] s = s" by (simp add: mark_ready_def)
  ultimately have init: "I (Q h) s" using inv ps unfolding I_def by (intro exI [of _ "[]"] exI [of _ ps]) simp
  have queue: "is_queue (lnk t) h xs" if "I xs t" for xs and t :: "('d, 'a) kernel_scheme"
  proof -
    obtain ds js where "xs = pcb_nodes js" "sched_inv H (Q(Ready_queue := Q Ready_queue @ pcb_nodes ds, h := pcb_nodes js)) t"
      using \<open>I xs t\<close> unfolding I_def by fast
    then show ?thesis using kq_queue(1) [OF _ h(1), of "Q(Ready_queue := Q Ready_queue @ pcb_nodes ds, h := pcb_nodes js)" t]
      unfolding sched_inv_def by simp
  qed
  have step: "\<exists>t'. do_unblock x t = Some t' \<and> I xs t'" if "I (x # xs) t" for x xs and t :: "('d, 'a) kernel_scheme"
  proof -
    obtain ds i js where e: "ps = ds @ i # js" "x = Pcb_list (Pcb i)" "xs = pcb_nodes js"
      and t: "sched_inv H (Q(Ready_queue := Q Ready_queue @ pcb_nodes ds, h := pcb_nodes (i # js))) t"
        "mm_state.more t = mm_state.more (mark_ready ds s)"
      using \<open>I (x # xs) t\<close> unfolding I_def by (auto simp: Cons_eq_map_conv)
    obtain t' where "do_unblock (Pcb_list (Pcb i)) t = Some t'"
      "sched_inv H (Q(Ready_queue := Q Ready_queue @ pcb_nodes (ds @ [i]), h := pcb_nodes js)) t'"
      "mm_state.more t' = mm_state.more (mark_ready (ds @ [i]) s)"
      using wake_loop_step [OF t(1) h refl t(2)] by blast
    then show ?thesis using e unfolding I_def by (metis append.assoc append_Cons append_Nil)
  qed
  have fin: "sched_inv H (woken h Q) s' \<and> mm_state.more s' = mm_state.more (mark_ready ps s)"
    if "I [] s'" for s' :: "('d, 'a) kernel_scheme"
    using that ps unfolding I_def woken_def by auto
  have "\<exists>s'. list_drain lnk h do_unblock s = Some s' \<and> I [] s'"
    by (rule list_drain_rule [of I, OF init queue step])
  then show "\<exists>s'. unblock_all h s = Some s' \<and> sched_inv H (woken h Q) s' \<and>
      mm_state.more s' = mm_state.more (mark_ready ps s)"
    using fin unfolding unblock_all_def by blast
  have "\<exists>s'. list_for_each_entry_safe lnk h do_unblock s = Some s' \<and> I [] s'"
    by (rule list_for_each_entry_safe_rule [of I, OF init]) (use queue [OF init] queue step in \<open>auto intro: exI [of _ "[]"]\<close>)
  then show "\<exists>s'. list_for_each_entry_safe lnk h do_unblock s = Some s' \<and> sched_inv H (woken h Q) s' \<and>
      mm_state.more s' = mm_state.more (mark_ready ps s)"
    using fin by blast
qed

section \<open>Sleeping\<close>

definition timer_at :: "('d, 'a) kernel_scheme \<Rightarrow> nat \<Rightarrow> u64" where
  "timer_at s k = divu (rdtime s k) (time_base s)"

text \<open>
  The sleepers that are due, and those that are not, when the clock is read once per sleeper,
  starting with the \<open>k\<close>-th read.
\<close>

fun due :: "('d, 'a) kernel_scheme \<Rightarrow> bool \<Rightarrow> nat \<Rightarrow> nat list \<Rightarrow> nat list" where
  "due s b k [] = []"
| "due s b k (i # ps) =
     (if (wakeup_time (pcb s (Pcb i)) \<le> timer_at s k) = b then [i] else []) @ due s b (Suc k) ps"

lemma due_append: "due s b k (ps @ qs) = due s b k ps @ due s b (k + length ps) qs"
  by (induction ps arbitrary: k) simp_all

lemma due_sub: "set (due s b k xs) \<subseteq> set xs"
  by (induction xs arbitrary: k) auto

definition clock_read :: "nat \<Rightarrow> ('d, 'a) kernel_scheme \<Rightarrow> ('d, 'a) kernel_scheme" where
  "clock_read n s = (if n = 0 then s else s\<lparr>time_elapsed := rdtime s (time_reads s + n - 1), time_reads := time_reads s + n\<rparr>)"

lemma get_timer_eq: "get_timer s = (timer_at s (time_reads s), clock_read 1 s)"
  by (simp add: get_timer_def get_ticks_def timer_at_def clock_read_def Let_def)

lemma clock_read_inv: "sched_inv H Q (clock_read n s) = sched_inv H Q s"
  by (rule sched_inv_cong) (simp_all add: clock_read_def)

lemma mark_ready_clock:
  "mm_state.more (clock_read 1 (mark_ready ds (clock_read n s))) = mm_state.more (mark_ready ds (clock_read (Suc n) s))"
proof -
  have "clock_read 1 (mark_ready ds (clock_read n s)) = mark_ready ds (clock_read (Suc n) s)"
    by (cases "n = 0") (cases s; simp add: clock_read_def mark_ready_def cong: if_cong)+
  then show ?thesis by simp
qed

lemma more_cong_clock:
  fixes s t :: "('d, 'a) kernel_scheme"
  assumes "mm_state.more t = mm_state.more s" shows "mm_state.more (clock_read n t) = mm_state.more (clock_read n s)"
  using assms by (cases s; cases t) (simp add: clock_read_def)

lemma check_sleeping_spec:
  fixes s :: "('d, 'a) kernel_scheme"
  assumes inv: "sched_inv H Q s" and ps: "Q Sleep_queue = pcb_nodes ps"
  shows "\<exists>s'. check_sleeping s = Some s' \<and>
    sched_inv H (Q(Ready_queue := Q Ready_queue @ pcb_nodes (due s True (time_reads s) ps),
      Sleep_queue := pcb_nodes (due s False (time_reads s) ps))) s' \<and>
    mm_state.more s' = mm_state.more (mark_ready (due s True (time_reads s) ps) (clock_read (length ps) s))"
proof -
  define k where "k = time_reads s"
  define QQ where "QQ ds js = Q(Ready_queue := Q Ready_queue @ pcb_nodes (due s True k ds),
    Sleep_queue := pcb_nodes (due s False k ds) @ pcb_nodes js)" for ds js
  define I where "I xs t \<longleftrightarrow> (\<exists>ds js. ps = ds @ js \<and> xs = pcb_nodes js \<and> sched_inv H (QQ ds js) t \<and>
    mm_state.more t = mm_state.more (mark_ready (due s True k ds) (clock_read (length ds) s)))"
    for xs and t :: "('d, 'a) kernel_scheme"
  have SH: "Sleep_queue \<in> H" using kqD(3) sched_invD(1) [OF inv] by blast
  have dp: "distinct ps" using kq_queue(2) [OF sched_invD(1) [OF inv] SH] ps by (simp add: distinct_map)
  have "\<exists>s'. list_for_each_entry_safe lnk Sleep_queue wake_sleeper s = Some s' \<and> I [] s'"
  proof (rule list_for_each_entry_safe_rule [of I])
    have "QQ [] ps = Q" using ps by (auto simp: QQ_def)
    moreover have "mark_ready [] (clock_read 0 s) = s" by (simp add: mark_ready_def clock_read_def)
    ultimately show "I (Q Sleep_queue) s" using inv ps unfolding I_def by (intro exI [of _ "[]"] exI [of _ ps]) simp
    show "is_queue (lnk s) Sleep_queue (Q Sleep_queue)" by (rule kq_queue(1) [OF sched_invD(1) [OF inv] SH])
    show "\<exists>as. is_queue (lnk t) Sleep_queue (as @ xs)" if I: "I xs t" for xs t
    proof -
      obtain ds js where "xs = pcb_nodes js" "sched_inv H (QQ ds js) t" using I unfolding I_def by fast
      then show ?thesis using kq_queue(1) [OF sched_invD(1) SH] by (fastforce simp: QQ_def)
    qed
    show "\<exists>t'. wake_sleeper x t = Some t' \<and> I xs t'" if I: "I (x # xs) t" for x xs t
    proof -
      obtain ds i js where e: "ps = ds @ i # js" "x = Pcb_list (Pcb i)" "xs = pcb_nodes js"
        and t: "sched_inv H (QQ ds (i # js)) t"
          "mm_state.more t = mm_state.more (mark_ready (due s True k ds) (clock_read (length ds) s))"
        using I unfolding I_def by (auto simp: Cons_eq_map_conv)
      define t1 where "t1 = clock_read 1 t"
      have inv1: "sched_inv H (QQ ds (i # js)) t1" using t(1) by (simp add: t1_def clock_read_inv)
      have m1: "mm_state.more t1 = mm_state.more (mark_ready (due s True k ds) (clock_read (length (ds @ [i])) s))"
        using more_cong_clock [OF t(2), of 1] mark_ready_clock by (simp add: t1_def)
      have tm: "timer_at t (time_reads t) = timer_at s (k + length ds)"
        using more_kernel [OF t(2)] by (simp add: timer_at_def mark_ready_def clock_read_def k_def)
      have "wakeup_time (pcb t (Pcb i)) = wakeup_time (pcb s (Pcb i))"
        using more_kernel(1) [OF t(2)] by (simp add: mark_ready_def clock_read_def)
      moreover have "pcb t1 = pcb t" by (simp add: t1_def clock_read_def)
      ultimately have w: "wake_sleeper x t = (if wakeup_time (pcb s (Pcb i)) \<le> timer_at s (k + length ds)
          then do_unblock x t1 else Some t1)"
        by (simp add: wake_sleeper_def e(2) get_timer_eq tm t1_def)
      show ?thesis
      proof (cases "wakeup_time (pcb s (Pcb i)) \<le> timer_at s (k + length ds)")
        case True
        have i: "Pcb_list (Pcb i) \<in> set (QQ ds (i # js) Sleep_queue)" by (simp add: QQ_def)
        obtain t' where t': "do_unblock x t1 = Some t'"
          "sched_inv H (enq (Pcb_list (Pcb i)) Ready_queue (deq (Pcb_list (Pcb i)) Sleep_queue (QQ ds (i # js)))) t'"
          "mm_state.more t' = mm_state.more (upd_pcb (Pcb i) (\<lambda>p. p\<lparr>status := TASK_READY\<rparr>) t1)"
          using do_unblock_inv [OF inv1 SH _ _ i] e(2) by auto
        have "i \<notin> set (due s False k ds)" using due_sub [of s False k ds] dp e(1) by auto
        then have q: "enq (Pcb_list (Pcb i)) Ready_queue (deq (Pcb_list (Pcb i)) Sleep_queue (QQ ds (i # js))) = QQ (ds @ [i]) js"
          using True by (auto simp: QQ_def enq_def deq_def due_append remove1_append)
        have "mm_state.more (upd_pcb (Pcb i) (\<lambda>p. p\<lparr>status := TASK_READY\<rparr>) t1) =
            mm_state.more (mark_ready (due s True k (ds @ [i])) (clock_read (length (ds @ [i])) s))"
          using True more_upd_ready [OF m1] by (simp add: due_append)
        then have "I xs t'" using t' q e unfolding I_def by (intro exI [of _ "ds @ [i]"] exI [of _ js]) simp
        then show ?thesis using w True t'(1) by simp
      next
        case False
        then have "QQ (ds @ [i]) js = QQ ds (i # js)" "due s True k (ds @ [i]) = due s True k ds"
          by (simp_all add: QQ_def due_append)
        then have "I xs t1" using inv1 m1 e unfolding I_def by (intro exI [of _ "ds @ [i]"] exI [of _ js]) simp
        then show ?thesis using w False by simp
      qed
    qed
  qed
  then show ?thesis unfolding check_sleeping_def I_def QQ_def k_def by auto
qed

section \<open>Taking the current process off its hart\<close>

lemma off_invI:
  assumes "kq H Q s" "status_ok H Q s" "length (runnings s) = 2" "cpu s < 2" "hart_ok Q s (1 - cpu s)"
    and "\<And>i. Pcb_list (Pcb i) \<in> set (Q Ready_queue) \<Longrightarrow> status (pcb s (Pcb i)) = TASK_RUNNING \<Longrightarrow>
        runnings s ! (1 - cpu s) = Pcb i"
  shows "off_inv H Q s"
  unfolding off_inv_def using assms by (intro conjI allI impI; (elim conjE)?) assumption+

lemma two_harts:
  assumes "length rs = 2" "c < 2" "x \<in> set rs" "rs ! c \<noteq> x" shows "rs ! (1 - c) = x"
  using assms by (auto simp: in_set_conv_nth less_2_cases_iff)

lemma take_off:
  fixes s s' :: "('d, 'a) kernel_scheme"
  assumes inv: "sched_inv H Q s" and cur: "current_running s = Pcb i"
    and g: "g \<in> H" "g \<notin> page_heads" and st: "st = (if g = Ready_queue then TASK_READY else TASK_BLOCKED)"
    and s': "lnk s' = list_add_tail (Pcb_list (Pcb i)) g (list_delete_entry (Pcb_list (Pcb i)) (lnk s))"
      "pages s' = pages s" "page_id s' = page_id s" "present_pages_num s' = present_pages_num s"
      "pcb s' = (pcb s)(Pcb i := (pcb s (Pcb i))\<lparr>status := st\<rparr>)" "runnings s' = runnings s" "cpu s' = cpu s"
  shows "off_inv H (enq (Pcb_list (Pcb i)) g (deq (Pcb_list (Pcb i)) Ready_queue Q)) s'"
proof -
  let ?n = "Pcb_list (Pcb i)"
  let ?Q = "enq ?n g (deq ?n Ready_queue Q)"
  note D = sched_invD [OF inv]
  have c: "cpu s = 0 \<or> cpu s = 1" using D(4) by auto
  have run: "runnings s ! cpu s = Pcb i" using D(5) cur by simp
  then have "?n \<in> set (Q Ready_queue)" using c D(6,7) unfolding hart_ok_def by auto
  note k' = kq_move [OF D(1) kqD(2) [OF D(1)] _ g this s'(1-4), simplified]
  have oth: "runnings s ! (1 - cpu s) \<noteq> Pcb i" using c D(8) run by auto
  have rin: "?n \<in> set (?Q g)" by (simp add: enq_def)
  have keep: "Pcb_list (Pcb j) \<in> set (?Q Ready_queue)" if "j \<noteq> i" "Pcb_list (Pcb j) \<in> set (Q Ready_queue)" for j
    using that by (auto simp: enq_def deq_def)
  have "status_ok H ?Q s'" unfolding status_ok_def
  proof (intro ballI allI impI)
    fix f j assume f: "f \<in> H" "Pcb_list (Pcb j) \<in> set (?Q f)"
    show "if f = Ready_queue then status (pcb s' (Pcb j)) \<in> {TASK_READY, TASK_RUNNING}
      else status (pcb s' (Pcb j)) = TASK_BLOCKED"
    proof (cases "j = i")
      case True
      then have "f = g" using klist.rep_disjoint [OF kqD(1) [OF k'] f(1) g(1) f(2)] rin by simp
      then show ?thesis using True s'(5) st by simp
    next
      case False
      then have "Pcb_list (Pcb j) \<in> set (Q f)" using in_enq_deq [OF f(2)] by simp
      then show ?thesis using status_okD [OF D(2) f(1), of j] s'(5) False by (auto split: if_splits)
    qed
  qed
  moreover have "hart_ok Q s (1 - cpu s)" using c D(6,7) by auto
  then have "hart_ok ?Q s' (1 - cpu s')"
    using oth keep unfolding hart_ok_def s' by (auto split: pcb_ref.splits)
  moreover have "runnings s' ! (1 - cpu s') = Pcb j"
    if "Pcb_list (Pcb j) \<in> set (?Q Ready_queue)" "status (pcb s' (Pcb j)) = TASK_RUNNING" for j
  proof -
    have ji: "j \<noteq> i" using that(2) s'(5) st by (auto split: if_splits)
    then have "Pcb_list (Pcb j) \<in> set (Q Ready_queue)" using in_enq_deq [OF that(1)] by simp
    then have "Pcb j \<in> set (runnings s)" using D(9) that(2) s'(5) ji by simp
    then show ?thesis using two_harts [OF D(3,4)] run ji s'(6,7) by simp
  qed
  ultimately show ?thesis using D(3,4) s'(6,7) by (intro off_invI [OF k']) simp_all
qed

lemma take_off_idle:
  assumes inv: "sched_inv H Q s" and cur: "current_running s \<in> {Pid0_pcb, Pid0_pcb2}"
  shows "off_inv H Q (upd_pcb (current_running s) (\<lambda>p. p\<lparr>status := st\<rparr>) s)"
proof -
  let ?s = "upd_pcb (current_running s) (\<lambda>p. p\<lparr>status := st\<rparr>) s"
  note D = sched_invD [OF inv]
  have c: "cpu s = 0 \<or> cpu s = 1" using D(4) by auto
  have p: "pcb ?s (Pcb i) = pcb s (Pcb i)" for i using cur by (auto simp: upd_pcb_def)
  have u: "runnings ?s = runnings s" "cpu ?s = cpu s" by (simp_all add: upd_pcb_def)
  have k: "kq H Q ?s" using D(1) kq_cong [of ?s s] by (simp add: upd_pcb_def)
  have "status_ok H Q ?s" using D(2) unfolding status_ok_def p .
  moreover have "hart_ok Q s (1 - cpu s)" using c D(6,7) by auto
  then have "hart_ok Q ?s (1 - cpu ?s)" unfolding hart_ok_def p u .
  moreover have "runnings ?s ! (1 - cpu ?s) = Pcb j"
    if "Pcb_list (Pcb j) \<in> set (Q Ready_queue)" "status (pcb ?s (Pcb j)) = TASK_RUNNING" for j
    using two_harts [OF D(3,4) D(9) [OF that(1)]] that(2) D(5) cur unfolding p u by auto
  ultimately show ?thesis using D(3,4) by (intro off_invI [OF k]) (simp_all add: u)
qed

text \<open>Once the current hart is free, a process of the ready queue runs only on the other one.\<close>

definition pick :: "nat list \<Rightarrow> pcb_ref \<Rightarrow> nat \<Rightarrow> pcb_ref" where
  "pick ps other c = (case List.find (\<lambda>i. Pcb i \<noteq> other) ps of Some i \<Rightarrow> Pcb i | None \<Rightarrow> pid0_of c)"

lemma next_task_pick:
  assumes "off_inv H Q s" "Q Ready_queue = pcb_nodes ps"
  shows "next_task ps s = pick ps (runnings s ! (1 - cpu s)) (cpu s)"
proof -
  have "status (pcb s (Pcb i)) \<noteq> TASK_RUNNING \<longleftrightarrow> Pcb i \<noteq> runnings s ! (1 - cpu s)" if "i \<in> set ps" for i
  proof -
    have "Pcb_list (Pcb i) \<in> set (Q Ready_queue)" using that assms(2) by simp
    then show ?thesis using assms(1) unfolding off_inv_def hart_ok_def by (auto split: pcb_ref.splits)
  qed
  then have "List.find (\<lambda>i. status (pcb s (Pcb i)) \<noteq> TASK_RUNNING) ps = List.find (\<lambda>i. Pcb i \<noteq> runnings s ! (1 - cpu s)) ps"
    by (intro find_cong) auto
  then show ?thesis by (simp add: next_task_def pick_def pid0_of_cpu_def pid0_of_def split: option.split)
qed

end
