(* ===== verification/Sched_Live.thy ===== *)
theory Sched_Live
  imports Sched_Inv
begin

text \<open>
  The scheduler as a whole: what one timer tick does, that blocking and scheduling keep the
  invariant, and that no ready process starves.
\<close>

section \<open>Blocking the current process\<close>

lemma do_block_spec:
  fixes s :: "('d, 'a) kernel_scheme"
  assumes inv: "sched_inv H Q s" and cur: "current_running s = Pcb i"
    and g: "g \<in> H" "g \<notin> page_heads" "g \<noteq> Ready_queue" and ps: "Q Ready_queue = pcb_nodes ps"
  shows "\<exists>s' Q' nx. do_block B (Pcb_list (Pcb i)) g s = Some s' \<and> sched_inv H Q' s' \<and>
    Q' Ready_queue = pcb_nodes (remove1 i ps) \<and> Q' g = Q g @ [Pcb_list (Pcb i)] \<and>
    (\<forall>h. h \<notin> page_heads \<union> {g, Ready_queue} \<longrightarrow> Q' h = Q h) \<and>
    nx = pick (remove1 i ps) (runnings s ! (1 - cpu s)) (cpu s) \<and>
    mm_state.more s' = mm_state.more (switch_pgdir ((upd_pcb nx (\<lambda>p. p\<lparr>status := TASK_RUNNING\<rparr>)
      ((upd_pcb (Pcb i) (\<lambda>p. p\<lparr>status := TASK_BLOCKED\<rparr>) s)\<lparr>current_running := nx\<rparr>))\<lparr>runnings := (runnings s)[cpu s := nx]\<rparr>))"
proof -
  let ?n = "Pcb_list (Pcb i)"
  define s1 where "s1 = upd_pcb (Pcb i) (\<lambda>p. p\<lparr>status := TASK_BLOCKED\<rparr>)
    (s\<lparr>lnk := list_add_tail ?n g (list_delete_entry ?n (lnk s))\<rparr>)"
  define Q1 where "Q1 = enq ?n g (deq ?n Ready_queue Q)"
  have off: "off_inv H Q1 s1" unfolding Q1_def
    by (rule take_off [OF inv cur g(1,2) refl]) (simp_all add: s1_def upd_pcb_def g(3))
  have r1: "Q1 Ready_queue = pcb_nodes (remove1 i ps)"
    using g(3) ps remove1_map_inj [of "\<lambda>i. Pcb_list (Pcb i)" i ps] by (simp add: Q1_def enq_def deq_def inj_def)
  define nx where "nx = pick (remove1 i ps) (runnings s ! (1 - cpu s)) (cpu s)"
  have nx: "next_task (remove1 i ps) s1 = nx"
    using next_task_pick [OF off r1] by (simp add: nx_def s1_def upd_pcb_def)
  obtain s2 Q2 where s2: "find_idle_task B s1 = Some s2" "sched_inv H Q2 s2" "\<forall>h. h \<notin> page_heads \<longrightarrow> Q2 h = Q1 h"
    and m: "mm_state.more s2 = mm_state.more ((upd_pcb nx (\<lambda>p. p\<lparr>status := TASK_RUNNING\<rparr>)
      (s1\<lparr>current_running := nx\<rparr>))\<lparr>runnings := (runnings s1)[cpu s1 := nx]\<rparr>)"
    using find_idle_running [OF off r1] unfolding nx by blast
  have "do_block B ?n g s = Some (switch_pgdir s2)" by (simp add: do_block_def s1_def [symmetric] s2)
  moreover have "sched_inv H Q2 (switch_pgdir s2)"
    using s2(2) sched_inv_cong [of "switch_pgdir s2" s2] by (simp add: switch_pgdir_def Let_def)
  moreover have "mm_state.more (switch_pgdir s2) = mm_state.more (switch_pgdir ((upd_pcb nx (\<lambda>p. p\<lparr>status := TASK_RUNNING\<rparr>)
      ((upd_pcb (Pcb i) (\<lambda>p. p\<lparr>status := TASK_BLOCKED\<rparr>) s)\<lparr>current_running := nx\<rparr>))\<lparr>runnings := (runnings s)[cpu s := nx]\<rparr>))"
    using m by (cases s2; cases s) (simp add: switch_pgdir_def Let_def upd_pcb_def s1_def)
  moreover have "Q2 g = Q g @ [?n]" using s2(3) g by (simp add: Q1_def enq_def deq_def)
  moreover have "Q2 h = Q h" if "h \<notin> page_heads \<union> {g, Ready_queue}" for h
    using s2(3) that by (simp add: Q1_def enq_def deq_def)
  moreover have "Q2 Ready_queue = pcb_nodes (remove1 i ps)" using s2(3) r1 by simp
  ultimately show ?thesis unfolding nx_def by blast
qed

section \<open>One timer tick\<close>

text \<open>
  The processes that one call of the scheduler wakes: sleepers that are due, then senders and
  receivers when their ring has moved.
\<close>

definition wakes :: "nat list \<Rightarrow> nat list \<Rightarrow> nat list \<Rightarrow> ('d, 'a) kernel_scheme \<Rightarrow> nat list" where
  "wakes sl sn rc s = due s True (time_reads s) sl
     @ (if is_tx_desc_stat_dd (nic s) then sn else []) @ (if is_rx_desc_stat_dd (nic s) then rc else [])"

text \<open>The ready queue when the process \<open>cur\<close> gives up its hart.\<close>

definition requeue :: "pcb_ref \<Rightarrow> nat list \<Rightarrow> nat list" where
  "requeue cur ps = (case cur of Pcb i \<Rightarrow> remove1 i ps @ [i] | _ \<Rightarrow> ps)"

lemma check_net_spec:
  fixes s :: "('d, 'a) kernel_scheme"
  assumes inv: "sched_inv H Q s" and sn: "Q Send_block_queue = pcb_nodes sn" and rc: "Q Recv_block_queue = pcb_nodes rc"
    and r: "Q Ready_queue = pcb_nodes ps"
  shows "\<exists>s1 s2 Q'. check_net_send s = Some s1 \<and> check_net_recv s1 = Some s2 \<and> sched_inv H Q' s2 \<and>
    Q' Ready_queue = pcb_nodes (ps @ (if is_tx_desc_stat_dd (nic s) then sn else []) @
      (if is_rx_desc_stat_dd (nic s) then rc else [])) \<and>
    runnings s2 = runnings s \<and> cpu s2 = cpu s \<and> current_running s2 = current_running s"
proof -
  have H: "Send_block_queue \<in> H" "Recv_block_queue \<in> H" using kqD(4,5) sched_invD(1) [OF inv] by blast+
  obtain s1 Q1 where s1: "check_net_send s = Some s1" "sched_inv H Q1 s1" "Q1 Recv_block_queue = pcb_nodes rc"
    "Q1 Ready_queue = pcb_nodes (ps @ (if is_tx_desc_stat_dd (nic s) then sn else []))"
    "runnings s1 = runnings s" "cpu s1 = cpu s" "current_running s1 = current_running s" "nic s1 = nic s"
  proof (cases "is_tx_desc_stat_dd (nic s)")
    case True
    obtain s1 where "list_for_each_entry_safe lnk Send_block_queue do_unblock s = Some s1"
      "sched_inv H (woken Send_block_queue Q) s1" "mm_state.more s1 = mm_state.more (mark_ready sn s)"
      using unblock_all_spec(2) [OF inv H(1) _ _ sn] by auto
    then show thesis using that [of s1 "woken Send_block_queue Q"] True sn rc r more_kernel [of s1 "mark_ready sn s"]
      by (simp add: check_net_send_def woken_def mark_ready_def)
  next
    case False
    then show thesis using that [of s Q] inv rc r by (simp add: check_net_send_def)
  qed
  show ?thesis
  proof (cases "is_rx_desc_stat_dd (nic s1)")
    case True
    obtain s2 where "list_for_each_entry_safe lnk Recv_block_queue do_unblock s1 = Some s2"
      "sched_inv H (woken Recv_block_queue Q1) s2" "mm_state.more s2 = mm_state.more (mark_ready rc s1)"
      using unblock_all_spec(2) [OF s1(2) H(2) _ _ s1(3)] by auto
    then show ?thesis using s1 True more_kernel [of s2 "mark_ready rc s1"]
      by (intro exI [of _ s1] exI [of _ s2] exI [of _ "woken Recv_block_queue Q1"])
        (simp add: check_net_recv_def woken_def mark_ready_def)
  next
    case False
    then show ?thesis using s1 by (auto simp: check_net_recv_def)
  qed
qed

lemma do_scheduler_spec:
  fixes s :: "('d, 'a) kernel_scheme"
  assumes inv: "sched_inv H Q s" and r: "Q Ready_queue = pcb_nodes ps" and sl: "Q Sleep_queue = pcb_nodes sl"
    and sn: "Q Send_block_queue = pcb_nodes sn" and rc: "Q Recv_block_queue = pcb_nodes rc"
  shows "\<exists>s' Q'. do_scheduler B s = Some s' \<and> sched_inv H Q' s' \<and>
    Q' Ready_queue = pcb_nodes (requeue (current_running s) (ps @ wakes sl sn rc s)) \<and>
    runnings s' = (runnings s)[cpu s := pick (requeue (current_running s) (ps @ wakes sl sn rc s))
      (runnings s ! (1 - cpu s)) (cpu s)] \<and> cpu s' = cpu s"
proof -
  define w where "w = due s True (time_reads s) sl"
  obtain s1 where s1: "check_sleeping s = Some s1"
    "sched_inv H (Q(Ready_queue := Q Ready_queue @ pcb_nodes w,
      Sleep_queue := pcb_nodes (due s False (time_reads s) sl))) s1"
    "mm_state.more s1 = mm_state.more (mark_ready w (clock_read (length sl) s))"
    using check_sleeping_spec [OF inv sl] unfolding w_def by blast
  have f1: "runnings s1 = runnings s" "cpu s1 = cpu s" "current_running s1 = current_running s" "nic s1 = nic s"
    using more_kernel [OF s1(3)] by (simp_all add: mark_ready_def clock_read_def)
  obtain s2 s3 Q3 where s3: "check_net_send s1 = Some s2" "check_net_recv s2 = Some s3" "sched_inv H Q3 s3"
    "Q3 Ready_queue = pcb_nodes (ps @ wakes sl sn rc s)"
    "runnings s3 = runnings s" "cpu s3 = cpu s" "current_running s3 = current_running s"
    using check_net_spec [OF s1(2), of sn rc "ps @ w"] r sn rc f1 by (auto simp: wakes_def w_def)
  define cur where "cur = current_running s"
  define s5 where "s5 = (let s4 = upd_pcb cur (\<lambda>p. p\<lparr>status := TASK_READY\<rparr>) s3; n = Pcb_list cur
     in if cur \<noteq> Pid0_pcb \<and> cur \<noteq> Pid0_pcb2
        then s4\<lparr>lnk := list_add_tail n Ready_queue (list_delete_entry n (lnk s4))\<rparr> else s4)"
  obtain Q5 where off: "off_inv H Q5 s5" and r5: "Q5 Ready_queue = pcb_nodes (requeue cur (ps @ wakes sl sn rc s))"
  proof (cases cur)
    case (Pcb i)
    have RH: "Ready_queue \<in> H" using kqD(2) sched_invD(1) [OF inv] by blast
    show thesis
    proof (rule that)
      show "off_inv H (enq (Pcb_list (Pcb i)) Ready_queue (deq (Pcb_list (Pcb i)) Ready_queue Q3)) s5"
        by (rule take_off [OF s3(3) _ RH _ refl]) (simp_all add: s5_def Pcb upd_pcb_def cur_def [symmetric] s3(7) Let_def)
      show "enq (Pcb_list (Pcb i)) Ready_queue (deq (Pcb_list (Pcb i)) Ready_queue Q3) Ready_queue =
          pcb_nodes (requeue cur (ps @ wakes sl sn rc s))"
        using s3(4) remove1_map_inj [of "\<lambda>i. Pcb_list (Pcb i)" i "ps @ wakes sl sn rc s"]
        by (simp add: Pcb requeue_def enq_def deq_def inj_def)
    qed
  next
    case Pid0_pcb
    then show thesis using that [of Q3] take_off_idle [OF s3(3), of TASK_READY] s3(4,7)
      by (simp add: s5_def cur_def requeue_def Let_def)
  next
    case Pid0_pcb2
    then show thesis using that [of Q3] take_off_idle [OF s3(3), of TASK_READY] s3(4,7)
      by (simp add: s5_def cur_def requeue_def Let_def)
  qed
  have f5: "runnings s5 = runnings s" "cpu s5 = cpu s"
    using s3(5,6) by (simp_all add: s5_def upd_pcb_def Let_def)
  define nx where "nx = pick (requeue cur (ps @ wakes sl sn rc s)) (runnings s ! (1 - cpu s)) (cpu s)"
  have nx: "next_task (requeue cur (ps @ wakes sl sn rc s)) s5 = nx"
    using next_task_pick [OF off r5] by (simp add: nx_def f5)
  obtain s6 Q6 where s6: "find_idle_task B s5 = Some s6" "sched_inv H Q6 s6" "\<forall>h. h \<notin> page_heads \<longrightarrow> Q6 h = Q5 h"
    and m: "mm_state.more s6 = mm_state.more ((upd_pcb nx (\<lambda>p. p\<lparr>status := TASK_RUNNING\<rparr>)
      (s5\<lparr>current_running := nx\<rparr>))\<lparr>runnings := (runnings s5)[cpu s5 := nx]\<rparr>)"
    using find_idle_running [OF off r5] unfolding nx by blast
  have "do_scheduler B s = Some (switch_pgdir s6)"
    unfolding do_scheduler_def s1(1) s3(1,2) bind.bind_lunit
    using s6(1) s3(7) by (simp add: s5_def cur_def Let_def)
  moreover have "sched_inv H Q6 (switch_pgdir s6)"
    using s6(2) sched_inv_cong [of "switch_pgdir s6" s6] by (simp add: switch_pgdir_def Let_def)
  moreover have "runnings (switch_pgdir s6) = (runnings s)[cpu s := nx]" "cpu (switch_pgdir s6) = cpu s"
    using more_kernel [OF m] by (simp_all add: upd_pcb_def f5)
  moreover have "Q6 Ready_queue = pcb_nodes (requeue cur (ps @ wakes sl sn rc s))" using s6(3) r5 by simp
  ultimately show ?thesis unfolding nx_def cur_def by blast
qed

section \<open>No starvation\<close>

lemma find_append_none: "\<forall>x\<in>set xs. \<not> P x \<Longrightarrow> List.find P (xs @ ys) = List.find P ys"
  by (induction xs) simp_all


text \<open>
  A timer interrupt on hart \<open>c\<close>: \<^verbatim>\<open>interrupt_helper\<close> takes the kernel lock and makes the process of
  that hart current, the handler resets the timer and calls the scheduler.
\<close>

definition timer_tick :: "'d sdcard \<Rightarrow> nat \<Rightarrow> ('d, 'a) kernel_scheme \<Rightarrow> ('d, 'a) kernel_scheme option" where
  "timer_tick B c s = handle_irq_timer B (s\<lparr>cpu := c, current_running := runnings s ! c\<rparr>)"

fun timer_ticks :: "'d sdcard \<Rightarrow> nat list \<Rightarrow> ('d, 'a) kernel_scheme \<Rightarrow> ('d, 'a) kernel_scheme option" where
  "timer_ticks B [] s = Some s"
| "timer_ticks B (c # cs) s = do { s1 \<leftarrow> timer_tick B c s; timer_ticks B cs s1 }"

text \<open>The processes of \<open>ps\<close> that wait for a hart.\<close>

definition waiting :: "pcb_ref list \<Rightarrow> nat list \<Rightarrow> nat list" where
  "waiting rs ps = filter (\<lambda>i. Pcb i \<notin> set rs) ps"

lemma tick_queue:
  fixes s :: "('d, 'a) kernel_scheme"
  assumes inv: "sched_inv H Q s" and c: "c < 2" and r: "Q Ready_queue = pcb_nodes ps"
  shows "\<exists>s' Q' ws. timer_tick B c s = Some s' \<and> sched_inv H Q' s' \<and>
    Q' Ready_queue = pcb_nodes (requeue (runnings s ! c) (ps @ ws)) \<and>
    runnings s' = (runnings s)[c := pick (requeue (runnings s ! c) (ps @ ws)) (runnings s ! (1 - c)) c]"
proof -
  define s1 where "s1 = (snd (get_ticks (s\<lparr>cpu := c, current_running := runnings s ! c\<rparr>)))
    \<lparr>timer_irq := fst (get_ticks (s\<lparr>cpu := c, current_running := runnings s ! c\<rparr>)) + 150000\<rparr>"
  have f: "runnings s1 = runnings s" "cpu s1 = c" "current_running s1 = runnings s ! c"
    by (simp_all add: s1_def get_ticks_def Let_def)
  have t: "timer_tick B c s = do_scheduler B s1"
    by (simp add: timer_tick_def handle_irq_timer_def s1_def case_prod_beta Let_def)
  have pc: "pcb s1 = pcb s" by (simp add: s1_def get_ticks_def Let_def)
  have k: "kq H Q s1"
    using sched_invD(1) [OF inv] kq_cong [of s1 s] by (simp add: s1_def get_ticks_def Let_def)
  have ho: "hart_ok Q s1 h = hart_ok Q s h" "status_ok H Q s1 = status_ok H Q s" for h
    unfolding hart_ok_def status_ok_def pc f by simp_all
  have inv1: "sched_inv H Q s1"
    using c sched_invD [OF inv] by (intro sched_invI [OF k]) (simp_all only: ho f pc not_False_eq_True)
  obtain sl where sl: "Q Sleep_queue = pcb_nodes sl" using kq_pcb [OF k kqD(3) [OF k]] by auto
  obtain sn where sn: "Q Send_block_queue = pcb_nodes sn" using kq_pcb [OF k kqD(4) [OF k]] by auto
  obtain rc where rc: "Q Recv_block_queue = pcb_nodes rc" using kq_pcb [OF k kqD(5) [OF k]] by auto
  show ?thesis unfolding t using do_scheduler_spec [OF inv1 r sl sn rc, of B] unfolding f by blast
qed

lemma requeue_ahead:
  assumes "distinct (as @ p # bs)" "cur \<noteq> Pcb p"
  shows "\<exists>as' bs'. requeue cur ((as @ p # bs) @ ws) = as' @ p # bs' \<and> as' = filter (\<lambda>i. Pcb i \<noteq> cur) as"
proof (cases cur)
  case (Pcb i)
  then have "i \<noteq> p" using assms(2) by simp
  show ?thesis
  proof (cases "i \<in> set as")
    case True
    then have "remove1 i as = filter (\<lambda>j. j \<noteq> i) as" using assms(1) by (auto simp: distinct_remove1_removeAll removeAll_filter_not_eq intro!: filter_cong)
    then show ?thesis using True by (simp add: Pcb requeue_def remove1_append)
  next
    case False
    then have "filter (\<lambda>j. j \<noteq> i) as = as" by (auto simp: filter_id_conv)
    then show ?thesis using False \<open>i \<noteq> p\<close> by (simp add: Pcb requeue_def remove1_append)
  qed
qed (simp_all add: requeue_def)

text \<open>Every tick runs the process or takes one of the waiting processes ahead of it off the way.\<close>

lemma tick_progress:
  fixes s :: "('d, 'a) kernel_scheme"
  assumes inv: "sched_inv H Q s" and c: "c < 2" and r: "Q Ready_queue = pcb_nodes (as @ p # bs)"
    and p: "Pcb p \<notin> set (runnings s)"
  shows "\<exists>s' Q' as' bs'. timer_tick B c s = Some s' \<and> sched_inv H Q' s' \<and>
    (Pcb p \<in> set (runnings s') \<or>
     Pcb p \<notin> set (runnings s') \<and> Q' Ready_queue = pcb_nodes (as' @ p # bs') \<and>
     length (waiting (runnings s') as') < length (waiting (runnings s) as))"
proof -
  note D = sched_invD [OF inv]
  have d: "distinct (as @ p # bs)" using kq_queue(2) [OF D(1) kqD(2) [OF D(1)]] r distinct_map [of "\<lambda>i. Pcb_list (Pcb i)" "as @ p # bs"] by (simp only: simp_thms)
  have c2: "c = 0 \<or> c = 1" using c by auto
  obtain s' Q' ws where t: "timer_tick B c s = Some s'" "sched_inv H Q' s'"
    "Q' Ready_queue = pcb_nodes (requeue (runnings s ! c) ((as @ p # bs) @ ws))"
    "runnings s' = (runnings s)[c := pick (requeue (runnings s ! c) ((as @ p # bs) @ ws)) (runnings s ! (1 - c)) c]"
    using tick_queue [OF inv c r] by blast
  have "runnings s ! c \<in> set (runnings s)" using D(3) c by simp
  then have cur: "runnings s ! c \<noteq> Pcb p" using p by metis
  define o' where "o' = runnings s ! (1 - c)"
  have "o' \<in> set (runnings s)" using D(3) by (simp add: o'_def)
  then have o: "o' \<noteq> Pcb p" using p by metis
  define as' where "as' = filter (\<lambda>i. Pcb i \<noteq> runnings s ! c) as"
  obtain bs' where rot: "requeue (runnings s ! c) ((as @ p # bs) @ ws) = as' @ p # bs'"
    using requeue_ahead [OF d cur, of ws] unfolding as'_def by blast
  define nx where "nx = pick (as' @ p # bs') o' c"
  have rs: "runnings s = (if c = 0 then [runnings s ! c, o'] else [o', runnings s ! c])"
    using D(3) c2 by (auto simp: o'_def list_eq_iff_nth_eq less_2_cases_iff)
  have rs': "set (runnings s') = {nx, o'}"
  proof -
    obtain a where "runnings s = (if c = 0 then [a, o'] else [o', a])" using rs by blast
    moreover have "runnings s' = (runnings s)[c := nx]" using t(4) unfolding rot o'_def [symmetric] nx_def .
    ultimately show ?thesis using c2 by auto
  qed
  have w: "waiting (runnings s) as = filter (\<lambda>i. Pcb i \<noteq> o') as'"
    unfolding waiting_def as'_def by (subst rs) (auto intro: filter_cong)
  show ?thesis
  proof (cases "waiting (runnings s) as")
    case Nil
    then have "List.find (\<lambda>i. Pcb i \<noteq> o') (as' @ p # bs') = Some p"
      using o w by (auto simp: find_append_none filter_empty_conv)
    then have "nx = Pcb p" by (simp add: nx_def pick_def)
    then show ?thesis using t rs' by blast
  next
    case (Cons i is')
    then have "filter (\<lambda>i. Pcb i \<noteq> o') as' = i # is'" using w by simp
    then obtain us vs where as': "as' = us @ i # vs" "\<forall>j\<in>set us. Pcb j = o'" "Pcb i \<noteq> o'"
      unfolding filter_eq_Cons_iff by blast
    then have "nx = Pcb i" by (simp add: nx_def pick_def find_append_none)
    moreover have "i \<in> set as'" using as'(1) by simp
    then have "i \<noteq> p" using d unfolding as'_def by auto
    moreover have "waiting (runnings s') as' = filter (\<lambda>j. j \<noteq> i) (filter (\<lambda>j. Pcb j \<noteq> o') as')"
      unfolding waiting_def using rs' \<open>nx = Pcb i\<close> by (auto intro: filter_cong)
    then have "length (waiting (runnings s') as') < length (waiting (runnings s) as)"
      unfolding w using as' length_filter_less [of i "filter (\<lambda>j. Pcb j \<noteq> o') as'" "\<lambda>j. j \<noteq> i"] by simp
    moreover have "Pcb p \<notin> set (runnings s')" using calculation(1,2) rs' o by auto
    ultimately show ?thesis using t(1-3) unfolding rot by blast
  qed
qed

lemma ticks_run:
  fixes s :: "('d, 'a) kernel_scheme"
  assumes "sched_inv H Q s" "Q Ready_queue = pcb_nodes (as @ p # bs)" "Pcb p \<notin> set (runnings s)"
    and "\<forall>c\<in>set cs. c < 2" "length (waiting (runnings s) as) < length cs"
  shows "\<exists>k s' Q'. k \<le> length cs \<and> timer_ticks B (take k cs) s = Some s' \<and> sched_inv H Q' s' \<and> Pcb p \<in> set (runnings s')"
  using assms
proof (induction cs arbitrary: s Q as bs)
  case Nil
  then show ?case by simp
next
  case (Cons c cs)
  have c: "c < 2" using Cons.prems(4) by simp
  obtain s1 Q1 as1 bs1 where t: "timer_tick B c s = Some s1" "sched_inv H Q1 s1"
    and alt: "Pcb p \<in> set (runnings s1) \<or>
     Pcb p \<notin> set (runnings s1) \<and> Q1 Ready_queue = pcb_nodes (as1 @ p # bs1) \<and>
     length (waiting (runnings s1) as1) < length (waiting (runnings s) as)"
    using tick_progress [OF Cons.prems(1) c Cons.prems(2,3)] by blast
  from alt show ?case
  proof
    assume "Pcb p \<in> set (runnings s1)"
    then show ?thesis using t by (intro exI [of _ 1] exI [of _ s1] exI [of _ Q1]) simp
  next
    assume a: "Pcb p \<notin> set (runnings s1) \<and> Q1 Ready_queue = pcb_nodes (as1 @ p # bs1) \<and>
     length (waiting (runnings s1) as1) < length (waiting (runnings s) as)"
    then obtain k s' Q' where "k \<le> length cs" "timer_ticks B (take k cs) s1 = Some s'" "sched_inv H Q' s'"
      "Pcb p \<in> set (runnings s')"
      using Cons.IH [OF t(2), of as1 bs1] Cons.prems(4,5) by auto
    then show ?thesis using t(1) by (intro exI [of _ "Suc k"] exI [of _ s'] exI [of _ Q']) simp
  qed
qed

section \<open>A state with runnable processes\<close>

text \<open>Three processes in the ready queue; hart 0 runs the first one, hart 1 is idle.\<close>

definition pcb0 :: pcb_t where
  "pcb0 = \<lparr>kernel_sp = 0, user_sp = 0, trapframe = 0, switchto_context = 0, pgdir = PGDIR_VA, pid = 0, tid = 0,
     status = TASK_READY, cursor_x = 0, cursor_y = 0, wakeup_time = 0, cwd_inum = 0, pname = replicate 16 0\<rparr>"

definition kernel_heads :: "node set" where
  "kernel_heads = {Ready_queue, Sleep_queue, Send_block_queue, Recv_block_queue, Present_pages_queue, Swapped_pages_queue}
     \<union> range Wait_list \<union> range Mutex_queue \<union> range Barrier_list \<union> range Cond_list \<union> range Mbox_send \<union> range Mbox_recv"

definition kernel_boot :: "nat \<Rightarrow> 'd \<Rightarrow> 'd kernel" where
  "kernel_boot n d = \<lparr>
     mem = mem (init_kernel_freemem (mm_boot d)), freemem_list = FREEMEM_KERNEL,
     lnk = fold (\<lambda>x. list_add_tail x Ready_queue) (pcb_nodes [0..<n]) \<lparr>nxt = id, prv = id\<rparr>,
     pages = pages (mm_boot d), page_id = 0, present_pages_num = 0, disk_sectors_startid = 0,
     share_pages = share_pages (mm_boot d), sd = d,
     pcb = (\<lambda>r. case r of
        Pcb i \<Rightarrow> pcb0\<lparr>pid := (if i < n then int i + 1 else 0), tid := 1,
                   status := (if i = 0 then TASK_RUNNING else TASK_READY)\<rparr>
      | _ \<Rightarrow> pcb0\<lparr>status := TASK_RUNNING\<rparr>),
     threads = map (\<lambda>i. if 0 < i \<and> i \<le> n then 1 else 0) [0..<NUM_MAX_SUB_THREADS],
     runnings = [Pcb 0, Pid0_pcb2], current_running = Pcb 0, process_id = int n + 1, cpu = 0, satp = 0,
     rdtime = (\<lambda>k. of_nat k * 100), time_reads = 0, time_elapsed = 0, time_base = 100, timer_irq = 0,
     tasks = [], tasks_num = 0, kernel_sectors_num = 0,
     mlocks = replicate LOCK_NUM \<lparr>mlock = UNLOCKED, mkey = 0, mpid = 0\<rparr>,
     barriers = replicate BARRIER_NUM \<lparr>bcurrent = 0, goal = 0, bkey = 0\<rparr>,
     conditions = replicate CONDITION_NUM \<lparr>ckey = 0\<rparr>,
     mailboxes = replicate MBOX_NUM \<lparr>mbname = replicate 32 0, mbbuf = replicate 64 0, mutex_id = -1, mbref = 0,
       nread = 0, nwrite = 0, round_read = 0, round_write = 0\<rparr>,
     nic = e1000_configure_rx (e1000_configure_tx nic_boot), pcb_addr = (\<lambda>_. 0xffffffc050400000),
     ret_from_kernel_addr = 0xffffffc050202000\<rparr>"

definition boot_queues :: "nat \<Rightarrow> node \<Rightarrow> node list" where
  "boot_queues n = (\<lambda>_. [])(Ready_queue := pcb_nodes [0..<n])"

lemma kernel_boot_page_inv: "page_inv kernel_heads (boot_queues n) [] [] (kernel_boot n d)"
proof -
  have "queues kernel_heads \<lparr>nxt = id, prv = id\<rparr> (\<lambda>_. [])" by (auto simp: queues_def is_queue_def)
  moreover have "Ready_queue \<in> kernel_heads" "set (pcb_nodes [0..<n]) \<inter> kernel_heads = {}"
    by (auto simp: kernel_heads_def)
  moreover have "distinct (pcb_nodes [0..<n])" by (simp add: distinct_map inj_on_def)
  ultimately have q: "queues kernel_heads (lnk (kernel_boot n d)) (boot_queues n)"
    using queues_fold_add_tail [of kernel_heads "\<lparr>nxt = id, prv = id\<rparr>" "\<lambda>_. []" Ready_queue "pcb_nodes [0..<n]"]
    by (simp add: kernel_boot_def boot_queues_def)
  show ?thesis
    by (rule page_invI [OF q]) (auto simp: kernel_heads_def boot_queues_def kernel_boot_def mm_boot_def split: if_splits)
qed

lemma kernel_boot_inv:
  assumes "0 < n"
  shows "sched_inv kernel_heads (boot_queues n) (kernel_boot n d)"
proof -
  have k: "kq kernel_heads (boot_queues n) (kernel_boot n d)"
    using kernel_boot_page_inv by (rule kqI) (auto simp: kernel_heads_def boot_queues_def split: if_splits)
  have "status_ok kernel_heads (boot_queues n) (kernel_boot n d)"
    by (auto simp: status_ok_def boot_queues_def kernel_boot_def split: if_splits)
  then show ?thesis
    using assms by (intro sched_invI [OF k])
      (auto simp: kernel_boot_def hart_ok_def boot_queues_def pid0_of_def split: if_splits)
qed

text \<open>After boot the allocator has all of the free memory.\<close>

lemma kernel_boot_pages_rep:
  assumes "m \<le> 57344" shows "pages_rep (kernel_boot n d) {} m"
  using init_pages_rep [OF assms, of "kernel_boot n d"]
  by (rule pages_rep_upd) (simp_all add: init_kernel_freemem_def store_def kernel_boot_def mm_boot_def)

section \<open>Properties\<close>

text \<open>
  C1: one call of \<^verbatim>\<open>do_scheduler\<close> is a round-robin step and always returns. The sleepers that are due
  and the processes waiting for the network are appended to the ready queue, the current process
  goes to its end, and the first process of the queue that the other hart does not run becomes the
  current one (the hart's idle task when there is none); the scheduling invariant is kept.
\<close>
theorem do_scheduler_round_robin:
  fixes s :: "('d, 'a) kernel_scheme"
  assumes "sched_inv H Q s" "Q Ready_queue = pcb_nodes ps" "Q Sleep_queue = pcb_nodes sl"
    and "Q Send_block_queue = pcb_nodes sn" "Q Recv_block_queue = pcb_nodes rc"
  shows "\<exists>s' Q'. do_scheduler B s = Some s' \<and> sched_inv H Q' s' \<and>
    Q' Ready_queue = pcb_nodes (requeue (current_running s) (ps @ wakes sl sn rc s)) \<and>
    runnings s' = (runnings s)[cpu s := pick (requeue (current_running s) (ps @ wakes sl sn rc s))
      (runnings s ! (1 - cpu s)) (cpu s)] \<and> cpu s' = cpu s"
  using do_scheduler_spec [OF assms] .

theorem do_scheduler_round_robin_witness:
  "\<exists>s' Q'. do_scheduler \<lparr>sd_read = \<lambda>_ _ _. [], sd_write = \<lambda>d _ _ _. d\<rparr> (kernel_boot 3 ()) = Some s' \<and>
    sched_inv kernel_heads Q' s' \<and> Q' Ready_queue = pcb_nodes [1, 2, 0] \<and> runnings s' = [Pcb 1, Pid0_pcb2]"
proof -
  have l: "[0..<3] = [0, 1, 2::nat]" by (simp add: upt_rec)
  have i: "sched_inv kernel_heads (boot_queues 3) (kernel_boot 3 ())" by (rule kernel_boot_inv) simp
  have q: "boot_queues 3 Ready_queue = pcb_nodes [0, 1, 2]" "boot_queues 3 Sleep_queue = pcb_nodes []"
    "boot_queues 3 Send_block_queue = pcb_nodes []" "boot_queues 3 Recv_block_queue = pcb_nodes []"
    by (simp_all add: boot_queues_def l)
  have r: "requeue (current_running (kernel_boot 3 ())) ([0, 1, 2] @ wakes [] [] [] (kernel_boot 3 ())) = [1, 2, 0]"
    by (simp add: requeue_def wakes_def kernel_boot_def)
  show ?thesis
    using do_scheduler_round_robin [OF i q, of "\<lparr>sd_read = \<lambda>_ _ _. [], sd_write = \<lambda>d _ _ _. d\<rparr>"] unfolding r
    by (auto simp: kernel_boot_def pick_def)
qed

text \<open>
  C2: no ready process starves. Whatever the harts on which the timer interrupts arrive, a process
  that waits in the ready queue runs after at most one more interrupt than there are waiting
  processes ahead of it; processes woken meanwhile do not get in its way.
\<close>
theorem no_starvation:
  fixes s :: "('d, 'a) kernel_scheme"
  assumes "sched_inv H Q s" "Q Ready_queue = pcb_nodes (as @ p # bs)" "Pcb p \<notin> set (runnings s)"
    and "\<forall>c\<in>set cs. c < 2" "length (waiting (runnings s) as) < length cs"
  shows "\<exists>k s' Q'. k \<le> length cs \<and> timer_ticks B (take k cs) s = Some s' \<and> sched_inv H Q' s' \<and>
    Pcb p \<in> set (runnings s')"
  using ticks_run [OF assms] .

theorem no_starvation_witness:
  "\<exists>k s' Q'. k \<le> length [0, 1::nat] \<and>
    timer_ticks \<lparr>sd_read = \<lambda>_ _ _. [], sd_write = \<lambda>d _ _ _. d\<rparr> (take k [0, 1]) (kernel_boot 3 ()) = Some s' \<and>
    sched_inv kernel_heads Q' s' \<and> Pcb 2 \<in> set (runnings s')"
proof -
  have i: "sched_inv kernel_heads (boot_queues 3) (kernel_boot 3 ())" by (rule kernel_boot_inv) simp
  have q: "boot_queues 3 Ready_queue = pcb_nodes ([0, 1] @ 2 # [])" by (simp add: boot_queues_def upt_rec)
  have p: "Pcb 2 \<notin> set (runnings (kernel_boot 3 ()))" by (simp add: kernel_boot_def)
  have w: "length (waiting (runnings (kernel_boot 3 ())) [0, 1]) < length [0, 1::nat]"
    by (simp add: kernel_boot_def waiting_def)
  have c: "\<forall>c\<in>set [0, 1::nat]. c < 2" by simp
  show ?thesis using no_starvation [OF i q p c w] .
qed

end
