(* ===== verification/Locks.thy ===== *)
theory Locks
  imports Sched_Live
begin

text \<open>
  Synchronisation: \<open>src/kernel/locking/lock.c\<close>. The kernel runs under one lock, so a swap on a
  mutex word is a read and a write of the state. An operation that calls \<^verbatim>\<open>do_block\<close> leaves the
  process off the processor; what it does when it runs again is a second definition
  (\<open>do_condition_wait_resume\<close>, and \<open>mbox_send_locked\<close> or \<open>mbox_send_retry\<close>, as the outcome says).
\<close>

section \<open>Mutexes\<close>

definition spin_lock_try_acquire :: "lock_status_t \<Rightarrow> lock_status_t \<times> lock_status_t" where
  "spin_lock_try_acquire l = (l, LOCKED)"

definition spin_lock_release :: "lock_status_t \<Rightarrow> lock_status_t" where
  "spin_lock_release l = UNLOCKED"

definition init_locks :: "('d, 'a) kernel_scheme \<Rightarrow> ('d, 'a) kernel_scheme" where
  "init_locks s = fold (\<lambda>i s. s\<lparr>
      lnk := INIT_LIST_HEAD (Mutex_queue i) (lnk s),
      mlocks := (mlocks s)[i := (mlocks s ! i)\<lparr>mlock := UNLOCKED, mpid := 0\<rparr>]\<rparr>) [0..<LOCK_NUM] s"

text \<open>The remainder \<^verbatim>\<open>key % n\<close> of C, as an index; a negative one is outside the array.\<close>

definition c_index :: "int \<Rightarrow> nat \<Rightarrow> nat option" where
  "c_index k n = (if 0 \<le> k \<and> k < int n then Some (nat k) else None)"

definition do_mutex_lock_init :: "int \<Rightarrow> ('d, 'a) kernel_scheme \<Rightarrow> (int \<times> ('d, 'a) kernel_scheme) option" where
  "do_mutex_lock_init key s = do {
     i \<leftarrow> c_index (key smod int LOCK_NUM) LOCK_NUM;
     Some (int i, s\<lparr>mlocks := (mlocks s)[i := (mlocks s ! i)\<lparr>mkey := key\<rparr>]\<rparr>)
   }"

text \<open>The result says whether the caller goes on (\<open>True\<close>) or has been blocked.\<close>

definition do_mutex_lock_acquire ::
    "'d sdcard \<Rightarrow> int \<Rightarrow> ('d, 'a) kernel_scheme \<Rightarrow> (bool \<times> ('d, 'a) kernel_scheme) option" where
  "do_mutex_lock_acquire B idx s = do {
     i \<leftarrow> c_index idx LOCK_NUM;
     let (old, new) = spin_lock_try_acquire (mlock (mlocks s ! i));
     let s1 = s\<lparr>mlocks := (mlocks s)[i := (mlocks s ! i)\<lparr>mlock := new\<rparr>]\<rparr>;
     (if old = UNLOCKED
      then Some (True, s1\<lparr>mlocks := (mlocks s1)[i := (mlocks s1 ! i)\<lparr>mpid := pid (pcb s1 (current_running s1))\<rparr>]\<rparr>)
      else do { s2 \<leftarrow> do_block B (Pcb_list (current_running s1)) (Mutex_queue i) s1; Some (False, s2) })
   }"

definition do_mutex_lock_release :: "int \<Rightarrow> ('d, 'a) kernel_scheme \<Rightarrow> ('d, 'a) kernel_scheme option" where
  "do_mutex_lock_release idx s = do {
     i \<leftarrow> c_index idx LOCK_NUM;
     (if is_queue_empty (Mutex_queue i) (lnk s)
      then Some (s\<lparr>mlocks := (mlocks s)[i := (mlocks s ! i)\<lparr>mlock := spin_lock_release (mlock (mlocks s ! i)), mpid := 0\<rparr>]\<rparr>)
      else (case nxt (lnk s) (Mutex_queue i) of
              Pcb_list p \<Rightarrow>
                do_unblock (Pcb_list p) (s\<lparr>mlocks := (mlocks s)[i := (mlocks s ! i)\<lparr>mpid := pid (pcb s p)\<rparr>]\<rparr>)
            | _ \<Rightarrow> None))
   }"

section \<open>Barriers\<close>

definition init_barriers :: "('d, 'a) kernel_scheme \<Rightarrow> ('d, 'a) kernel_scheme" where
  "init_barriers s = fold (\<lambda>i s. s\<lparr>
      lnk := INIT_LIST_HEAD (Barrier_list i) (lnk s),
      barriers := (barriers s)[i := (barriers s ! i)\<lparr>goal := 0, bcurrent := 0\<rparr>]\<rparr>) [0..<BARRIER_NUM] s"

definition do_barrier_init :: "int \<Rightarrow> int \<Rightarrow> ('d, 'a) kernel_scheme \<Rightarrow> (int \<times> ('d, 'a) kernel_scheme) option" where
  "do_barrier_init key g s = do {
     i \<leftarrow> c_index (key smod int BARRIER_NUM) BARRIER_NUM;
     Some (int i, s\<lparr>barriers := (barriers s)[i := (barriers s ! i)\<lparr>bkey := key, goal := g\<rparr>]\<rparr>)
   }"

definition do_barrier_wait ::
    "'d sdcard \<Rightarrow> int \<Rightarrow> ('d, 'a) kernel_scheme \<Rightarrow> (bool \<times> ('d, 'a) kernel_scheme) option" where
  "do_barrier_wait B idx s = do {
     i \<leftarrow> c_index idx BARRIER_NUM;
     let b = (barriers s ! i)\<lparr>bcurrent := bcurrent (barriers s ! i) + 1\<rparr>;
     let s1 = s\<lparr>barriers := (barriers s)[i := b]\<rparr>;
     (if bcurrent b < goal b
      then do { s2 \<leftarrow> do_block B (Pcb_list (current_running s1)) (Barrier_list i) s1; Some (False, s2) }
      else do { s2 \<leftarrow> unblock_all (Barrier_list i) s1;
                Some (True, s2\<lparr>barriers := (barriers s2)[i := (barriers s2 ! i)\<lparr>bcurrent := 0\<rparr>]\<rparr>) })
   }"

definition do_barrier_destroy :: "int \<Rightarrow> ('d, 'a) kernel_scheme \<Rightarrow> ('d, 'a) kernel_scheme option" where
  "do_barrier_destroy idx s = do {
     i \<leftarrow> c_index idx BARRIER_NUM;
     list_drain lnk (Barrier_list i) (\<lambda>n s. Some (s\<lparr>lnk := list_delete_entry n (lnk s)\<rparr>))
       (s\<lparr>barriers := (barriers s)[i := (barriers s ! i)\<lparr>bcurrent := 0, bkey := 0\<rparr>]\<rparr>)
   }"

section \<open>Condition variables\<close>

definition init_conditions :: "('d, 'a) kernel_scheme \<Rightarrow> ('d, 'a) kernel_scheme" where
  "init_conditions s = fold (\<lambda>i s. s\<lparr>
      lnk := INIT_LIST_HEAD (Cond_list i) (lnk s),
      conditions := (conditions s)[i := (conditions s ! i)\<lparr>ckey := 0\<rparr>]\<rparr>) [0..<CONDITION_NUM] s"

definition do_condition_init :: "int \<Rightarrow> ('d, 'a) kernel_scheme \<Rightarrow> (int \<times> ('d, 'a) kernel_scheme) option" where
  "do_condition_init key s = do {
     i \<leftarrow> c_index (key smod int CONDITION_NUM) CONDITION_NUM;
     Some (int i, s\<lparr>conditions := (conditions s)[i := (conditions s ! i)\<lparr>ckey := key\<rparr>]\<rparr>)
   }"

definition do_condition_wait ::
    "'d sdcard \<Rightarrow> int \<Rightarrow> int \<Rightarrow> ('d, 'a) kernel_scheme \<Rightarrow> ('d, 'a) kernel_scheme option" where
  "do_condition_wait B cidx midx s = do {
     c \<leftarrow> c_index cidx CONDITION_NUM;
     s1 \<leftarrow> do_mutex_lock_release midx s;
     do_block B (Pcb_list (current_running s1)) (Cond_list c) s1
   }"

definition do_condition_wait_resume ::
    "'d sdcard \<Rightarrow> int \<Rightarrow> ('d, 'a) kernel_scheme \<Rightarrow> (bool \<times> ('d, 'a) kernel_scheme) option" where
  "do_condition_wait_resume B midx s = do_mutex_lock_acquire B midx s"

definition do_condition_signal :: "int \<Rightarrow> ('d, 'a) kernel_scheme \<Rightarrow> ('d, 'a) kernel_scheme option" where
  "do_condition_signal cidx s = do {
     c \<leftarrow> c_index cidx CONDITION_NUM;
     (if is_queue_empty (Cond_list c) (lnk s) then Some s
      else do_unblock (nxt (lnk s) (Cond_list c)) s)
   }"

definition do_condition_broadcast :: "int \<Rightarrow> ('d, 'a) kernel_scheme \<Rightarrow> ('d, 'a) kernel_scheme option" where
  "do_condition_broadcast cidx s = do {
     c \<leftarrow> c_index cidx CONDITION_NUM;
     unblock_all (Cond_list c) s
   }"

definition do_condition_destroy :: "int \<Rightarrow> ('d, 'a) kernel_scheme \<Rightarrow> ('d, 'a) kernel_scheme option" where
  "do_condition_destroy cidx s = do {
     c \<leftarrow> c_index cidx CONDITION_NUM;
     unblock_all (Cond_list c) (s\<lparr>conditions := (conditions s)[c := (conditions s ! c)\<lparr>ckey := 0\<rparr>]\<rparr>)
   }"

section \<open>Mailboxes\<close>

definition upd_mbox :: "nat \<Rightarrow> (mailbox_t \<Rightarrow> mailbox_t) \<Rightarrow> ('d, 'a) kernel_scheme \<Rightarrow> ('d, 'a) kernel_scheme" where
  "upd_mbox i f s = s\<lparr>mailboxes := (mailboxes s)[i := f (mailboxes s ! i)]\<rparr>"

text \<open>\<^verbatim>\<open>bzero\<close> of the two arrays and the reset of the counters.\<close>

definition mbox_clear :: "mailbox_t \<Rightarrow> mailbox_t" where
  "mbox_clear m = m\<lparr>mbname := replicate 32 0, mbbuf := replicate 64 0, nread := 0, nwrite := 0,
     round_read := 0, round_write := 0, mutex_id := -1\<rparr>"

definition init_mbox :: "('d, 'a) kernel_scheme \<Rightarrow> ('d, 'a) kernel_scheme" where
  "init_mbox s = fold (\<lambda>i s. (upd_mbox i (\<lambda>m. (mbox_clear m)\<lparr>mbref := 0\<rparr>) s)\<lparr>
      lnk := INIT_LIST_HEAD (Mbox_recv i) (INIT_LIST_HEAD (Mbox_send i) (lnk s))\<rparr>) [0..<MBOX_NUM] s"

text \<open>The search by name; a string without terminator is an overrun (outer \<open>None\<close>).\<close>

fun find_name :: "u8 list \<Rightarrow> mailbox_t list \<Rightarrow> nat \<Rightarrow> nat option option" where
  "find_name name [] k = Some None"
| "find_name name (m # ms) k = do {
     c \<leftarrow> strcmp name (mbname m);
     (if c = 0 then Some (Some k) else find_name name ms (Suc k))
   }"

definition do_mbox_open :: "u8 list \<Rightarrow> ('d, 'a) kernel_scheme \<Rightarrow> (int \<times> ('d, 'a) kernel_scheme) option" where
  "do_mbox_open name s = do {
     found \<leftarrow> find_name name (mailboxes s) 0;
     (case found of
        Some i \<Rightarrow> Some (int i, upd_mbox i (\<lambda>m. m\<lparr>mbref := mbref m + 1\<rparr>) s)
      | None \<Rightarrow>
          (case find_index (\<lambda>m. mbref m = 0) (mailboxes s) of
             None \<Rightarrow> Some (-1, s)
           | Some i \<Rightarrow> do {
               nm \<leftarrow> strcpy (mbname (mailboxes s ! i)) name;
               Some (int i, upd_mbox i (\<lambda>m. m\<lparr>mbname := nm, mutex_id := int i, mbref := mbref m + 1\<rparr>) s)
             }))
   }"

definition do_mbox_close :: "int \<Rightarrow> ('d, 'a) kernel_scheme \<Rightarrow> ('d, 'a) kernel_scheme option" where
  "do_mbox_close idx s = do {
     i \<leftarrow> c_index idx MBOX_NUM;
     let s1 = upd_mbox i (\<lambda>m. m\<lparr>mbref := mbref m - 1\<rparr>) s;
     (if mbref (mailboxes s1 ! i) = 0
      then do { s2 \<leftarrow> do_mutex_lock_release (mutex_id (mailboxes s1 ! i))
                  (upd_mbox i (\<lambda>m. m\<lparr>mbname := replicate 32 0, mbbuf := replicate 64 0\<rparr>) s1);
                Some (upd_mbox i mbox_clear s2) }
      else Some s1)
   }"

definition written :: "mailbox_t \<Rightarrow> int" where
  "written m = (round_write m - round_read m) * MAX_MBOX_LENGTH + (nwrite m - nread m)"

definition can_write_to_buffer :: "mailbox_t \<Rightarrow> int \<Rightarrow> bool" where
  "can_write_to_buffer m msg_len \<longleftrightarrow> msg_len + written m \<le> MAX_MBOX_LENGTH"

definition can_read_from_buffer :: "mailbox_t \<Rightarrow> int \<Rightarrow> bool" where
  "can_read_from_buffer m msg_len \<longleftrightarrow> written m \<ge> msg_len"

text \<open>The copy loops. An index outside the buffer has no result.\<close>

fun mbox_write :: "u8 list \<Rightarrow> mailbox_t \<Rightarrow> mailbox_t option" where
  "mbox_write [] m = Some m"
| "mbox_write (b # bs) m =
     (if 0 \<le> nwrite m \<and> nwrite m < int (length (mbbuf m))
      then let m1 = m\<lparr>mbbuf := (mbbuf m)[nat (nwrite m) := b], nwrite := nwrite m + 1\<rparr>
           in mbox_write bs (if nwrite m1 \<ge> MAX_MBOX_LENGTH
                then m1\<lparr>nwrite := nwrite m1 smod MAX_MBOX_LENGTH, round_write := round_write m1 + 1\<rparr> else m1)
      else None)"

fun mbox_read :: "nat \<Rightarrow> mailbox_t \<Rightarrow> (u8 list \<times> mailbox_t) option" where
  "mbox_read 0 m = Some ([], m)"
| "mbox_read (Suc n) m =
     (if 0 \<le> nread m \<and> nread m < int (length (mbbuf m))
      then let b = mbbuf m ! nat (nread m);
               m1 = m\<lparr>nread := nread m + 1\<rparr>;
               m2 = m1\<lparr>nread := nread m1 + 1\<rparr>
           in do { (bs, m3) \<leftarrow> mbox_read n (if nread m2 \<ge> MAX_MBOX_LENGTH
                     then m2\<lparr>nread := nread m2 smod MAX_MBOX_LENGTH, round_read := round_read m2 + 1\<rparr> else m2);
                   Some (b # bs, m3) }
      else None)"

text \<open>
  How a mailbox call leaves the processor: it returns, or waits in the queue of the mutex (then it
  goes on with the test under the mutex), or waits in the mailbox's list (then it starts over by
  acquiring the mutex). The number counts the waits so far.
\<close>

datatype 'r mbox_outcome = Returned int 'r | In_mutex int | In_list int

definition mbox_send_locked :: "'d sdcard \<Rightarrow> nat \<Rightarrow> int \<Rightarrow> u8 list \<Rightarrow> int \<Rightarrow>
    ('d, 'a) kernel_scheme \<Rightarrow> (unit mbox_outcome \<times> ('d, 'a) kernel_scheme) option" where
  "mbox_send_locked B i mutex msg bc s =
     (if \<not> can_write_to_buffer (mailboxes s ! i) (int (length msg))
      then do { s1 \<leftarrow> do_mutex_lock_release mutex s;
                s2 \<leftarrow> do_block B (Pcb_list (current_running s1)) (Mbox_send i) s1;
                Some (In_list (bc + 1), s2) }
      else do { m \<leftarrow> mbox_write msg (mailboxes s ! i);
                s1 \<leftarrow> unblock_all (Mbox_recv i) (upd_mbox i (\<lambda>_. m) s);
                s2 \<leftarrow> do_mutex_lock_release mutex s1;
                Some (Returned bc (), s2) })"

definition mbox_send_retry :: "'d sdcard \<Rightarrow> nat \<Rightarrow> int \<Rightarrow> u8 list \<Rightarrow> int \<Rightarrow>
    ('d, 'a) kernel_scheme \<Rightarrow> (unit mbox_outcome \<times> ('d, 'a) kernel_scheme) option" where
  "mbox_send_retry B i mutex msg bc s = do {
     (got, s1) \<leftarrow> do_mutex_lock_acquire B mutex s;
     (if got then mbox_send_locked B i mutex msg bc s1 else Some (In_mutex bc, s1))
   }"

definition do_mbox_send :: "'d sdcard \<Rightarrow> int \<Rightarrow> u8 list \<Rightarrow>
    ('d, 'a) kernel_scheme \<Rightarrow> (unit mbox_outcome \<times> ('d, 'a) kernel_scheme) option" where
  "do_mbox_send B idx msg s = do {
     i \<leftarrow> c_index idx MBOX_NUM;
     mbox_send_retry B i (mutex_id (mailboxes s ! i)) msg 0 s
   }"

definition mbox_recv_locked :: "'d sdcard \<Rightarrow> nat \<Rightarrow> int \<Rightarrow> nat \<Rightarrow> int \<Rightarrow>
    ('d, 'a) kernel_scheme \<Rightarrow> (u8 list mbox_outcome \<times> ('d, 'a) kernel_scheme) option" where
  "mbox_recv_locked B i mutex len bc s =
     (if \<not> can_read_from_buffer (mailboxes s ! i) (int len)
      then do { s1 \<leftarrow> do_mutex_lock_release mutex s;
                s2 \<leftarrow> do_block B (Pcb_list (current_running s1)) (Mbox_recv i) s1;
                Some (In_list (bc + 1), s2) }
      else do { (bs, m) \<leftarrow> mbox_read len (mailboxes s ! i);
                s1 \<leftarrow> unblock_all (Mbox_send i) (upd_mbox i (\<lambda>_. m) s);
                s2 \<leftarrow> do_mutex_lock_release mutex s1;
                Some (Returned bc bs, s2) })"

definition mbox_recv_retry :: "'d sdcard \<Rightarrow> nat \<Rightarrow> int \<Rightarrow> nat \<Rightarrow> int \<Rightarrow>
    ('d, 'a) kernel_scheme \<Rightarrow> (u8 list mbox_outcome \<times> ('d, 'a) kernel_scheme) option" where
  "mbox_recv_retry B i mutex len bc s = do {
     (got, s1) \<leftarrow> do_mutex_lock_acquire B mutex s;
     (if got then mbox_recv_locked B i mutex len bc s1 else Some (In_mutex bc, s1))
   }"

definition do_mbox_recv :: "'d sdcard \<Rightarrow> int \<Rightarrow> nat \<Rightarrow>
    ('d, 'a) kernel_scheme \<Rightarrow> (u8 list mbox_outcome \<times> ('d, 'a) kernel_scheme) option" where
  "do_mbox_recv B idx len s = do {
     i \<leftarrow> c_index idx MBOX_NUM;
     mbox_recv_retry B i (mutex_id (mailboxes s ! i)) len 0 s
   }"

section \<open>Mutexes refine an abstract lock\<close>

text \<open>The contract of a mutex: an owner, and the waiters in their order of arrival.\<close>

record amutex =
  owner :: "nat option"
  waiters :: "nat list"

definition acquire :: "nat \<Rightarrow> amutex \<Rightarrow> amutex" where
  "acquire p a = (if owner a = None then a\<lparr>owner := Some p\<rparr> else a\<lparr>waiters := waiters a @ [p]\<rparr>)"

definition release :: "amutex \<Rightarrow> amutex" where
  "release a = (case waiters a of [] \<Rightarrow> a\<lparr>owner := None\<rparr> | p # ps \<Rightarrow> \<lparr>owner = Some p, waiters = ps\<rparr>)"

definition mutex_rep :: "(node \<Rightarrow> node list) \<Rightarrow> nat \<Rightarrow> ('d, 'a) kernel_scheme \<Rightarrow> amutex \<Rightarrow> bool" where
  "mutex_rep Q i s a \<longleftrightarrow> i < LOCK_NUM \<and> length (mlocks s) = LOCK_NUM \<and>
     Q (Mutex_queue i) = pcb_nodes (waiters a) \<and>
     (mlock (mlocks s ! i) = LOCKED \<longleftrightarrow> owner a \<noteq> None) \<and> (owner a = None \<longrightarrow> waiters a = []) \<and>
     mpid (mlocks s ! i) = (case owner a of Some p \<Rightarrow> pid (pcb s (Pcb p)) | None \<Rightarrow> 0)"

lemma c_index_of_nat [simp]: "c_index (int i) n = (if i < n then Some i else None)"
  by (simp add: c_index_def)

lemma sched_inv_mlocks: "sched_inv H Q (s\<lparr>mlocks := ms\<rparr>) = sched_inv H Q s"
  by (rule sched_inv_cong) simp_all

lemma do_block_facts:
  fixes s :: "('d, 'a) kernel_scheme"
  assumes inv: "sched_inv H Q s" and cur: "current_running s = Pcb p" and g: "g \<in> H" "g \<notin> page_heads" "g \<noteq> Ready_queue"
  shows "\<exists>s' Q'. do_block B (Pcb_list (Pcb p)) g s = Some s' \<and> sched_inv H Q' s' \<and> Q' g = Q g @ [Pcb_list (Pcb p)] \<and>
    (\<forall>h. h \<notin> page_heads \<union> {g, Ready_queue} \<longrightarrow> Q' h = Q h) \<and> (\<forall>r. pid (pcb s' r) = pid (pcb s r)) \<and>
    status (pcb s' (Pcb p)) = TASK_BLOCKED \<and> mlocks s' = mlocks s \<and> barriers s' = barriers s \<and> mailboxes s' = mailboxes s"
proof -
  have k: "kq H Q s" using sched_invD(1) [OF inv] .
  obtain ps where ps: "Q Ready_queue = pcb_nodes ps" using kq_pcb [OF k kqD(2) [OF k]] by auto
  obtain s' Q' nx where s': "do_block B (Pcb_list (Pcb p)) g s = Some s'" "sched_inv H Q' s'"
    "Q' g = Q g @ [Pcb_list (Pcb p)]" "\<forall>h. h \<notin> page_heads \<union> {g, Ready_queue} \<longrightarrow> Q' h = Q h"
    and m: "mm_state.more s' = mm_state.more (switch_pgdir ((upd_pcb nx (\<lambda>p. p\<lparr>status := TASK_RUNNING\<rparr>)
      ((upd_pcb (Pcb p) (\<lambda>p. p\<lparr>status := TASK_BLOCKED\<rparr>) s)\<lparr>current_running := nx\<rparr>))\<lparr>runnings := (runnings s)[cpu s := nx]\<rparr>))"
    using do_block_spec [OF inv cur g ps] by blast
  have "status (pcb s' (Pcb p)) = TASK_BLOCKED"
    using status_okD [OF sched_invD(2) [OF s'(2)] g(1), of p] s'(3) g(3) by simp
  then show ?thesis using s' more_kernel [OF m] by (auto simp: upd_pcb_def)
qed

lemma mutex_acquire_spec:
  fixes s :: "('d, 'a) kernel_scheme"
  assumes inv: "sched_inv H Q s" and rep: "mutex_rep Q i s a" and cur: "current_running s = Pcb p" and H: "Mutex_queue i \<in> H"
  shows "\<exists>s' Q'. do_mutex_lock_acquire B (int i) s = Some (owner a = None, s') \<and> sched_inv H Q' s' \<and>
    mutex_rep Q' i s' (acquire p a) \<and> (owner a \<noteq> None \<longrightarrow> status (pcb s' (Pcb p)) = TASK_BLOCKED)"
proof (cases "owner a")
  case None
  define s' where "s' = s\<lparr>mlocks := (mlocks s)[i := (mlocks s ! i)\<lparr>mlock := LOCKED, mpid := pid (pcb s (Pcb p))\<rparr>]\<rparr>"
  have "mlock (mlocks s ! i) = UNLOCKED" using rep None by (cases "mlock (mlocks s ! i)") (auto simp: mutex_rep_def)
  then have "do_mutex_lock_acquire B (int i) s = Some (True, s')"
    using rep cur by (simp add: do_mutex_lock_acquire_def spin_lock_try_acquire_def mutex_rep_def s'_def)
  moreover have "sched_inv H Q s'" using inv by (simp add: s'_def sched_inv_mlocks)
  moreover have "mutex_rep Q i s' (acquire p a)" using rep None by (simp add: mutex_rep_def acquire_def s'_def)
  ultimately show ?thesis using None by auto
next
  case (Some o')
  define s1 where "s1 = s\<lparr>mlocks := (mlocks s)[i := (mlocks s ! i)\<lparr>mlock := LOCKED\<rparr>]\<rparr>"
  have i1: "sched_inv H Q s1" using inv by (simp add: s1_def sched_inv_mlocks)
  have c1: "current_running s1 = Pcb p" using cur by (simp add: s1_def)
  obtain s' Q' where s': "do_block B (Pcb_list (Pcb p)) (Mutex_queue i) s1 = Some s'" "sched_inv H Q' s'"
    "Q' (Mutex_queue i) = Q (Mutex_queue i) @ [Pcb_list (Pcb p)]" "\<forall>r. pid (pcb s' r) = pid (pcb s1 r)"
    "mlocks s' = mlocks s1" "status (pcb s' (Pcb p)) = TASK_BLOCKED"
    using do_block_facts [OF i1 c1 H, of B] by auto
  have "do_mutex_lock_acquire B (int i) s = Some (False, s')"
    using rep cur Some s'(1) by (simp add: do_mutex_lock_acquire_def spin_lock_try_acquire_def mutex_rep_def s1_def)
  moreover have "mutex_rep Q' i s' (acquire p a)"
    using rep s'(3-5) Some by (simp add: mutex_rep_def acquire_def s1_def)
  ultimately show ?thesis using s' Some by auto
qed

lemma mutex_release_spec:
  fixes s :: "('d, 'a) kernel_scheme"
  assumes inv: "sched_inv H Q s" and rep: "mutex_rep Q i s a" and H: "Mutex_queue i \<in> H"
  shows "\<exists>s' Q'. do_mutex_lock_release (int i) s = Some s' \<and> sched_inv H Q' s' \<and> mutex_rep Q' i s' (release a) \<and>
    Q' Ready_queue = Q Ready_queue @ pcb_nodes (take 1 (waiters a)) \<and>
    (\<forall>h. h \<notin> {Ready_queue, Mutex_queue i} \<longrightarrow> Q' h = Q h) \<and>
    current_running s' = current_running s \<and> mailboxes s' = mailboxes s \<and> barriers s' = barriers s \<and>
    (\<forall>r. pid (pcb s' r) = pid (pcb s r))"
proof -
  have k: "kq H Q s" using sched_invD(1) [OF inv] .
  have il: "i < LOCK_NUM" "length (mlocks s) = LOCK_NUM" and q: "Q (Mutex_queue i) = pcb_nodes (waiters a)"
    using rep by (simp_all add: mutex_rep_def)
  have empty: "is_queue_empty (Mutex_queue i) (lnk s) \<longleftrightarrow> waiters a = []"
    using klist.rep_empty [OF kqD(1) [OF k] H] q by simp
  show ?thesis
  proof (cases "waiters a")
    case Nil
    define s' where "s' = s\<lparr>mlocks := (mlocks s)[i := (mlocks s ! i)\<lparr>mlock := UNLOCKED, mpid := 0\<rparr>]\<rparr>"
    have "do_mutex_lock_release (int i) s = Some s'"
      using il empty Nil by (simp add: do_mutex_lock_release_def spin_lock_release_def s'_def)
    moreover have "mutex_rep Q i s' (release a)" using rep Nil by (simp add: mutex_rep_def release_def s'_def)
    moreover have "sched_inv H Q s'" using inv by (simp add: s'_def sched_inv_mlocks)
    ultimately show ?thesis using Nil by (intro exI [of _ s'] exI [of _ Q]) (simp add: s'_def)
  next
    case (Cons p ps)
    define s1 where "s1 = s\<lparr>mlocks := (mlocks s)[i := (mlocks s ! i)\<lparr>mpid := pid (pcb s (Pcb p))\<rparr>]\<rparr>"
    define Q' where "Q' = enq (Pcb_list (Pcb p)) Ready_queue (deq (Pcb_list (Pcb p)) (Mutex_queue i) Q)"
    have nx: "nxt (lnk s) (Mutex_queue i) = Pcb_list (Pcb p)"
      using klist.rep_first [OF kqD(1) [OF k] H] q Cons by simp
    have i1: "sched_inv H Q s1" using inv by (simp add: s1_def sched_inv_mlocks)
    have mem: "Pcb_list (Pcb p) \<in> set (Q (Mutex_queue i))" using q Cons by simp
    obtain s' where s': "do_unblock (Pcb_list (Pcb p)) s1 = Some s'" "sched_inv H Q' s'"
      and m: "mm_state.more s' = mm_state.more (upd_pcb (Pcb p) (\<lambda>p. p\<lparr>status := TASK_READY\<rparr>) s1)"
      unfolding Q'_def using do_unblock_inv [OF i1 H _ _ mem] by auto
    have f: "mlocks s' = mlocks s1" "\<forall>r. pid (pcb s' r) = pid (pcb s r)" "current_running s' = current_running s"
      "mailboxes s' = mailboxes s" "barriers s' = barriers s"
      using more_kernel [OF m] by (simp_all add: upd_pcb_def s1_def)
    have "do_mutex_lock_release (int i) s = Some s'"
      using il empty Cons nx s'(1) by (simp add: do_mutex_lock_release_def s1_def)
    moreover have "owner a \<noteq> None" using rep Cons by (auto simp: mutex_rep_def)
    then have "mutex_rep Q' i s' (release a)"
      using rep Cons f by (simp add: mutex_rep_def release_def s1_def Q'_def enq_def deq_def)
    moreover have "Q' Ready_queue = Q Ready_queue @ pcb_nodes (take 1 (waiters a))"
      using Cons by (simp add: Q'_def enq_def deq_def)
    moreover have "\<forall>h. h \<notin> {Ready_queue, Mutex_queue i} \<longrightarrow> Q' h = Q h" by (simp add: Q'_def enq_def deq_def)
    ultimately show ?thesis using s'(2) f by blast
  qed
qed

section \<open>Barriers\<close>

text \<open>\<open>n\<close> processes have arrived at barrier \<open>i\<close> and wait in its list.\<close>

definition barrier_rep :: "(node \<Rightarrow> node list) \<Rightarrow> nat \<Rightarrow> ('d, 'a) kernel_scheme \<Rightarrow> nat list \<Rightarrow> bool" where
  "barrier_rep Q i s ps \<longleftrightarrow> i < BARRIER_NUM \<and> length (barriers s) = BARRIER_NUM \<and>
     Q (Barrier_list i) = pcb_nodes ps \<and> bcurrent (barriers s ! i) = int (length ps)"

lemma sched_inv_barriers: "sched_inv H Q (s\<lparr>barriers := bs\<rparr>) = sched_inv H Q s"
  by (rule sched_inv_cong) simp_all

lemma barrier_wait_spec:
  fixes s :: "('d, 'a) kernel_scheme"
  assumes inv: "sched_inv H Q s" and rep: "barrier_rep Q i s ps" and cur: "current_running s = Pcb p" and H: "Barrier_list i \<in> H"
  shows "if int (length ps) + 1 < goal (barriers s ! i)
    then \<exists>s' Q'. do_barrier_wait B (int i) s = Some (False, s') \<and> sched_inv H Q' s' \<and> barrier_rep Q' i s' (ps @ [p]) \<and>
      status (pcb s' (Pcb p)) = TASK_BLOCKED \<and> goal (barriers s' ! i) = goal (barriers s ! i)
    else \<exists>s' Q'. do_barrier_wait B (int i) s = Some (True, s') \<and> sched_inv H Q' s' \<and> barrier_rep Q' i s' [] \<and>
      Q' Ready_queue = Q Ready_queue @ pcb_nodes ps \<and> (\<forall>q\<in>set ps. status (pcb s' (Pcb q)) = TASK_READY) \<and>
      current_running s' = Pcb p \<and> goal (barriers s' ! i) = goal (barriers s ! i)"
proof -
  have il: "i < BARRIER_NUM" "length (barriers s) = BARRIER_NUM" and q: "Q (Barrier_list i) = pcb_nodes ps"
    and b: "bcurrent (barriers s ! i) = int (length ps)"
    using rep by (simp_all add: barrier_rep_def)
  define s1 where "s1 = s\<lparr>barriers := (barriers s)[i := (barriers s ! i)\<lparr>bcurrent := int (length ps) + 1\<rparr>]\<rparr>"
  have i1: "sched_inv H Q s1" using inv by (simp add: s1_def sched_inv_barriers)
  have c1: "current_running s1 = Pcb p" using cur by (simp add: s1_def)
  show ?thesis
  proof (cases "int (length ps) + 1 < goal (barriers s ! i)")
    case True
    obtain s' Q' where s': "do_block B (Pcb_list (Pcb p)) (Barrier_list i) s1 = Some s'" "sched_inv H Q' s'"
      "Q' (Barrier_list i) = Q (Barrier_list i) @ [Pcb_list (Pcb p)]"
      "barriers s' = barriers s1" "status (pcb s' (Pcb p)) = TASK_BLOCKED"
      using do_block_facts [OF i1 c1 H, of B] by auto
    have "do_barrier_wait B (int i) s = Some (False, s')"
      using il b True s'(1) cur by (simp add: do_barrier_wait_def s1_def)
    moreover have "barrier_rep Q' i s' (ps @ [p])" using il q s' by (simp add: barrier_rep_def s1_def)
    ultimately show ?thesis using True s' il by (auto simp: s1_def)
  next
    case False
    obtain s2 where s2: "unblock_all (Barrier_list i) s1 = Some s2" "sched_inv H (woken (Barrier_list i) Q) s2"
      and m: "mm_state.more s2 = mm_state.more (mark_ready ps s1)"
      using unblock_all_spec(1) [OF i1 H _ _ q] by auto
    define s' where "s' = s2\<lparr>barriers := (barriers s2)[i := (barriers s2 ! i)\<lparr>bcurrent := 0\<rparr>]\<rparr>"
    have f: "barriers s2 = barriers s1" "current_running s2 = Pcb p" "\<forall>q\<in>set ps. status (pcb s2 (Pcb q)) = TASK_READY"
      using more_kernel [OF m] c1 by (simp_all add: mark_ready_def)
    have "do_barrier_wait B (int i) s = Some (True, s')"
      using il b False s2(1) cur by (simp add: do_barrier_wait_def s1_def s'_def)
    moreover have "sched_inv H (woken (Barrier_list i) Q) s'" using s2(2) by (simp add: s'_def sched_inv_barriers)
    moreover have "barrier_rep (woken (Barrier_list i) Q) i s' []"
      using il f by (simp add: barrier_rep_def s'_def s1_def woken_def)
    moreover have "woken (Barrier_list i) Q Ready_queue = Q Ready_queue @ pcb_nodes ps" using q by (simp add: woken_def)
    ultimately show ?thesis using False f il by (auto simp: s'_def s1_def)
  qed
qed

section \<open>The mailbox ring\<close>

definition mbox_wf :: "mailbox_t \<Rightarrow> bool" where
  "mbox_wf m \<longleftrightarrow> length (mbbuf m) = 64 \<and> 0 \<le> nwrite m \<and> nwrite m < 64 \<and> 0 \<le> nread m \<and> nread m < 64"

lemma mbox_write_spec:
  assumes "mbox_wf m" "length msg \<le> 64"
  shows "\<exists>m'. mbox_write msg m = Some m' \<and> mbox_wf m' \<and> written m' = written m + int (length msg) \<and>
    nwrite m' = (nwrite m + int (length msg)) mod 64 \<and> nread m' = nread m \<and> round_read m' = round_read m \<and>
    mutex_id m' = mutex_id m \<and> mbref m' = mbref m \<and>
    (\<forall>k<64. mbbuf m' ! ((nat (nwrite m) + k) mod 64) =
      (if k < length msg then msg ! k else mbbuf m ! ((nat (nwrite m) + k) mod 64)))"
  using assms
proof (induction msg arbitrary: m)
  case Nil
  then show ?case by (auto simp: mbox_wf_def)
next
  case (Cons b msg)
  define w where "w = nat (nwrite m)"
  have w: "w < 64" "nwrite m = int w" "length (mbbuf m) = 64" using Cons.prems(1) by (auto simp: mbox_wf_def w_def)
  define m1 where "m1 = m\<lparr>mbbuf := (mbbuf m)[w := b], nwrite := int ((w + 1) mod 64),
    round_write := round_write m + (if w + 1 = 64 then 1 else 0)\<rparr>"
  have e: "mbox_write (b # msg) m = mbox_write msg m1"
    using w by (cases "w + 1 = 64") (auto simp: m1_def Let_def MAX_MBOX_LENGTH_def ac_simps)
  have wf1: "mbox_wf m1" using Cons.prems(1) w by (simp add: mbox_wf_def m1_def)
  have wr: "written m1 = written m + 1"
    using w by (cases "w + 1 = 64") (simp_all add: written_def m1_def MAX_MBOX_LENGTH_def algebra_simps)
  obtain m' where m': "mbox_write msg m1 = Some m'" "mbox_wf m'" "written m' = written m1 + int (length msg)"
    "nwrite m' = (nwrite m1 + int (length msg)) mod 64" "nread m' = nread m1" "round_read m' = round_read m1"
    "mutex_id m' = mutex_id m1" "mbref m' = mbref m1"
    and buf: "\<And>k. k < 64 \<Longrightarrow> mbbuf m' ! ((nat (nwrite m1) + k) mod 64) =
      (if k < length msg then msg ! k else mbbuf m1 ! ((nat (nwrite m1) + k) mod 64))"
    using Cons.IH [OF wf1] Cons.prems(2) by auto
  have n1: "nat (nwrite m1) = (w + 1) mod 64" by (simp add: m1_def)
  have "mbbuf m' ! ((w + k) mod 64) = (if k < length (b # msg) then (b # msg) ! k else mbbuf m ! ((w + k) mod 64))"
    if k: "k < 64" for k
  proof (cases k)
    case 0
    have "(w + 1 + 63) mod 64 = w" using w by simp
    then have "mbbuf m' ! w = mbbuf m1 ! w"
      using buf [of 63] Cons.prems(2) unfolding n1 by (simp add: mod_simps)
    then show ?thesis using 0 w by (simp add: m1_def)
  next
    case (Suc j)
    have i: "((w + 1) mod 64 + j) mod 64 = (w + k) mod 64" unfolding Suc by (simp add: mod_simps)
    have "(w + k) mod 64 \<noteq> w" using ring_index_inj [of k 0 w] k w Suc by auto
    then have "mbbuf m1 ! ((w + k) mod 64) = mbbuf m ! ((w + k) mod 64)" by (simp add: m1_def)
    then show ?thesis using buf [of j] k unfolding n1 i by (simp add: Suc)
  qed
  moreover have "nwrite m' = (nwrite m + int (length (b # msg))) mod 64"
    unfolding m'(4) by (simp add: m1_def w(2) zmod_int mod_simps algebra_simps)
  ultimately show ?case using e m'(1-3,5-8) wr w_def
    by (simp add: m1_def del: mbox_write.simps)
qed

lemma mbox_read_spec:
  assumes "mbox_wf m"
  shows "\<exists>m'. mbox_read n m = Some (map (\<lambda>k. mbbuf m ! ((nat (nread m) + 2 * k) mod 64)) [0..<n], m') \<and> mbox_wf m' \<and>
    mbbuf m' = mbbuf m \<and> nwrite m' = nwrite m \<and> written m' = written m - 2 * int n \<and>
    nread m' = (nread m + 2 * int n) mod 64"
  using assms
proof (induction n arbitrary: m)
  case 0
  then show ?case by (auto simp: mbox_wf_def)
next
  case (Suc n)
  define r where "r = nat (nread m)"
  have r: "r < 64" "nread m = int r" "length (mbbuf m) = 64" using Suc.prems by (auto simp: mbox_wf_def r_def)
  define m1 where "m1 = m\<lparr>nread := int ((r + 2) mod 64), round_read := round_read m + (if r + 2 \<ge> 64 then 1 else 0)\<rparr>"
  have e: "mbox_read (Suc n) m = do { (bs, m3) \<leftarrow> mbox_read n m1; Some (mbbuf m ! r # bs, m3) }"
  proof (cases "r + 2 \<ge> 64")
    case True
    then have "int (r + 2) smod 64 = int ((r + 2) mod 64)" by (simp add: signed_modulo_int_def zmod_int)
    then show ?thesis using r True by (simp add: m1_def Let_def MAX_MBOX_LENGTH_def ac_simps)
  next
    case False
    then show ?thesis using r by (simp add: m1_def Let_def MAX_MBOX_LENGTH_def ac_simps)
  qed
  have wf1: "mbox_wf m1" using Suc.prems by (simp add: mbox_wf_def m1_def)
  have wr: "written m1 = written m - 2"
    using r by (cases "r + 2 \<ge> 64") (auto simp: written_def m1_def MAX_MBOX_LENGTH_def algebra_simps zmod_int mod_pos_geq)
  obtain m' where m': "mbox_read n m1 = Some (map (\<lambda>k. mbbuf m1 ! ((nat (nread m1) + 2 * k) mod 64)) [0..<n], m')"
    "mbox_wf m'" "mbbuf m' = mbbuf m1" "nwrite m' = nwrite m1" "written m' = written m1 - 2 * int n"
    "nread m' = (nread m1 + 2 * int n) mod 64"
    using Suc.IH [OF wf1] by blast
  have "map (\<lambda>k. mbbuf m1 ! ((nat (nread m1) + 2 * k) mod 64)) [0..<n] =
      map (\<lambda>k. mbbuf m ! ((r + 2 * Suc k) mod 64)) [0..<n]"
    by (simp add: m1_def mod_simps algebra_simps)
  moreover have "map (\<lambda>k. mbbuf m ! ((r + 2 * k) mod 64)) [0..<Suc n] =
      mbbuf m ! r # map (\<lambda>k. mbbuf m ! ((r + 2 * Suc k) mod 64)) [0..<n]"
    using r by (simp add: map_upt_Suc del: upt_Suc)
  moreover have "nread m' = (nread m + 2 * int (Suc n)) mod 64"
    unfolding m'(6) by (simp add: m1_def r(2) zmod_int mod_simps algebra_simps)
  ultimately show ?case using e m'(1-5) wr r_def by (simp add: m1_def algebra_simps del: mbox_read.simps)
qed

section \<open>Sending\<close>

lemma sched_inv_upd_mbox: "sched_inv H Q (upd_mbox i f s) = sched_inv H Q s"
  by (rule sched_inv_cong) (simp_all add: upd_mbox_def)

lemma mbox_send_spec:
  fixes s :: "('d, 'a) kernel_scheme"
  assumes inv: "sched_inv H Q s" and rep: "mutex_rep Q j s \<lparr>owner = None, waiters = []\<rparr>"
    and H: "Mutex_queue j \<in> H" "Mbox_recv i \<in> H" and cur: "current_running s = Pcb p"
    and i: "i < MBOX_NUM" "length (mailboxes s) = MBOX_NUM" and m: "mbox_wf (mailboxes s ! i)"
    and mu: "mutex_id (mailboxes s ! i) = int j" and room: "can_write_to_buffer (mailboxes s ! i) (int (length msg))"
    and msg: "length msg \<le> 64" and q: "Q (Mbox_recv i) = pcb_nodes qs"
  shows "\<exists>s' Q' m'. do_mbox_send B (int i) msg s = Some (Returned 0 (), s') \<and> sched_inv H Q' s' \<and>
    mutex_rep Q' j s' \<lparr>owner = None, waiters = []\<rparr> \<and> Q' (Mbox_recv i) = [] \<and>
    Q' Ready_queue = Q Ready_queue @ pcb_nodes qs \<and> current_running s' = Pcb p \<and>
    mbox_write msg (mailboxes s ! i) = Some m' \<and> mailboxes s' = (mailboxes s)[i := m']"
proof -
  obtain s1 Q1 where s1: "do_mutex_lock_acquire B (int j) s = Some (True, s1)" "sched_inv H Q1 s1"
    "mutex_rep Q1 j s1 \<lparr>owner = Some p, waiters = []\<rparr>"
    using mutex_acquire_spec [OF inv rep cur H(1), of B] by (auto simp: acquire_def)
  have jl: "j < LOCK_NUM" and un: "mlock (mlocks s ! j) = UNLOCKED"
    using rep by (cases "mlock (mlocks s ! j)", auto simp: mutex_rep_def)+
  have e1: "s1 = s\<lparr>mlocks := mlocks s1\<rparr>"
    using s1(1) jl un by (auto simp: do_mutex_lock_acquire_def spin_lock_try_acquire_def)
  have f1: "mailboxes s1 = mailboxes s" "current_running s1 = Pcb p" using cur by (subst e1; simp)+
  have inv1: "sched_inv H Q s1" using inv by (subst e1) (simp add: sched_inv_mlocks)
  have rep1: "mutex_rep Q j s1 \<lparr>owner = Some p, waiters = []\<rparr>" using s1(3) rep by (simp add: mutex_rep_def)
  obtain m' where m': "mbox_write msg (mailboxes s ! i) = Some m'" using mbox_write_spec [OF m msg] by blast
  define s2 where "s2 = upd_mbox i (\<lambda>_. m') s1"
  have inv2: "sched_inv H Q s2" using inv1 by (simp add: s2_def sched_inv_upd_mbox)
  obtain s3 where s3: "unblock_all (Mbox_recv i) s2 = Some s3" "sched_inv H (woken (Mbox_recv i) Q) s3"
    and m3: "mm_state.more s3 = mm_state.more (mark_ready qs s2)"
    using unblock_all_spec(1) [OF inv2 H(2) _ _ q] by auto
  have f3: "mlocks s3 = mlocks s1" "\<forall>r. pid (pcb s3 r) = pid (pcb s1 r)" "current_running s3 = Pcb p"
    "mailboxes s3 = (mailboxes s)[i := m']"
    using more_kernel [OF m3] f1 by (simp_all add: mark_ready_def s2_def upd_mbox_def)
  have rep3: "mutex_rep (woken (Mbox_recv i) Q) j s3 \<lparr>owner = Some p, waiters = []\<rparr>"
    using rep1 f3(1,2) by (simp add: mutex_rep_def woken_def)
  obtain s' Q' where s': "do_mutex_lock_release (int j) s3 = Some s'" "sched_inv H Q' s'"
    "mutex_rep Q' j s' \<lparr>owner = None, waiters = []\<rparr>"
    "Q' Ready_queue = woken (Mbox_recv i) Q Ready_queue" "\<forall>h. h \<notin> {Ready_queue, Mutex_queue j} \<longrightarrow> Q' h = woken (Mbox_recv i) Q h"
    "current_running s' = current_running s3" "mailboxes s' = mailboxes s3"
    using mutex_release_spec [OF s3(2) rep3 H(1)] by (auto simp: release_def)
  have "do_mbox_send B (int i) msg s = Some (Returned 0 (), s')"
    using i mu s1(1) room f1 m' s3(1) s'(1)
    by (simp add: do_mbox_send_def mbox_send_retry_def mbox_send_locked_def s2_def [symmetric])
  moreover have "Q' (Mbox_recv i) = []" "Q' Ready_queue = Q Ready_queue @ pcb_nodes qs"
    using s'(4,5) q by (simp_all add: woken_def)
  ultimately show ?thesis using s' f3 m' by (intro exI [of _ s'] exI [of _ Q'] exI [of _ m']) simp
qed

section \<open>Properties\<close>

text \<open>
  C6: \<^verbatim>\<open>do_mutex_lock_acquire\<close> implements the abstract mutex: on a free lock the caller becomes the
  owner and goes on, otherwise it joins the end of the waiters and is blocked; the scheduling
  invariant is kept.
\<close>
theorem mutex_acquire_refines:
  fixes s :: "('d, 'a) kernel_scheme"
  assumes "sched_inv H Q s" "mutex_rep Q i s a" "current_running s = Pcb p" "Mutex_queue i \<in> H"
  shows "\<exists>s' Q'. do_mutex_lock_acquire B (int i) s = Some (owner a = None, s') \<and> sched_inv H Q' s' \<and>
    mutex_rep Q' i s' (acquire p a) \<and> (owner a \<noteq> None \<longrightarrow> status (pcb s' (Pcb p)) = TASK_BLOCKED)"
  using mutex_acquire_spec [OF assms] .

lemma boot_mutex: "i < LOCK_NUM \<Longrightarrow> mutex_rep (boot_queues n) i (kernel_boot n d) \<lparr>owner = None, waiters = []\<rparr>"
  by (simp add: mutex_rep_def boot_queues_def kernel_boot_def)

theorem mutex_acquire_refines_witness:
  "\<exists>s' Q'. do_mutex_lock_acquire \<lparr>sd_read = \<lambda>_ _ _. [], sd_write = \<lambda>d _ _ _. d\<rparr> (int 3) (kernel_boot 2 ()) = Some (True, s') \<and>
    sched_inv kernel_heads Q' s' \<and> mutex_rep Q' 3 s' \<lparr>owner = Some 0, waiters = []\<rparr>"
proof -
  have i: "sched_inv kernel_heads (boot_queues 2) (kernel_boot 2 ())" by (rule kernel_boot_inv) simp
  have r: "mutex_rep (boot_queues 2) 3 (kernel_boot 2 ()) \<lparr>owner = None, waiters = []\<rparr>"
    by (rule boot_mutex) (simp add: LOCK_NUM_def)
  have c: "current_running (kernel_boot 2 ()) = Pcb 0" by (simp add: kernel_boot_def)
  have h: "Mutex_queue 3 \<in> kernel_heads" by (simp add: kernel_heads_def)
  show ?thesis
    using mutex_acquire_refines [OF i r c h, of "\<lparr>sd_read = \<lambda>_ _ _. [], sd_write = \<lambda>d _ _ _. d\<rparr>"]
    by (auto simp: acquire_def)
qed

text \<open>
  C7: \<^verbatim>\<open>do_mutex_lock_release\<close> hands the lock over: with nobody waiting the lock becomes free,
  otherwise it stays locked and its new owner is the process that has waited longest, which moves
  to the ready queue; no other queue changes.
\<close>
theorem mutex_release_refines:
  fixes s :: "('d, 'a) kernel_scheme"
  assumes "sched_inv H Q s" "mutex_rep Q i s a" "Mutex_queue i \<in> H"
  shows "\<exists>s' Q'. do_mutex_lock_release (int i) s = Some s' \<and> sched_inv H Q' s' \<and> mutex_rep Q' i s' (release a) \<and>
    Q' Ready_queue = Q Ready_queue @ pcb_nodes (take 1 (waiters a)) \<and>
    (\<forall>h. h \<notin> {Ready_queue, Mutex_queue i} \<longrightarrow> Q' h = Q h)"
  using mutex_release_spec [OF assms] by blast

theorem mutex_release_refines_witness:
  "\<exists>s s' Q'. mutex_rep (boot_queues 2) 3 (s :: unit kernel) \<lparr>owner = Some 0, waiters = []\<rparr> \<and>
    do_mutex_lock_release (int 3) s = Some s' \<and> sched_inv kernel_heads Q' s' \<and>
    mutex_rep Q' 3 s' \<lparr>owner = None, waiters = []\<rparr>"
proof -
  define s where "s = (kernel_boot 2 ())\<lparr>mlocks := (mlocks (kernel_boot 2 ()))[3 := \<lparr>mlock = LOCKED, mkey = 3, mpid = 1\<rparr>]\<rparr>"
  have i: "sched_inv kernel_heads (boot_queues 2) s"
    using kernel_boot_inv [of 2 "()"] by (simp add: s_def sched_inv_mlocks)
  have r: "mutex_rep (boot_queues 2) 3 s \<lparr>owner = Some 0, waiters = []\<rparr>"
    by (simp add: mutex_rep_def boot_queues_def kernel_boot_def s_def LOCK_NUM_def pcb0_def)
  have h: "Mutex_queue 3 \<in> kernel_heads" by (simp add: kernel_heads_def)
  show ?thesis using mutex_release_refines [OF i r h] r by (auto simp: release_def)
qed

text \<open>
  C20: a barrier lets nobody through until \<^verbatim>\<open>goal\<close> processes have arrived. When \<open>ps\<close> wait, the next
  arrival is blocked if it is not the \<^verbatim>\<open>goal\<close>-th one; if it is, it goes on, everybody in \<open>ps\<close> becomes
  ready in order of arrival and the barrier is empty again.
\<close>
theorem barrier_wait_correct:
  fixes s :: "('d, 'a) kernel_scheme"
  assumes "sched_inv H Q s" "barrier_rep Q i s ps" "current_running s = Pcb p" "Barrier_list i \<in> H"
  shows "if int (length ps) + 1 < goal (barriers s ! i)
    then \<exists>s' Q'. do_barrier_wait B (int i) s = Some (False, s') \<and> sched_inv H Q' s' \<and> barrier_rep Q' i s' (ps @ [p]) \<and>
      status (pcb s' (Pcb p)) = TASK_BLOCKED \<and> goal (barriers s' ! i) = goal (barriers s ! i)
    else \<exists>s' Q'. do_barrier_wait B (int i) s = Some (True, s') \<and> sched_inv H Q' s' \<and> barrier_rep Q' i s' [] \<and>
      Q' Ready_queue = Q Ready_queue @ pcb_nodes ps \<and> (\<forall>q\<in>set ps. status (pcb s' (Pcb q)) = TASK_READY) \<and>
      current_running s' = Pcb p \<and> goal (barriers s' ! i) = goal (barriers s ! i)"
  using barrier_wait_spec [OF assms] .

theorem barrier_wait_correct_witness:
  "\<exists>s s' Q'. goal (barriers (s :: unit kernel) ! 5) = 3 \<and>
    do_barrier_wait \<lparr>sd_read = \<lambda>_ _ _. [], sd_write = \<lambda>d _ _ _. d\<rparr> (int 5) s = Some (False, s') \<and>
    sched_inv kernel_heads Q' s' \<and> barrier_rep Q' 5 s' [0] \<and> status (pcb s' (Pcb 0)) = TASK_BLOCKED"
proof -
  define s where "s = (kernel_boot 2 ())\<lparr>barriers := (barriers (kernel_boot 2 ()))[5 := \<lparr>bcurrent = 0, goal = 3, bkey = 5\<rparr>]\<rparr>"
  have i: "sched_inv kernel_heads (boot_queues 2) s"
    using kernel_boot_inv [of 2 "()"] by (simp add: s_def sched_inv_barriers)
  have r: "barrier_rep (boot_queues 2) 5 s []"
    by (simp add: barrier_rep_def boot_queues_def kernel_boot_def s_def BARRIER_NUM_def)
  have c: "current_running s = Pcb 0" by (simp add: s_def kernel_boot_def)
  have h: "Barrier_list 5 \<in> kernel_heads" by (simp add: kernel_heads_def)
  have g: "goal (barriers s ! 5) = 3" by (simp add: s_def kernel_boot_def BARRIER_NUM_def)
  show ?thesis
    using barrier_wait_correct [OF i r c h, of "\<lparr>sd_read = \<lambda>_ _ _. [], sd_write = \<lambda>d _ _ _. d\<rparr>"] g by auto
qed

text \<open>
  C21: a message that fits is sent without waiting. With the mailbox's mutex free, \<^verbatim>\<open>do_mbox_send\<close>
  writes the bytes into the ring behind what is already there, overwrites nothing else, counts
  them, wakes every waiting receiver in order, and leaves the mutex free.
\<close>
theorem mbox_send_delivers:
  fixes s :: "('d, 'a) kernel_scheme"
  assumes "sched_inv H Q s" "mutex_rep Q j s \<lparr>owner = None, waiters = []\<rparr>"
    and "Mutex_queue j \<in> H" "Mbox_recv i \<in> H" and "current_running s = Pcb p"
    and "i < MBOX_NUM" "length (mailboxes s) = MBOX_NUM" and wf: "mbox_wf (mailboxes s ! i)"
    and "mutex_id (mailboxes s ! i) = int j" and "can_write_to_buffer (mailboxes s ! i) (int (length msg))"
    and len: "length msg \<le> 64" and "Q (Mbox_recv i) = pcb_nodes qs"
  shows "\<exists>s' Q'. do_mbox_send B (int i) msg s = Some (Returned 0 (), s') \<and> sched_inv H Q' s' \<and>
    mutex_rep Q' j s' \<lparr>owner = None, waiters = []\<rparr> \<and> Q' (Mbox_recv i) = [] \<and>
    Q' Ready_queue = Q Ready_queue @ pcb_nodes qs \<and> mbox_wf (mailboxes s' ! i) \<and>
    written (mailboxes s' ! i) = written (mailboxes s ! i) + int (length msg) \<and>
    (\<forall>k<64. mbbuf (mailboxes s' ! i) ! ((nat (nwrite (mailboxes s ! i)) + k) mod 64) =
      (if k < length msg then msg ! k else mbbuf (mailboxes s ! i) ! ((nat (nwrite (mailboxes s ! i)) + k) mod 64)))"
proof -
  obtain s' Q' m' where "do_mbox_send B (int i) msg s = Some (Returned 0 (), s')" "sched_inv H Q' s'"
    "mutex_rep Q' j s' \<lparr>owner = None, waiters = []\<rparr>" "Q' (Mbox_recv i) = []"
    "Q' Ready_queue = Q Ready_queue @ pcb_nodes qs"
    "mbox_write msg (mailboxes s ! i) = Some m'" "mailboxes s' = (mailboxes s)[i := m']"
    using mbox_send_spec [OF assms, of B] by blast
  moreover from this have "mailboxes s' ! i = m'" using assms(6,7) by simp
  ultimately show ?thesis using mbox_write_spec [OF wf len] by auto
qed

theorem mbox_send_delivers_witness:
  "\<exists>(s :: unit kernel) s' Q'. do_mbox_send \<lparr>sd_read = \<lambda>_ _ _. [], sd_write = \<lambda>d _ _ _. d\<rparr> (int 2) [7, 8, 9] s = Some (Returned 0 (), s') \<and>
    sched_inv kernel_heads Q' s' \<and> written (mailboxes s' ! 2) = 3"
proof -
  define s where "s = upd_mbox 2 (\<lambda>m. m\<lparr>mutex_id := int 2\<rparr>) (kernel_boot 2 ())"
  have i: "sched_inv kernel_heads (boot_queues 2) s"
    using kernel_boot_inv [of 2 "()"] by (simp add: s_def sched_inv_upd_mbox)
  have r: "mutex_rep (boot_queues 2) 2 s \<lparr>owner = None, waiters = []\<rparr>"
    by (simp add: mutex_rep_def boot_queues_def kernel_boot_def s_def LOCK_NUM_def upd_mbox_def)
  have h: "Mutex_queue 2 \<in> kernel_heads" "Mbox_recv 2 \<in> kernel_heads" by (simp_all add: kernel_heads_def)
  have c: "current_running s = Pcb 0" by (simp add: s_def kernel_boot_def upd_mbox_def)
  have l: "2 < MBOX_NUM" "length (mailboxes s) = MBOX_NUM" by (simp_all add: s_def kernel_boot_def upd_mbox_def MBOX_NUM_def)
  have m: "mailboxes s ! 2 = \<lparr>mbname = replicate 32 0, mbbuf = replicate 64 0, mutex_id = 2, mbref = 0,
       nread = 0, nwrite = 0, round_read = 0, round_write = 0\<rparr>"
    by (simp add: s_def kernel_boot_def upd_mbox_def MBOX_NUM_def)
  have wf: "mbox_wf (mailboxes s ! 2)" "mutex_id (mailboxes s ! 2) = int 2"
      "can_write_to_buffer (mailboxes s ! 2) (int (length [7, 8, 9::u8]))" "length [7, 8, 9::u8] \<le> 64"
    by (simp_all add: m mbox_wf_def can_write_to_buffer_def written_def MAX_MBOX_LENGTH_def)
  have q: "boot_queues 2 (Mbox_recv 2) = pcb_nodes []" by (simp add: boot_queues_def)
  have "written (mailboxes s ! 2) = 0" by (simp add: m written_def)
  then show ?thesis
    using mbox_send_delivers [OF i r h c l wf q, of "\<lparr>sd_read = \<lambda>_ _ _. [], sd_write = \<lambda>d _ _ _. d\<rparr>"] by fastforce
qed

text \<open>
  Receiving consumes two bytes of the ring for every byte it delivers, because the index is
  incremented twice: the \<open>n\<close> bytes read are the ones at even distances from the read position, and
  the count of bytes in the ring drops by \<open>2 * n\<close>, possibly below 0.
\<close>
theorem mbox_read_skips:
  assumes "mbox_wf m"
  shows "\<exists>m'. mbox_read n m = Some (map (\<lambda>k. mbbuf m ! ((nat (nread m) + 2 * k) mod 64)) [0..<n], m') \<and> mbox_wf m' \<and>
    mbbuf m' = mbbuf m \<and> nwrite m' = nwrite m \<and> written m' = written m - 2 * int n \<and>
    nread m' = (nread m + 2 * int n) mod 64"
  using mbox_read_spec [OF assms] .

theorem mbox_read_skips_witness:
  "\<exists>m m'. mbox_wf m \<and> take 4 (mbbuf m) = [1, 2, 3, 4] \<and> written m = 4 \<and>
    mbox_read 4 m = Some ([1, 3, 0, 0], m') \<and> written m' = -4"
proof -
  define m where "m = \<lparr>mbname = [], mbbuf = [1, 2, 3, 4] @ replicate 60 0, mutex_id = 0, mbref = 1,
    nread = 0, nwrite = 4, round_read = 0, round_write = 0\<rparr>"
  have wf: "mbox_wf m" and w: "written m = 4" by (simp_all add: mbox_wf_def m_def written_def)
  have "map (\<lambda>k. mbbuf m ! ((nat (nread m) + 2 * k) mod 64)) [0..<4] = [1, 3, 0, 0]"
    by (simp add: m_def upt_rec nth_append)
  moreover have "take 4 (mbbuf m) = [1, 2, 3, 4]" by (simp add: m_def)
  ultimately show ?thesis using mbox_read_skips [OF wf, of 4] wf w by auto
qed

end
