(* ===== verification/FS_Disk.thy ===== *)
theory FS_Disk
  imports Sched CString
begin

text \<open>
  The disk layer of the file system, \<open>src/kernel/fs/fs.c\<close> with \<open>src/include/os/fs.h\<close>: blocks,
  the two bit maps and the inode table. Structures on disk are bytes; \<open>inode_bytes\<close> and
  \<open>bytes_inode\<close> are the layout the compiler gives \<^verbatim>\<open>inode_t\<close> (64 bytes), and the fields of the
  \<open>j\<close>-th \<^verbatim>\<open>dentry_t\<close> of a buffer are at \<open>36 * j\<close> (the structure is padded to 36 bytes).
\<close>

section \<open>Constants and structures\<close>

definition SUPERBLOCK_MAGIC :: u32 where "SUPERBLOCK_MAGIC = 0x20221205"
definition FS_START_SECTOR :: u32 where "FS_START_SECTOR = 0x100000"
definition NUM_FDESCS :: nat where "NUM_FDESCS = 16"
definition NSECTORS_BMAP :: nat where "NSECTORS_BMAP = 32"
definition NDIRECT_BLOCKS :: nat where "NDIRECT_BLOCKS = 10"
definition NINDIRECT_BLOCKS :: nat where "NINDIRECT_BLOCKS = 1024"
definition NDENTRIES_PER_BLOCK :: nat where "NDENTRIES_PER_BLOCK = 128"
definition DENTRY_NAME_LEN :: nat where "DENTRY_NAME_LEN = 26"
definition SIZEOF_DENTRY :: nat where "SIZEOF_DENTRY = 36"
definition ROOT_DIR_INUM :: int where "ROOT_DIR_INUM = 1"
definition TEST_BIG_FILE_INUM :: int where "TEST_BIG_FILE_INUM = 2"

definition T_FILE :: u16 where "T_FILE = 1"
definition T_DIRECTORY :: u16 where "T_DIRECTORY = 2"

record superblock_t =
  sb_magic :: u32
  sb_start :: u32
  sb_size :: u32
  bmap_offset :: u32
  imap_offset :: u32
  inode_offset :: u32
  data_offset :: u32
  inode_size :: u16
  dentry_size :: u16

record inode_t =
  i_type :: u16
  i_permission :: u16
  i_size :: u32
  i_ref :: u32
  time_created :: u32
  direct :: "u32 list"
  indirect :: u32
  double_indirect :: u32

record fdesc_t =
  fd_inum :: int
  fd_read :: bool
  fd_write :: bool
  fd_offset :: u64

text \<open>A line of console output: the format string and its arguments.\<close>

datatype print_arg = PInt int | PStr "u8 list"

record 'd fsys = "'d kernel" +
  superblock :: superblock_t
  fdesc_array :: "fdesc_t list"
  block_buf :: "u8 list"
  console :: "(string \<times> print_arg list) list"

definition say :: "string \<Rightarrow> print_arg list \<Rightarrow> ('d, 'a) fsys_scheme \<Rightarrow> ('d, 'a) fsys_scheme" where
  "say fmt args s = s\<lparr>console := console s @ [(fmt, args)]\<rparr>"

definition zero_inode :: inode_t where
  "zero_inode = \<lparr>i_type = 0, i_permission = 0, i_size = 0, i_ref = 0, time_created = 0,
     direct = replicate 10 0, indirect = 0, double_indirect = 0\<rparr>"

definition inode_bytes :: "inode_t \<Rightarrow> u8 list" where
  "inode_bytes n = le_put 2 (i_type n) @ le_put 2 (i_permission n) @ le_put 4 (i_size n) @ le_put 4 (i_ref n)
     @ le_put 4 (time_created n) @ put_array 4 (direct n) @ le_put 4 (indirect n) @ le_put 4 (double_indirect n)"

definition bytes_inode :: "u8 list \<Rightarrow> inode_t" where
  "bytes_inode bs = \<lparr>i_type = le_get (slice 0 2 bs), i_permission = le_get (slice 2 2 bs),
     i_size = le_get (slice 4 4 bs), i_ref = le_get (slice 8 4 bs), time_created = le_get (slice 12 4 bs),
     direct = get_array 4 10 (slice 16 40 bs), indirect = le_get (slice 56 4 bs),
     double_indirect = le_get (slice 60 4 bs)\<rparr>"

definition superblock_bytes :: "superblock_t \<Rightarrow> u8 list" where
  "superblock_bytes b = le_put 4 (sb_magic b) @ le_put 4 (sb_start b) @ le_put 4 (sb_size b) @ le_put 4 (bmap_offset b)
     @ le_put 4 (imap_offset b) @ le_put 4 (inode_offset b) @ le_put 4 (data_offset b)
     @ le_put 2 (inode_size b) @ le_put 2 (dentry_size b)"

definition bytes_superblock :: "u8 list \<Rightarrow> superblock_t" where
  "bytes_superblock bs = \<lparr>sb_magic = le_get (slice 0 4 bs), sb_start = le_get (slice 4 4 bs),
     sb_size = le_get (slice 8 4 bs), bmap_offset = le_get (slice 12 4 bs), imap_offset = le_get (slice 16 4 bs),
     inode_offset = le_get (slice 20 4 bs), data_offset = le_get (slice 24 4 bs),
     inode_size = le_get (slice 28 2 bs), dentry_size = le_get (slice 30 2 bs)\<rparr>"

section \<open>Sectors and blocks\<close>

text \<open>\<^verbatim>\<open>bios_sdread\<close> and \<^verbatim>\<open>bios_sdwrite\<close> of one sector, as bytes and as an array of 64 words.\<close>

definition rd_sector :: "'d sdcard \<Rightarrow> u32 \<Rightarrow> ('d, 'a) fsys_scheme \<Rightarrow> u8 list" where
  "rd_sector B k s = sd_read B (sd s) 1 k"

definition wr_sector :: "'d sdcard \<Rightarrow> u32 \<Rightarrow> u8 list \<Rightarrow> ('d, 'a) fsys_scheme \<Rightarrow> ('d, 'a) fsys_scheme" where
  "wr_sector B k bs s = s\<lparr>sd := sd_write B (sd s) 1 k bs\<rparr>"

definition rd_words :: "'d sdcard \<Rightarrow> u32 \<Rightarrow> ('d, 'a) fsys_scheme \<Rightarrow> u64 list" where
  "rd_words B k s = get_array 8 64 (rd_sector B k s)"

definition wr_words :: "'d sdcard \<Rightarrow> u32 \<Rightarrow> u64 list \<Rightarrow> ('d, 'a) fsys_scheme \<Rightarrow> ('d, 'a) fsys_scheme" where
  "wr_words B k ws s = wr_sector B k (put_array 8 ws) s"

definition block_sector :: "('d, 'a) fsys_scheme \<Rightarrow> u32 \<Rightarrow> u32" where
  "block_sector s b = sb_start (superblock s) + b * 8"

definition read_block :: "'d sdcard \<Rightarrow> u32 \<Rightarrow> ('d, 'a) fsys_scheme \<Rightarrow> ('d, 'a) fsys_scheme" where
  "read_block B b s = s\<lparr>block_buf := sd_read B (sd s) 8 (block_sector s b)\<rparr>"

definition write_block :: "'d sdcard \<Rightarrow> u32 \<Rightarrow> ('d, 'a) fsys_scheme \<Rightarrow> ('d, 'a) fsys_scheme" where
  "write_block B b s = s\<lparr>sd := sd_write B (sd s) 8 (block_sector s b) (block_buf s)\<rparr>"

section \<open>Bit maps\<close>

function popcnt :: "u64 \<Rightarrow> int" where
  "popcnt val = (if val = 0 then 0 else (if val AND 1 \<noteq> 0 then 1 else 0) + popcnt (drop_bit 1 val))"
  by pat_completeness auto
termination
proof (relation "measure unat")
  show "(drop_bit 1 val, val) \<in> measure unat" if "val \<noteq> 0" for val :: u64
    using that by (simp add: drop_bit_eq_div unat_div_distrib unat_gt_0)
qed simp

declare popcnt.simps [simp del]

text \<open>The loop \<^verbatim>\<open>while (val & 1) { val >>= 1; n++; }\<close>.\<close>

function low_ones :: "u64 \<Rightarrow> nat" where
  "low_ones val = (if val AND 1 \<noteq> 0 then Suc (low_ones (drop_bit 1 val)) else 0)"
  by pat_completeness auto
termination
proof (relation "measure unat")
  show "(drop_bit 1 val, val) \<in> measure unat" if "val AND 1 \<noteq> 0" for val :: u64
  proof -
    have "val \<noteq> 0" using that by auto
    then show ?thesis by (simp add: drop_bit_eq_div unat_div_distrib unat_gt_0)
  qed
qed simp

declare low_ones.simps [simp del]

text \<open>
  The scan of an array of map words, with the bit number \<open>n\<close> so far: the result is the number of
  the bit found, the array with that bit set and whether one was found.
\<close>

fun scan_words :: "u64 list \<Rightarrow> nat \<Rightarrow> nat \<times> u64 list \<times> bool" where
  "scan_words [] n = (n, [], False)"
| "scan_words (val # vs) n =
     (if val = 0xffffffffffffffff
      then (case scan_words vs (n + 64) of (n', vs', found) \<Rightarrow> (n', val # vs', found))
      else let n' = n + low_ones val
           in (n', (val OR int_to_u64 (sllw1 (int (n' mod 64)))) # vs, True))"

fun alloc_block_loop :: "'d sdcard \<Rightarrow> u32 \<Rightarrow> nat list \<Rightarrow> nat \<Rightarrow> ('d, 'a) fsys_scheme \<Rightarrow> nat \<times> ('d, 'a) fsys_scheme" where
  "alloc_block_loop B bmap_start [] bnum s = (bnum, s)"
| "alloc_block_loop B bmap_start (i # is) bnum s =
     (case scan_words (rd_words B (bmap_start + of_nat i) s) bnum of (bnum', ws, finished) \<Rightarrow>
        let s1 = wr_words B (bmap_start + of_nat i) ws s
        in if finished then (bnum', s1) else alloc_block_loop B bmap_start is bnum' s1)"

definition alloc_block :: "'d sdcard \<Rightarrow> ('d, 'a) fsys_scheme \<Rightarrow> int \<times> ('d, 'a) fsys_scheme" where
  "alloc_block B s =
     (case alloc_block_loop B (sb_start (superblock s) + bmap_offset (superblock s)) [0..<NSECTORS_BMAP] 0 s of
        (bnum, s1) \<Rightarrow> (int bnum + 1, s1))"

text \<open>\<^verbatim>\<open>buf[k] &= ~(1 << b)\<close>: an index outside the array has no result.\<close>

definition clear_bit :: "int \<Rightarrow> int \<Rightarrow> u64 list \<Rightarrow> u64 list option" where
  "clear_bit k b ws =
     (if 0 \<le> k \<and> k < int (length ws)
      then Some (ws[nat k := ws ! nat k AND int_to_u64 (NOT (sllw1 b))]) else None)"

definition free_block :: "'d sdcard \<Rightarrow> int \<Rightarrow> ('d, 'a) fsys_scheme \<Rightarrow> ('d, 'a) fsys_scheme option" where
  "free_block B block_num s =
     (if block_num = 0 then Some s
      else let k = sb_start (superblock s) + bmap_offset (superblock s) + of_int (block_num sdiv 4096)
           in do {
             ws \<leftarrow> clear_bit ((block_num smod 4096) sdiv 64) ((block_num smod 4096) smod 64 - 1) (rd_words B k s);
             Some (wr_words B k ws s)
           })"

definition alloc_inode :: "'d sdcard \<Rightarrow> ('d, 'a) fsys_scheme \<Rightarrow> int \<times> ('d, 'a) fsys_scheme" where
  "alloc_inode B s =
     (let k = sb_start (superblock s) + imap_offset (superblock s)
      in case scan_words (rd_words B k s) 0 of (inum, ws, _) \<Rightarrow> (int inum + 1, wr_words B k ws s))"

definition free_inode :: "'d sdcard \<Rightarrow> int \<Rightarrow> ('d, 'a) fsys_scheme \<Rightarrow> ('d, 'a) fsys_scheme option" where
  "free_inode B inode_num s =
     (let k = sb_start (superblock s) + imap_offset (superblock s)
      in do { ws \<leftarrow> clear_bit (inode_num sdiv 64) (inode_num smod 64 - 1) (rd_words B k s);
              Some (wr_words B k ws s) })"

section \<open>Inodes\<close>

definition inode_sector :: "int \<Rightarrow> ('d, 'a) fsys_scheme \<Rightarrow> u32" where
  "inode_sector inode_num s =
     sb_start (superblock s) + inode_offset (superblock s) + of_int ((inode_num - 1) sdiv 8)"

text \<open>
  The position of the inode in its sector. For \<open>inode_num = 0\<close> the remainder is \<open>-1\<close> and the
  address is far outside the buffer: no result.
\<close>

definition inode_slot :: "int \<Rightarrow> nat option" where
  "inode_slot inode_num =
     (let off = (inode_num - 1) smod 8 in if 0 \<le> off then Some (64 * nat off) else None)"

definition read_inode :: "'d sdcard \<Rightarrow> int \<Rightarrow> ('d, 'a) fsys_scheme \<Rightarrow> inode_t option" where
  "read_inode B inode_num s = do {
     off \<leftarrow> inode_slot inode_num;
     Some (bytes_inode (slice off 64 (rd_sector B (inode_sector inode_num s) s)))
   }"

definition write_inode :: "'d sdcard \<Rightarrow> int \<Rightarrow> inode_t \<Rightarrow> ('d, 'a) fsys_scheme \<Rightarrow> ('d, 'a) fsys_scheme option" where
  "write_inode B inode_num n s = do {
     off \<leftarrow> inode_slot inode_num;
     let k = inode_sector inode_num s;
     Some (wr_sector B k (splice_at off (inode_bytes n) (rd_sector B k s)) s)
   }"

section \<open>Directory entries\<close>

text \<open>The fields of \<^verbatim>\<open>((dentry_t *)block_buf)[j]\<close>; bytes outside the buffer have no value.\<close>

definition d_valid :: "nat \<Rightarrow> u8 list \<Rightarrow> bool option" where
  "d_valid j buf = (if 36 * j < length buf then Some (buf ! (36 * j) \<noteq> 0) else None)"

definition d_inum :: "nat \<Rightarrow> u8 list \<Rightarrow> u32 option" where
  "d_inum j buf = (if 36 * j + 8 \<le> length buf then Some (le_get (slice (36 * j + 4) 4 buf)) else None)"

definition d_name :: "nat \<Rightarrow> u8 list \<Rightarrow> u8 list" where
  "d_name j buf = drop (36 * j + 8) buf"

definition set_d_valid :: "nat \<Rightarrow> u8 \<Rightarrow> u8 list \<Rightarrow> u8 list option" where
  "set_d_valid j v buf = (if 36 * j < length buf then Some (buf[36 * j := v]) else None)"

definition set_d_inum :: "nat \<Rightarrow> u32 \<Rightarrow> u8 list \<Rightarrow> u8 list option" where
  "set_d_inum j v buf = (if 36 * j + 8 \<le> length buf then Some (splice_at (36 * j + 4) (le_put 4 v) buf) else None)"

definition set_d_name :: "nat \<Rightarrow> u8 list \<Rightarrow> u8 list \<Rightarrow> u8 list option" where
  "set_d_name j name buf = do { r \<leftarrow> strcpy (drop (36 * j + 8) buf) name; Some (take (36 * j + 8) buf @ r) }"

text \<open>The loop \<^verbatim>\<open>while (dentry->inum != 0) dentry++\<close>.\<close>

function first_free :: "nat \<Rightarrow> u8 list \<Rightarrow> nat option" where
  "first_free j buf = (case d_inum j buf of None \<Rightarrow> None
     | Some i \<Rightarrow> if i = 0 then Some j else first_free (Suc j) buf)"
  by pat_completeness auto
termination
  by (relation "measure (\<lambda>(j, buf). length buf - 36 * j)") (auto simp: d_inum_def split: if_splits)

declare first_free.simps [simp del]

definition init_dir_inode :: "'d sdcard \<Rightarrow> int \<Rightarrow> ('d, 'a) fsys_scheme \<Rightarrow> (int \<times> ('d, 'a) fsys_scheme) option" where
  "init_dir_inode B parent_inum s =
     (let s1 = s\<lparr>block_buf := replicate 4096 0\<rparr>;
          (inode_num, s2) = alloc_inode B s1;
          (block_num, s3) = alloc_block B s2;
          (t, s4) = get_ticks s3;
          n = zero_inode\<lparr>i_type := T_DIRECTORY, i_permission := 0x3ed, time_created := ucast t, i_size := 0,
                direct := (direct zero_inode)[0 := of_int block_num], i_ref := 1\<rparr>
      in do {
        s5 \<leftarrow> write_inode B inode_num n s4;
        let ds = ([1, 0, 0, 0] @ le_put 4 (of_int inode_num :: u32) @ 0x2e # replicate 27 0)
               @ ([1, 0, 0, 0] @ le_put 4 (of_int parent_inum :: u32) @ 0x2e # 0x2e # replicate 26 0);
        Some (inode_num, write_block B (of_int block_num) (s5\<lparr>block_buf := splice_at 0 ds (block_buf s5)\<rparr>))
      })"

end
