(* ===== verification/Process.thy ===== *)
theory Process
  imports Locks FS_Disk
begin

text \<open>
  The life of processes: the rest of \<open>src/kernel/sched/sched.c\<close> (creation, threads, exit, kill and
  waiting) and \<open>src/kernel/loader/loader.c\<close> as built for the board (\<^verbatim>\<open>QEMU\<close> undefined). Contexts are
  64-bit cells of the kernel stack page; program text, arguments and zeroed bytes are written to
  memory byte by byte. A failed \<^verbatim>\<open>assert\<close>, an array index out of range and a name that does not fit
  its buffer have no result (\<open>None\<close>).
\<close>

section \<open>Bytes in memory\<close>

definition store_byte :: "u64 \<Rightarrow> u8 \<Rightarrow> ('d, 'a) mm_state_scheme \<Rightarrow> ('d, 'a) mm_state_scheme" where
  "store_byte a v s =
     (let c = a AND NOT (mask 3); k = 8 * unat (a AND mask 3)
      in store c ((mem s c AND NOT (push_bit k 0xff)) OR push_bit k (ucast v)) s)"

definition load_byte :: "u64 \<Rightarrow> ('d, 'a) mm_state_scheme \<Rightarrow> u8" where
  "load_byte a s = ucast (drop_bit (8 * unat (a AND mask 3)) (mem s (a AND NOT (mask 3))))"

fun write_bytes :: "u64 \<Rightarrow> u8 list \<Rightarrow> ('d, 'a) mm_state_scheme \<Rightarrow> ('d, 'a) mm_state_scheme" where
  "write_bytes a [] s = s"
| "write_bytes a (b # bs) s = write_bytes (a + 1) bs (store_byte a b s)"

section \<open>Loading a program\<close>

definition USER_VA_START :: u64 where "USER_VA_START = 0x10000"
definition USER_VA_SP :: u64 where "USER_VA_SP = 0xf00010000"
definition USER_VA_SP_BASE :: u64 where "USER_VA_SP_BASE = 0xf0000f000"

definition NBYTES2SEC :: "int \<Rightarrow> int" where
  "NBYTES2SEC nbytes = nbytes sdiv 512 + (if nbytes smod 512 \<noteq> 0 then 1 else 0)"

text \<open>The search loop over \<^verbatim>\<open>tasks\<close>: index and first sector of the task, or the end of the table.\<close>

function find_task :: "u8 list \<Rightarrow> ('d, 'a) kernel_scheme \<Rightarrow> int \<Rightarrow> int \<Rightarrow> (int \<times> int) option" where
  "find_task name s task_idx block_id =
     (if task_idx < tasks_num s
      then if 0 \<le> task_idx \<and> nat task_idx < length (tasks s)
           then do {
             c \<leftarrow> strcmp (tname (tasks s ! nat task_idx)) name;
             (if c = 0 then Some (task_idx, block_id)
              else find_task name s (task_idx + 1) (block_id + sectors_num (tasks s ! nat task_idx)))
           }
           else None
      else Some (task_idx, block_id))"
  by pat_completeness auto
termination
  by (relation "measure (\<lambda>(name, s, i, b). nat (tasks_num s - i))") auto

declare find_task.simps [simp del]

text \<open>One page of the image: its sectors from the card, then zeroes behind the end of the file.\<close>

definition load_page :: "'d sdcard \<Rightarrow> task_info_t \<Rightarrow> u64 \<Rightarrow> int \<Rightarrow> int \<Rightarrow> ('d, 'a) kernel_scheme \<Rightarrow>
    (int \<times> ('d, 'a) kernel_scheme) option" where
  "load_page B task pgd sz block_id s = do {
     (kva, s1) \<leftarrow> alloc_page_helper B (USER_VA_START + of_int sz) pgd s;
     let bytes_left = filesz task - sz;
     let blocks_read = (if NBYTES2SEC bytes_left > 8 then 8 else NBYTES2SEC bytes_left);
     let (block_id1, s2) =
       (if sz < filesz task
        then (block_id + blocks_read, write_bytes kva (sd_read B (sd s1) (of_int blocks_read) (of_int block_id)) s1)
        else (block_id, s1));
     let bss_start = (if of_int (filesz task) AND NOT (mask 12) = (of_int sz :: u64) then kva + of_int (filesz task mod 4096) else kva);
     let s3 = (if sz + 4096 > filesz task
               then write_bytes bss_start (replicate (unat (kva + PAGE_SIZE - bss_start)) 0) s2 else s2);
     Some (block_id1, s3)
   }"

text \<open>The page loop; the sizes in the task table are far below the range of \<^verbatim>\<open>int\<close>.\<close>

function load_pages :: "'d sdcard \<Rightarrow> task_info_t \<Rightarrow> u64 \<Rightarrow> int \<Rightarrow> int \<Rightarrow> ('d, 'a) kernel_scheme \<Rightarrow>
    ('d, 'a) kernel_scheme option" where
  "load_pages B task pgd sz block_id s =
     (if sz < memsz task
      then do { (block_id1, s1) \<leftarrow> load_page B task pgd sz block_id s; load_pages B task pgd (sz + 4096) block_id1 s1 }
      else Some s)"
  by pat_completeness auto
termination
  by (relation "measure (\<lambda>(B, task, pgd, sz, b, s). nat (memsz task - sz))") auto

declare load_pages.simps [simp del]

definition load_task_img :: "'d sdcard \<Rightarrow> u8 list \<Rightarrow> u64 \<Rightarrow> ('d, 'a) kernel_scheme \<Rightarrow> (u64 \<times> ('d, 'a) kernel_scheme) option" where
  "load_task_img B name pgd s = do {
     (task_idx, block_id) \<leftarrow> find_task name s 0 (kernel_sectors_num s + 1);
     (if task_idx = tasks_num s then Some (0, s)
      else do { s1 \<leftarrow> load_pages B (tasks s ! nat task_idx) pgd 0 block_id s; Some (1, s1) })
   }"

section \<open>Creating a process\<close>

definition SR_SPIE :: u64 where "SR_SPIE = 0x20"
definition SR_SPP :: u64 where "SR_SPP = 0x100"
definition SR_SUM :: u64 where "SR_SUM = 0x40000"

definition all_pcbs :: "('d, 'a) kernel_scheme \<Rightarrow> pcb_t list" where
  "all_pcbs s = map (\<lambda>i. pcb s (Pcb i)) [0..<NUM_MAX_TASK]"

definition find_unused_pcb :: "('d, 'a) kernel_scheme \<Rightarrow> pcb_ref option" where
  "find_unused_pcb s = map_option Pcb (find_index (\<lambda>p. pid p = 0) (all_pcbs s))"

text \<open>\<^verbatim>\<open>++threads[pid]\<close>, \<^verbatim>\<open>threads[pid]--\<close> and a read of \<^verbatim>\<open>threads[pid]\<close>.\<close>

definition add_threads :: "int \<Rightarrow> int \<Rightarrow> ('d, 'a) kernel_scheme \<Rightarrow> (int \<times> ('d, 'a) kernel_scheme) option" where
  "add_threads i d s =
     (if 0 \<le> i \<and> nat i < length (threads s)
      then let v = threads s ! nat i + d in Some (v, s\<lparr>threads := (threads s)[nat i := v]\<rparr>) else None)"

text \<open>
  The kernel stack page holds a \<^verbatim>\<open>regs_context_t\<close> (36 registers, 288 bytes) at its top and a
  \<^verbatim>\<open>switchto_context_t\<close> (14 registers) below it. \<open>setup_context\<close> is the part that
  \<^verbatim>\<open>init_pcb_context\<close> and \<^verbatim>\<open>do_thread_create\<close> have in common: both stacks, and the two contexts with
  the stack pointer, the entry point and, for a thread, its argument in \<^verbatim>\<open>a0\<close>.
\<close>

definition pt_reg :: "u64 \<Rightarrow> nat \<Rightarrow> u64" where
  "pt_reg pt_regs i = pt_regs + 8 * of_nat i"

definition setup_context :: "'d sdcard \<Rightarrow> pcb_ref \<Rightarrow> u64 \<Rightarrow> u64 \<Rightarrow> u64 option \<Rightarrow> u64 \<Rightarrow> ('d, 'a) kernel_scheme \<Rightarrow>
    ('d, 'a) kernel_scheme option" where
  "setup_context B p stack_uva sp arg sepc s =
     (let (kpage, s1) = kalloc s; kernel_stack = kpage + PAGE_SIZE in do {
        (upage, s2) \<leftarrow> alloc_page_helper B stack_uva (pgdir (pcb s1 p)) s1;
        let user_stack = upage + PAGE_SIZE;
        let pte = get_pte_of_uva stack_uva (pgdir (pcb s2 p)) s2;
        (if pte = 0 then None else do {
           let s3 = store pte (unset_attribute (mem s2 pte) PAGE_EXEC) s2;
           let pt_regs = kernel_stack - 288;
           let s4 = store (pt_reg pt_regs 4) (pcb_addr s3 p) (store (pt_reg pt_regs 2) sp s3);
           let s5 = (case arg of None \<Rightarrow> s4 | Some a \<Rightarrow> store (pt_reg pt_regs 10) a s4);
           let s6 = store (pt_reg pt_regs 33) sepc s5;
           let s7 = store (pt_reg pt_regs 32) (((mem s6 (pt_reg pt_regs 32) AND NOT SR_SPP) OR SR_SPIE) OR SR_SUM) s6;
           let pt_switchto = pt_regs - 112;
           let s8 = store (pt_switchto + 8) pt_regs (store pt_switchto (ret_from_kernel_addr s7) s7);
           Some (upd_pcb p (\<lambda>q. q\<lparr>kernel_sp := pt_regs, user_sp := user_stack, trapframe := pt_regs,
                   switchto_context := pt_switchto\<rparr>) s8)
         })
      })"

definition init_pcb_context :: "'d sdcard \<Rightarrow> pcb_ref \<Rightarrow> ('d, 'a) kernel_scheme \<Rightarrow> ('d, 'a) kernel_scheme option" where
  "init_pcb_context B p s = setup_context B p USER_VA_SP_BASE USER_VA_SP None USER_VA_START s"

text \<open>The search \<^verbatim>\<open>for (i = 0; i < NUM_MAX_TASK; i++) if (strcmp(name, tasks[i].name) == 0)\<close>.\<close>

fun find_task_entry :: "u8 list \<Rightarrow> task_info_t list \<Rightarrow> nat list \<Rightarrow> nat option option" where
  "find_task_entry name ts [] = Some None"
| "find_task_entry name ts (i # is) =
     (if i < length ts
      then do { c \<leftarrow> strcmp name (tname (ts ! i));
                (if c = 0 then Some (Some i) else find_task_entry name ts is) }
      else None)"

text \<open>Linking a new process into the ready queue with an empty list of waiters.\<close>

definition enlist_pcb :: "pcb_ref \<Rightarrow> u8 list \<Rightarrow> int \<Rightarrow> int \<Rightarrow> ('d, 'a) kernel_scheme \<Rightarrow> ('d, 'a) kernel_scheme option" where
  "enlist_pcb p name pd td s = do {
     nm \<leftarrow> strcpy (pname (pcb s p)) name;
     let s1 = upd_pcb p (\<lambda>q. q\<lparr>pid := pd, tid := td, status := TASK_READY, pname := nm\<rparr>) s;
     Some (s1\<lparr>lnk := INIT_LIST_HEAD (Wait_list p) (list_add_tail (Pcb_list p) Ready_queue (lnk s1))\<rparr>)
   }"

definition create_pcb :: "'d sdcard \<Rightarrow> u8 list \<Rightarrow> ('d, 'a) kernel_scheme \<Rightarrow>
    (pcb_ref option \<times> ('d, 'a) kernel_scheme) option" where
  "create_pcb B name s =
     (case find_unused_pcb s of
        None \<Rightarrow> Some (None, s)
      | Some p \<Rightarrow> do {
          found \<leftarrow> find_task_entry name (tasks s) [0..<NUM_MAX_TASK];
          (case found of
             None \<Rightarrow> Some (None, s)
           | Some i \<Rightarrow> do {
               let pd = process_id s;
               (td, s1) \<leftarrow> add_threads pd 1 (s\<lparr>process_id := pd + 1\<rparr>);
               s2 \<leftarrow> enlist_pcb p name pd td s1;
               let (pgd, s3) = kalloc s2;
               let s4 = upd_pcb p (\<lambda>q. q\<lparr>pgdir := pgd\<rparr>) s3;
               (r, s5) \<leftarrow> load_task_img B (tname (tasks s4 ! i)) pgd s4;
               (if r \<noteq> 1 then None
                else do { s6 \<leftarrow> init_pcb_context B p (share_pgtable pgd PGDIR_VA s5); Some (Some p, s6) })
             })
        })"

text \<open>The argument strings, copied below the array of pointers to them.\<close>

fun push_args :: "u8 list list \<Rightarrow> u64 \<Rightarrow> u64 \<Rightarrow> u64 \<Rightarrow> ('d, 'a) kernel_scheme \<Rightarrow>
    (u64 \<times> u64 \<times> ('d, 'a) kernel_scheme) option" where
  "push_args [] ptr kva uva s = Some (ptr, uva, s)"
| "push_args (a # as) ptr kva uva s = do {
     n \<leftarrow> strlen a;
     let len = n + 1;
     let kva1 = kva - of_nat len;
     let uva1 = uva - of_nat len;
     push_args as (ptr + 8) kva1 uva1 (write_bytes kva1 (take len a) (store ptr uva1 s))
   }"

definition do_exec :: "'d sdcard \<Rightarrow> u8 list \<Rightarrow> int \<Rightarrow> u8 list list \<Rightarrow> ('d, 'a) kernel_scheme \<Rightarrow>
    (int \<times> ('d, 'a) kernel_scheme) option" where
  "do_exec B name argc argv s = do {
     (r, s1) \<leftarrow> create_pcb B name s;
     (case r of
        None \<Rightarrow> Some (0, s1)
      | Some p \<Rightarrow>
          (if argc > int (length argv) then None else do {
             let n = (of_int (argc + 1) * 8 :: u64);
             let kernel_argv_base = user_sp (pcb s1 p) - n;
             let user_argv_base = USER_VA_SP - n;
             (ptr, uva, s2) \<leftarrow> push_args (take (nat argc) argv) kernel_argv_base kernel_argv_base user_argv_base s1;
             let s3 = store ptr 0 s2;
             let tf = kernel_sp (pcb s3 p);
             let s4 = store (pt_reg tf 2) (uva AND NOT (mask 7)) s3;
             let s5 = store (pt_reg tf 11) user_argv_base (store (pt_reg tf 10) (of_int argc) s4);
             let s6 = upd_pcb p (\<lambda>q. q\<lparr>cwd_inum := cwd_inum (pcb s5 (current_running s5))\<rparr>) s5;
             Some (pid (pcb s6 p), s6)
           }))
   }"

section \<open>Ending a process\<close>

definition release_lock_of :: "pcb_ref \<Rightarrow> nat \<Rightarrow> ('d, 'a) kernel_scheme \<Rightarrow> ('d, 'a) kernel_scheme option" where
  "release_lock_of p i s =
     (if i < length (mlocks s)
      then if mpid (mlocks s ! i) = pid (pcb s p) then do_mutex_lock_release (int i) s else Some s
      else None)"

definition release_pcb :: "pcb_ref \<Rightarrow> ('d, 'a) kernel_scheme \<Rightarrow> ('d, 'a) kernel_scheme option" where
  "release_pcb p s = do {
     let s1 = upd_pcb p (\<lambda>q. q\<lparr>status := TASK_EXITED\<rparr>) s;
     (_, s2) \<leftarrow> add_threads (pid (pcb s1 p)) (- 1) s1;
     let s3 = s2\<lparr>lnk := list_delete_entry (Pcb_list p) (lnk s2)\<rparr>;
     s4 \<leftarrow> foldM (release_lock_of p) [0..<LOCK_NUM] s3;
     unblock_all (Wait_list p) s4
   }"

text \<open>\<^verbatim>\<open>do_exit\<close> up to \<^verbatim>\<open>switch_to(exited, current_running)\<close>, which saves and loads registers only.\<close>

definition do_exit :: "'d sdcard \<Rightarrow> ('d, 'a) kernel_scheme \<Rightarrow> ('d, 'a) kernel_scheme option" where
  "do_exit B s = do {
     let exited = current_running s;
     s1 \<leftarrow> release_pcb exited s;
     (v, _) \<leftarrow> add_threads (pid (pcb s1 exited)) 0 s1;
     s2 \<leftarrow> (if v = 0
            then do {
              t1 \<leftarrow> free_pagetable (pgdir (pcb s1 exited)) s1;
              t2 \<leftarrow> find_idle_task B t1;
              Some (free_pgdir (pgdir (pcb t2 exited)) (switch_pgdir t2))
            }
            else free_page_with_kva (user_sp (pcb s1 exited) - PAGE_SIZE) s1);
     Some (upd_pcb exited (\<lambda>q. q\<lparr>pid := 0\<rparr>) s2)
   }"

definition find_pid :: "int \<Rightarrow> ('d, 'a) kernel_scheme \<Rightarrow> pcb_ref option" where
  "find_pid pd s = map_option Pcb (find_index (\<lambda>p. pid p = pd) (all_pcbs s))"

definition do_kill :: "int \<Rightarrow> ('d, 'a) kernel_scheme \<Rightarrow> (int \<times> ('d, 'a) kernel_scheme) option" where
  "do_kill pd s =
     (case find_pid pd s of
        None \<Rightarrow> Some (0, s)
      | Some killed \<Rightarrow> do {
          s1 \<leftarrow> release_pcb killed s;
          (v, _) \<leftarrow> add_threads (pid (pcb s1 killed)) 0 s1;
          s2 \<leftarrow> (if v = 0
                 then do {
                   t1 \<leftarrow> free_pagetable (pgdir (pcb s1 killed)) s1;
                   Some (free_pgdir (pgdir (pcb t1 killed)) t1)
                 }
                 else free_page_with_kva (user_sp (pcb s1 killed) - PAGE_SIZE) s1);
          Some (1, upd_pcb killed (\<lambda>q. q\<lparr>pid := 0\<rparr>) s2)
        })"

section \<open>Threads and waiting\<close>

definition do_thread_create :: "'d sdcard \<Rightarrow> u64 \<Rightarrow> u64 \<Rightarrow> ('d, 'a) kernel_scheme \<Rightarrow>
    (int \<times> ('d, 'a) kernel_scheme) option" where
  "do_thread_create B start_routine arg s =
     (case find_unused_pcb s of
        None \<Rightarrow> Some (0, s)
      | Some p \<Rightarrow> do {
          let main_thread = current_running s;
          let pd = pid (pcb s main_thread);
          (td, s1) \<leftarrow> add_threads pd 1 s;
          s2 \<leftarrow> enlist_pcb p (pname (pcb s1 main_thread)) pd td s1;
          let s3 = upd_pcb p (\<lambda>q. q\<lparr>pgdir := pgdir (pcb s2 main_thread)\<rparr>) s2;
          let user_stack_uva = USER_VA_SP_BASE + of_int ((td - 1) * 4096);
          s4 \<leftarrow> setup_context B p user_stack_uva (user_stack_uva + PAGE_SIZE) (Some arg) start_routine s3;
          Some (td, s4)
        })"

text \<open>
  A call that may block stops where the process leaves the processor and goes on from there when it
  is scheduled again: \<open>Waits k\<close> says what it still has to do.
\<close>

datatype ('r, 'k) outcome = Returns 'r | Waits 'k

definition joins :: "int \<Rightarrow> ('d, 'a) kernel_scheme \<Rightarrow> node \<Rightarrow> bool" where
  "joins thread s n = (case n of
      Pcb_list p \<Rightarrow> pid (pcb s p) = pid (pcb s (current_running s)) \<and> tid (pcb s p) = thread | _ \<Rightarrow> False)"

text \<open>The rest of the loop over the ready queue, from node \<open>pos\<close> on.\<close>

definition do_thread_join_from :: "'d sdcard \<Rightarrow> int \<Rightarrow> node \<Rightarrow> ('d, 'a) kernel_scheme \<Rightarrow>
    ((int, node) outcome \<times> ('d, 'a) kernel_scheme) option" where
  "do_thread_join_from B thread pos s = do {
     found \<leftarrow> list_find (joins thread s) Ready_queue pos (lnk s);
     (case found of
        Some (Pcb_list p) \<Rightarrow> do {
          s1 \<leftarrow> do_block B (Pcb_list (current_running s)) (Wait_list p) s;
          Some (Waits (nxt (lnk s) (Pcb_list p)), s1)
        }
      | _ \<Rightarrow> Some (Returns thread, s))
   }"

definition do_thread_join :: "'d sdcard \<Rightarrow> int \<Rightarrow> ('d, 'a) kernel_scheme \<Rightarrow>
    ((int, node) outcome \<times> ('d, 'a) kernel_scheme) option" where
  "do_thread_join B thread s = do_thread_join_from B thread (nxt (lnk s) Ready_queue) s"

definition do_waitpid :: "'d sdcard \<Rightarrow> int \<Rightarrow> ('d, 'a) kernel_scheme \<Rightarrow>
    ((int, pcb_ref) outcome \<times> ('d, 'a) kernel_scheme) option" where
  "do_waitpid B pd s =
     (case find_pid pd s of
        None \<Rightarrow> Some (Returns 0, s)
      | Some to_wait \<Rightarrow> do {
          s1 \<leftarrow> do_block B (Pcb_list (current_running s)) (Wait_list to_wait) s;
          Some (Waits to_wait, s1)
        })"

definition do_waitpid_resume :: "pcb_ref \<Rightarrow> ('d, 'a) kernel_scheme \<Rightarrow> int" where
  "do_waitpid_resume to_wait s = pid (pcb s to_wait)"

section \<open>The process table\<close>

definition status_name :: "task_status_t \<Rightarrow> u8 list" where
  "status_name st = map of_char (case st of
      TASK_BLOCKED \<Rightarrow> ''BLOCKED'' | TASK_RUNNING \<Rightarrow> ''RUNNING'' | TASK_READY \<Rightarrow> ''READY'' | TASK_EXITED \<Rightarrow> ''EXITED'')"

definition show_pcb :: "nat \<Rightarrow> ('d, 'a) fsys_scheme \<Rightarrow> ('d, 'a) fsys_scheme option" where
  "show_pcb i s =
     (let p = pcb s (Pcb i) in
      if pid p \<noteq> 0
      then do { n \<leftarrow> strlen (pname p);
                Some (say ''[%d] NAME: %s  PID: %d  STATUS: %s\<newline>''
                  [PInt (int i), PStr (take n (pname p)), PInt (pid p), PStr (status_name (status p))] s) }
      else Some s)"

definition do_process_show :: "('d, 'a) fsys_scheme \<Rightarrow> ('d, 'a) fsys_scheme option" where
  "do_process_show s = foldM show_pcb [0..<NUM_MAX_TASK] (say ''[Process Table]:\<newline>'' [] s)"

end
