(* ===== verification/FS.thy ===== *)
theory FS
  imports FS_Disk
begin

text \<open>
  Directories and files: the system calls of \<open>src/kernel/fs/fs.c\<close>. Paths and names are the bytes
  from the pointer on (see \<open>CString\<close>). The result of a call is the C return value with the new
  state; \<open>None\<close> means an access outside an object, where C has no behaviour. The current working
  directory is a field of the current process.
\<close>

section \<open>Scanning a directory\<close>

text \<open>
  The two nested loops every directory operation has: over the direct blocks up to the first 0,
  and over the entries of the block in \<^verbatim>\<open>block_buf\<close>. The body says whether to go on or to leave both
  loops with a value; the loops also give the final \<^verbatim>\<open>block_num\<close>.
\<close>

datatype 'r scan = Continue | Stop 'r

fun scan_dentries :: "(nat \<Rightarrow> u8 list \<Rightarrow> 'r scan option) \<Rightarrow> nat list \<Rightarrow> u8 list \<Rightarrow> 'r scan option" where
  "scan_dentries f [] buf = Some Continue"
| "scan_dentries f (j # js) buf =
     (case f j buf of None \<Rightarrow> None | Some (Stop r) \<Rightarrow> Some (Stop r) | Some Continue \<Rightarrow> scan_dentries f js buf)"

fun scan_blocks :: "'d sdcard \<Rightarrow> (nat \<Rightarrow> nat \<Rightarrow> u8 list \<Rightarrow> 'r scan option) \<Rightarrow> nat \<Rightarrow> u32 list \<Rightarrow> u32 \<Rightarrow>
    ('d, 'a) fsys_scheme \<Rightarrow> ('r scan \<times> u32 \<times> ('d, 'a) fsys_scheme) option" where
  "scan_blocks B f i [] bn s = Some (Continue, bn, s)"
| "scan_blocks B f i (b # bs) bn s =
     (if b = 0 then Some (Continue, 0, s)
      else let s1 = read_block B b s in
        case scan_dentries (f i) [0..<NDENTRIES_PER_BLOCK] (block_buf s1) of
          None \<Rightarrow> None
        | Some (Stop r) \<Rightarrow> Some (Stop r, b, s1)
        | Some Continue \<Rightarrow> scan_blocks B f (Suc i) bs b s1)"

text \<open>The test at each entry: a valid entry with this name, or the unused entry that ends the list.\<close>

definition match_entry :: "u8 list \<Rightarrow> nat \<Rightarrow> u8 list \<Rightarrow> nat option scan option" where
  "match_entry name j buf = do {
     v \<leftarrow> d_valid j buf;
     c \<leftarrow> (if v then strcmp (d_name j buf) name else Some 1);
     (if v \<and> c = 0 then Some (Stop (Some j))
      else do { i \<leftarrow> d_inum j buf; Some (if i = 0 then Stop None else Continue) })
   }"

definition cwd :: "('d, 'a) fsys_scheme \<Rightarrow> int" where
  "cwd s = cwd_inum (pcb s (current_running s))"

definition set_cwd :: "int \<Rightarrow> ('d, 'a) fsys_scheme \<Rightarrow> ('d, 'a) fsys_scheme" where
  "set_cwd i s = upd_pcb (current_running s) (\<lambda>p. p\<lparr>cwd_inum := i\<rparr>) s"

section \<open>Paths\<close>

text \<open>
  \<^verbatim>\<open>path_copy\<close> holds 16 bytes; \<open>next_part\<close> is the pointer after the first slash or terminator of the
  copy. The comparison uses the whole of \<open>path\<close>.
\<close>

definition next_part :: "u8 list \<Rightarrow> u8 list option" where
  "next_part copy = (case find_index (\<lambda>c. c = 0x2f \<or> c = 0) copy of
      None \<Rightarrow> None | Some k \<Rightarrow> Some (drop (k + 1) (copy[k := 0])))"

lemma strcpy_string:
  "strcpy dest src = Some d \<Longrightarrow> takeWhile (\<lambda>c. c \<noteq> 0) d = takeWhile (\<lambda>c. c \<noteq> 0) src \<and>
     (\<forall>k\<ge>length (takeWhile (\<lambda>c. c \<noteq> 0) src) + 1. drop k d = drop k dest)"
proof (induction dest src arbitrary: d rule: strcpy.induct)
  case (1 d' dest s src)
  show ?case
  proof (cases "s = 0")
    case True
    then show ?thesis using 1(2) by (auto simp: drop_Cons' split: if_splits)
  next
    case False
    then obtain d1 where "strcpy dest src = Some d1" "d = s # d1" using 1(2) by auto
    then show ?thesis using 1(1) [OF False, of d1] False by (auto simp: drop_Cons')
  qed
qed auto

lemma takeWhile_dropWhile: "takeWhile P (dropWhile P xs) = []"
  by (induction xs) auto

lemma next_part_shorter:
  assumes c: "strcpy (replicate 16 0) path = Some copy" and n: "next_part copy = Some nx"
    and p: "path \<noteq> []" "hd path \<noteq> 0"
  shows "length (takeWhile (\<lambda>c. c \<noteq> 0) nx) < length (takeWhile (\<lambda>c. c \<noteq> 0) path)"
proof -
  let ?t = "takeWhile (\<lambda>c. c \<noteq> (0::u8))"
  have t: "?t copy = ?t path" and z: "\<And>k. k \<ge> length (?t path) + 1 \<Longrightarrow> drop k copy = drop k (replicate 16 0)"
    using strcpy_string [OF c] by auto
  obtain k where k: "find_index (\<lambda>c. c = 0x2f \<or> c = 0) copy = Some k" "nx = drop (k + 1) (copy[k := 0])"
    using n by (auto simp: next_part_def split: option.splits)
  have nx: "nx = drop (k + 1) copy" using k(2) by (simp add: drop_update_swap)
  have kk: "k < length copy" "\<forall>j<k. copy ! j \<noteq> 0" using find_index_SomeD [OF k(1)] by auto
  have pos: "0 < length (?t path)" using p by (cases path) auto
  show ?thesis
  proof (cases "k < length (?t path)")
    case True
    have "copy = ?t path @ dropWhile (\<lambda>c. c \<noteq> 0) copy" using t by (metis takeWhile_dropWhile_id)
    then have nd: "nx = drop (k + 1) (?t path) @ dropWhile (\<lambda>c. c \<noteq> 0) copy"
      using True nx by (metis Suc_eq_plus1 Suc_leI append.right_neutral diff_is_0_eq drop_append drop_0)
    have "x \<noteq> 0" if "x \<in> set (drop (k + 1) (?t path))" for x
      using set_takeWhileD [of x "\<lambda>c. c \<noteq> 0" path] in_set_dropD [OF that] by auto
    then have "?t nx = drop (k + 1) (?t path) @ ?t (dropWhile (\<lambda>c. c \<noteq> 0) copy)"
      unfolding nd by (rule takeWhile_append2)
    then have "?t nx = drop (k + 1) (?t path)" unfolding takeWhile_dropWhile append_Nil2 .
    then show ?thesis using pos by simp
  next
    case False
    then have "nx = drop (k + 1) (replicate 16 0)" using z [of "k + 1"] nx by simp
    then have "?t nx = []" by (cases nx) (auto dest!: arg_cong [of _ _ set] simp: drop_replicate)
    then show ?thesis using pos by simp
  qed
qed

function parse_path :: "'d sdcard \<Rightarrow> u8 list \<Rightarrow> int \<Rightarrow> ('d, 'a) fsys_scheme \<Rightarrow> (int \<times> ('d, 'a) fsys_scheme) option" where
  "parse_path B path cwnd_inum s =
     (if path = [] then None
      else if hd path = 0 then Some (cwnd_inum, s)
      else do {
        copy \<leftarrow> strcpy (replicate 16 0) path;
        nx \<leftarrow> next_part copy;
        n \<leftarrow> read_inode B cwnd_inum s;
        (r, b, s1) \<leftarrow> scan_blocks B (\<lambda>_. match_entry path) 0 (direct n) 0 s;
        (case r of
           Stop (Some j) \<Rightarrow> do { i \<leftarrow> d_inum j (block_buf s1); parse_path B nx (sint i) s1 }
         | _ \<Rightarrow> Some (0, s1))
      })"
  by pat_completeness auto
termination
  by (relation "measure (\<lambda>(B, path, i, s). length (takeWhile (\<lambda>c. c \<noteq> 0) path))")
    (auto intro: next_part_shorter)

declare parse_path.simps [simp del]

section \<open>Directory operations\<close>

definition do_cd :: "'d sdcard \<Rightarrow> u8 list \<Rightarrow> ('d, 'a) fsys_scheme \<Rightarrow> (int \<times> ('d, 'a) fsys_scheme) option" where
  "do_cd B path s = do {
     (inum, s1) \<leftarrow> parse_path B path (cwd s) s;
     (if inum = 0 then Some (1, say ''cd failed: no such directory.\<newline>'' [] s1)
      else do {
        new_cwd \<leftarrow> read_inode B inum s1;
        (if i_type new_cwd = T_FILE then Some (1, say ''cd failed: not a directory.\<newline>'' [] s1)
         else Some (0, set_cwd inum s1))
      })
   }"

text \<open>The tail that \<^verbatim>\<open>do_mkdir\<close> and \<^verbatim>\<open>do_touch\<close> share: the entry goes to the first unused slot of the block.\<close>

definition append_dentry :: "'d sdcard \<Rightarrow> u32 \<Rightarrow> int \<Rightarrow> u8 list \<Rightarrow> ('d, 'a) fsys_scheme \<Rightarrow> ('d, 'a) fsys_scheme option" where
  "append_dentry B block_num inum path s = do {
     let s1 = read_block B block_num s;
     j \<leftarrow> first_free 0 (block_buf s1);
     b1 \<leftarrow> set_d_inum j (of_int inum) (block_buf s1);
     b2 \<leftarrow> set_d_valid j 1 b1;
     b3 \<leftarrow> set_d_name j path b2;
     Some (write_block B block_num (s1\<lparr>block_buf := b3\<rparr>))
   }"

definition do_mkdir :: "'d sdcard \<Rightarrow> u8 list \<Rightarrow> ('d, 'a) fsys_scheme \<Rightarrow> (int \<times> ('d, 'a) fsys_scheme) option" where
  "do_mkdir B path s = do {
     n \<leftarrow> read_inode B (cwd s) s;
     len \<leftarrow> strlen path;
     (if len > DENTRY_NAME_LEN then Some (1, say ''mkdir failed: dir name too long.\<newline>'' [] s)
      else do {
        (r, block_num, s1) \<leftarrow> scan_blocks B (\<lambda>_. match_entry path) 0 (direct n) 0 s;
        (case r of
           Stop (Some j) \<Rightarrow> Some (1, say ''mkdir failed: dir already exists.\<newline>'' [] s1)
         | _ \<Rightarrow> do {
             (new_dir_inum, s2) \<leftarrow> init_dir_inode B (cwd s) s1;
             s3 \<leftarrow> append_dentry B block_num new_dir_inum path s2;
             Some (0, s3)
           })
      })
   }"

text \<open>The test of \<^verbatim>\<open>do_rmdir\<close> looks at entry \<open>i\<close>, the block index, for the end of the list.\<close>

definition match_rmdir :: "u8 list \<Rightarrow> nat \<Rightarrow> nat \<Rightarrow> u8 list \<Rightarrow> nat option scan option" where
  "match_rmdir name i j buf = do {
     v \<leftarrow> d_valid j buf;
     c \<leftarrow> (if v then strcmp (d_name j buf) name else Some 1);
     (if v \<and> c = 0 then Some (Stop (Some j))
      else do { k \<leftarrow> d_inum i buf; Some (if k = 0 then Stop None else Continue) })
   }"

definition free_blocks :: "'d sdcard \<Rightarrow> u32 list \<Rightarrow> ('d, 'a) fsys_scheme \<Rightarrow> ('d, 'a) fsys_scheme option" where
  "free_blocks B bs s = foldM (\<lambda>b. free_block B (sint b)) bs s"

definition do_rmdir :: "'d sdcard \<Rightarrow> u8 list \<Rightarrow> ('d, 'a) fsys_scheme \<Rightarrow> (int \<times> ('d, 'a) fsys_scheme) option" where
  "do_rmdir B path s = do {
     (dir_inum, s1) \<leftarrow> parse_path B path (cwd s) s;
     cwd_inode \<leftarrow> read_inode B (cwd s) s1;
     dir_inode \<leftarrow> read_inode B dir_inum s1;
     (if i_type dir_inode = T_FILE then Some (1, say ''rm failed: not a directory!\<newline>'' [] s1)
      else do {
        (r, block_num, s2) \<leftarrow> scan_blocks B (match_rmdir path) 0 (direct cwd_inode) 0 s1;
        (case r of
           Stop None \<Rightarrow> Some (1, say ''rm failed: no such directory!\<newline>'' [] s2)
         | _ \<Rightarrow> do {
             buf \<leftarrow> (case r of Stop (Some j) \<Rightarrow> set_d_valid j 0 (block_buf s2) | _ \<Rightarrow> Some (block_buf s2));
             let s3 = write_block B block_num (s2\<lparr>block_buf := buf\<rparr>);
             s4 \<leftarrow> free_inode B dir_inum s3;
             s5 \<leftarrow> free_blocks B (direct dir_inode) s4;
             Some (0, s5)
           })
      })
   }"

text \<open>A \<^verbatim>\<open>%s\<close> argument is the string up to its terminator.\<close>

definition c_string :: "u8 list \<Rightarrow> u8 list option" where
  "c_string p = map_option (\<lambda>n. take n p) (strlen p)"

definition print_dentry :: "'d sdcard \<Rightarrow> u8 list \<Rightarrow> int \<Rightarrow> ('d, 'a) fsys_scheme \<Rightarrow> ('d, 'a) fsys_scheme option" where
  "print_dentry B de opt s =
     (if opt = 0 then
        (if hd (drop 8 de) = 0x2e then Some s
         else do { name \<leftarrow> c_string (drop 8 de); Some (say ''%s '' [PStr name] s) })
      else if opt = 1 then do { name \<leftarrow> c_string (drop 8 de); Some (say ''%s '' [PStr name] s) }
      else if opt = 2 then do {
        i \<leftarrow> d_inum 0 de;
        n \<leftarrow> read_inode B (sint i) s;
        name \<leftarrow> c_string (drop 8 de);
        (if i_type n = T_FILE \<or> i_type n = T_DIRECTORY
         then Some (say ''%s\<newline>'' [PStr name] (say ''%x '' [PInt (uint (time_created n))]
                (say ''%d '' [PInt (uint (i_size n))] (say ''root '' [] (say ''rwxr-xr-x '' []
                (say (if i_type n = T_FILE then ''-'' else ''d'') [] s))))))
         else None)
      }
      else Some s)"

fun ls_dentries :: "'d sdcard \<Rightarrow> int \<Rightarrow> nat list \<Rightarrow> ('d, 'a) fsys_scheme \<Rightarrow> ('d, 'a) fsys_scheme option" where
  "ls_dentries B opt [] s = Some s"
| "ls_dentries B opt (j # js) s = do {
     v \<leftarrow> d_valid j (block_buf s);
     (if v then do {
        s1 \<leftarrow> (if 36 * j + 36 \<le> length (block_buf s)
               then print_dentry B (slice (36 * j) 36 (block_buf s)) opt s else None);
        ls_dentries B opt js s1
      }
      else do { i \<leftarrow> d_inum j (block_buf s); (if i = 0 then Some s else ls_dentries B opt js s) })
   }"

fun ls_blocks :: "'d sdcard \<Rightarrow> int \<Rightarrow> u32 list \<Rightarrow> ('d, 'a) fsys_scheme \<Rightarrow> ('d, 'a) fsys_scheme option" where
  "ls_blocks B opt [] s = Some s"
| "ls_blocks B opt (b # bs) s =
     (if b = 0 then Some s
      else do { s1 \<leftarrow> ls_dentries B opt [0..<NDENTRIES_PER_BLOCK] (read_block B b s); ls_blocks B opt bs s1 })"

definition do_ls :: "'d sdcard \<Rightarrow> u8 list \<Rightarrow> int \<Rightarrow> ('d, 'a) fsys_scheme \<Rightarrow> (int \<times> ('d, 'a) fsys_scheme) option" where
  "do_ls B path opt s = do {
     (inum, s1) \<leftarrow> parse_path B path (cwd s) s;
     n \<leftarrow> read_inode B inum s1;
     (if i_type n = T_FILE then Some (1, say ''ls failed: not a directory!\<newline>'' [] s1)
      else do { s2 \<leftarrow> ls_blocks B opt (direct n) s1; Some (0, say ''\<newline>'' [] s2) })
   }"

section \<open>Creating and removing files\<close>

definition do_touch :: "'d sdcard \<Rightarrow> u8 list \<Rightarrow> ('d, 'a) fsys_scheme \<Rightarrow> (int \<times> ('d, 'a) fsys_scheme) option" where
  "do_touch B path s = do {
     n \<leftarrow> read_inode B (cwd s) s;
     len \<leftarrow> strlen path;
     (if len > DENTRY_NAME_LEN then Some (1, say ''touch failed: dir name too long.\<newline>'' [] s)
      else do {
        (r, block_num, s1) \<leftarrow> scan_blocks B (\<lambda>_. match_entry path) 0 (direct n) 0 s;
        (case r of
           Stop (Some j) \<Rightarrow> Some (1, say ''mkdir failed: dir already exists.\<newline>'' [] s1)
         | _ \<Rightarrow> (let (new_file_inum, s2) = alloc_inode B s1; (t, s3) = get_ticks s2 in do {
             s4 \<leftarrow> write_inode B new_file_inum (zero_inode\<lparr>i_type := T_FILE, i_size := 0, time_created := ucast t,
                     i_permission := 0x1ed, i_ref := 1\<rparr>) s3;
             s5 \<leftarrow> append_dentry B block_num new_file_inum path s4;
             Some (0, s5)
           }))
      })
   }"

text \<open>\<^verbatim>\<open>do_cat\<close> prints 32 bytes at a time and ends at the first chunk that starts with 0.\<close>

fun cat_chunks :: "nat list \<Rightarrow> ('d, 'a) fsys_scheme \<Rightarrow> bool \<times> ('d, 'a) fsys_scheme" where
  "cat_chunks [] s = (False, s)"
| "cat_chunks (j # js) s =
     (let str_buf = slice (j * 32) 32 (block_buf s) @ [0]
      in if hd str_buf = 0 then (True, s)
         else cat_chunks js (say ''%s'' [PStr (takeWhile (\<lambda>c. c \<noteq> 0) str_buf)] s))"

fun cat_blocks :: "'d sdcard \<Rightarrow> u32 list \<Rightarrow> ('d, 'a) fsys_scheme \<Rightarrow> ('d, 'a) fsys_scheme" where
  "cat_blocks B [] s = s"
| "cat_blocks B (b # bs) s =
     (case cat_chunks [0..<128] (read_block B b s) of (fin, s1) \<Rightarrow> if fin then s1 else cat_blocks B bs s1)"

definition do_cat :: "'d sdcard \<Rightarrow> u8 list \<Rightarrow> ('d, 'a) fsys_scheme \<Rightarrow> (int \<times> ('d, 'a) fsys_scheme) option" where
  "do_cat B path s = do {
     (inum, s1) \<leftarrow> parse_path B path (cwd s) s;
     n \<leftarrow> read_inode B inum s1;
     (if i_type n = T_DIRECTORY then Some (1, say ''cat failed: not a file.\<newline>'' [] s1)
      else Some (0, cat_blocks B (direct n) s1))
   }"

text \<open>\<^verbatim>\<open>do_ln\<close> works on the block left in \<^verbatim>\<open>block_buf\<close> by its search for an unused entry.\<close>

definition match_unused :: "nat \<Rightarrow> u8 list \<Rightarrow> unit scan option" where
  "match_unused j buf = do { i \<leftarrow> d_inum j buf; Some (if i = 0 then Stop () else Continue) }"

definition do_ln :: "'d sdcard \<Rightarrow> u8 list \<Rightarrow> u8 list \<Rightarrow> ('d, 'a) fsys_scheme \<Rightarrow> (int \<times> ('d, 'a) fsys_scheme) option" where
  "do_ln B src_path dst_path s = do {
     c \<leftarrow> strcmp src_path dst_path;
     (if c = 0 then Some (1, say ''ln failed: hard link name is same as original file.\<newline>'' [] s)
      else do {
        (src_inum, s1) \<leftarrow> parse_path B src_path (cwd s) s;
        src_inode \<leftarrow> read_inode B src_inum s1;
        cwd_inode \<leftarrow> read_inode B (cwd s1) s1;
        (r, block_num, s2) \<leftarrow> scan_blocks B (\<lambda>_. match_unused) 0 (direct cwd_inode) 0 s1;
        j \<leftarrow> first_free 0 (block_buf s2);
        b1 \<leftarrow> set_d_inum j (of_int src_inum) (block_buf s2);
        b2 \<leftarrow> set_d_name j dst_path b1;
        b3 \<leftarrow> set_d_valid j 1 b2;
        let s3 = write_block B block_num (s2\<lparr>block_buf := b3\<rparr>);
        s4 \<leftarrow> write_inode B src_inum (src_inode\<lparr>i_ref := i_ref src_inode + 1\<rparr>) s3;
        Some (0, s4)
      })
   }"

text \<open>\<^verbatim>\<open>do_rm\<close> looks only for the name: an unused entry does not end its loop.\<close>

definition match_name :: "u8 list \<Rightarrow> nat \<Rightarrow> u8 list \<Rightarrow> nat scan option" where
  "match_name name j buf = do {
     v \<leftarrow> d_valid j buf;
     c \<leftarrow> (if v then strcmp (d_name j buf) name else Some 1);
     Some (if v \<and> c = 0 then Stop j else Continue)
   }"

definition do_rm :: "'d sdcard \<Rightarrow> u8 list \<Rightarrow> ('d, 'a) fsys_scheme \<Rightarrow> (int \<times> ('d, 'a) fsys_scheme) option" where
  "do_rm B path s = do {
     (file_inum, s1) \<leftarrow> parse_path B path (cwd s) s;
     (if file_inum = 0 then Some (1, say ''rm failed: no such file.\<newline>'' [] s1)
      else do {
        n0 \<leftarrow> read_inode B file_inum s1;
        (if i_type n0 \<noteq> T_FILE then Some (1, say ''rm failed: not a file.\<newline>'' [] s1)
         else do {
           cwd_inode \<leftarrow> read_inode B (cwd s1) s1;
           let file_inode = n0\<lparr>i_ref := i_ref n0 - 1\<rparr>;
           (r, block_num, s2) \<leftarrow> scan_blocks B (\<lambda>_. match_name path) 0 (direct cwd_inode) 0 s1;
           buf \<leftarrow> (case r of Stop j \<Rightarrow> set_d_valid j 0 (block_buf s2) | Continue \<Rightarrow> Some (block_buf s2));
           let s3 = write_block B block_num (s2\<lparr>block_buf := buf\<rparr>);
           (if i_ref file_inode > 0
            then do { s4 \<leftarrow> write_inode B file_inum file_inode s3; Some (0, s4) }
            else do {
              s4 \<leftarrow> free_inode B file_inum s3;
              s5 \<leftarrow> free_blocks B (direct file_inode) s4;
              Some (0, s5)
            })
         })
      })
   }"

end
