(* ===== verification/FS_File.thy ===== *)
theory FS_File
  imports FS
begin

text \<open>
  Open files, \<open>src/kernel/fs/fs.c\<close> from \<^verbatim>\<open>offset_to_blk\<close> on, and the life of the whole file system:
  \<^verbatim>\<open>do_mkfs\<close>, \<^verbatim>\<open>init_superblock\<close> and \<^verbatim>\<open>do_statfs\<close>. A buffer argument is the list of bytes from the
  pointer to the end of its object; the calls that write to it return it.
\<close>

section \<open>Blocks of a file\<close>

definition NBYTES_PER_BLOCK :: int where "NBYTES_PER_BLOCK = 4096"

text \<open>Entry \<open>k\<close> of \<^verbatim>\<open>(uint32_t *)block_buf\<close>.\<close>

definition buf_word :: "int \<Rightarrow> u8 list \<Rightarrow> u32 option" where
  "buf_word k buf = (if 0 \<le> k \<and> 4 * nat k + 4 \<le> length buf then Some (le_get (slice (4 * nat k) 4 buf)) else None)"

definition set_buf_word :: "int \<Rightarrow> u32 \<Rightarrow> u8 list \<Rightarrow> u8 list option" where
  "set_buf_word k w buf =
     (if 0 \<le> k \<and> 4 * nat k + 4 \<le> length buf then Some (splice_at (4 * nat k) (le_put 4 w) buf) else None)"

definition offset_to_blk :: "'d sdcard \<Rightarrow> u32 \<Rightarrow> inode_t \<Rightarrow> ('d, 'a) fsys_scheme \<Rightarrow> (u32 \<times> ('d, 'a) fsys_scheme) option" where
  "offset_to_blk B offset n s =
     (let blk_num = uint (offset div 4096) in
      if blk_num < int NDIRECT_BLOCKS
      then (if nat blk_num < length (direct n) then Some (direct n ! nat blk_num, s) else None)
      else if blk_num < int NDIRECT_BLOCKS + int NINDIRECT_BLOCKS
      then let s1 = read_block B (indirect n) s
           in do { b \<leftarrow> buf_word (blk_num - int NDIRECT_BLOCKS) (block_buf s1); Some (b, s1) }
      else let k = blk_num - (int NDIRECT_BLOCKS + int NINDIRECT_BLOCKS); s1 = read_block B (double_indirect n) s
           in do {
             db \<leftarrow> buf_word (k div int NINDIRECT_BLOCKS) (block_buf s1);
             let s2 = read_block B db s1;
             b \<leftarrow> buf_word (k mod int NINDIRECT_BLOCKS) (block_buf s2);
             Some (b, s2)
           })"

definition set_inode_blk_num :: "'d sdcard \<Rightarrow> u32 \<Rightarrow> u32 \<Rightarrow> inode_t \<Rightarrow> int \<Rightarrow> ('d, 'a) fsys_scheme \<Rightarrow>
    (inode_t \<times> ('d, 'a) fsys_scheme) option" where
  "set_inode_blk_num B offset new_blk n inum s =
     (let blk_num = uint (offset div 4096) in
      if blk_num < int NDIRECT_BLOCKS
      then (if nat blk_num < length (direct n)
            then let n1 = n\<lparr>direct := (direct n)[nat blk_num := new_blk]\<rparr>
                 in do { s1 \<leftarrow> write_inode B inum n1 s; Some (n1, s1) }
            else None)
      else if blk_num < int NDIRECT_BLOCKS + int NINDIRECT_BLOCKS
      then let s1 = read_block B (indirect n) s
           in do {
             buf \<leftarrow> set_buf_word (blk_num - int NDIRECT_BLOCKS) new_blk (block_buf s1);
             Some (n, write_block B (indirect n) (s1\<lparr>block_buf := buf\<rparr>))
           }
      else let k = blk_num - (int NDIRECT_BLOCKS + int NINDIRECT_BLOCKS); s1 = read_block B (double_indirect n) s
           in do {
             db \<leftarrow> buf_word (k div int NINDIRECT_BLOCKS) (block_buf s1);
             let s2 = read_block B db s1;
             buf \<leftarrow> set_buf_word (k mod int NINDIRECT_BLOCKS) new_blk (block_buf s2);
             Some (n, write_block B db (s2\<lparr>block_buf := buf\<rparr>))
           })"

section \<open>Descriptors\<close>

definition get_fd :: "int \<Rightarrow> ('d, 'a) fsys_scheme \<Rightarrow> fdesc_t option" where
  "get_fd fd s = (if 0 \<le> fd \<and> nat fd < length (fdesc_array s) then Some (fdesc_array s ! nat fd) else None)"

definition set_fd :: "int \<Rightarrow> fdesc_t \<Rightarrow> ('d, 'a) fsys_scheme \<Rightarrow> ('d, 'a) fsys_scheme" where
  "set_fd fd f s = s\<lparr>fdesc_array := (fdesc_array s)[nat fd := f]\<rparr>"

definition zero_fdesc :: fdesc_t where
  "zero_fdesc = \<lparr>fd_inum = 0, fd_read = False, fd_write = False, fd_offset = 0\<rparr>"

definition O_RDONLY :: int where "O_RDONLY = 1"
definition O_WRONLY :: int where "O_WRONLY = 2"
definition O_RDWR :: int where "O_RDWR = 3"

definition open_mode :: "int \<Rightarrow> fdesc_t \<Rightarrow> fdesc_t" where
  "open_mode mode f =
     (if mode = O_RDONLY then f\<lparr>fd_read := True, fd_write := False\<rparr>
      else if mode = O_WRONLY then f\<lparr>fd_read := False, fd_write := True\<rparr>
      else if mode = O_RDWR then f\<lparr>fd_read := True, fd_write := True\<rparr>
      else f)"

definition do_fopen :: "'d sdcard \<Rightarrow> u8 list \<Rightarrow> int \<Rightarrow> ('d, 'a) fsys_scheme \<Rightarrow> (int \<times> ('d, 'a) fsys_scheme) option" where
  "do_fopen B path mode s = do {
     (inum, s1) \<leftarrow> parse_path B path (cwd s) s;
     (if inum = 0 then Some (-1, say ''fopen failed: no such file.\<newline>'' [] s1)
      else case find_index (\<lambda>f. fd_inum f = 0) (fdesc_array s1) of
             None \<Rightarrow> Some (-1, s1)
           | Some i \<Rightarrow> Some (int i, set_fd (int i) (open_mode mode ((fdesc_array s1 ! i)\<lparr>fd_inum := inum\<rparr>)) s1))
   }"

definition do_fclose :: "int \<Rightarrow> ('d, 'a) fsys_scheme \<Rightarrow> (int \<times> ('d, 'a) fsys_scheme) option" where
  "do_fclose fd s = do { f \<leftarrow> get_fd fd s; Some (0, set_fd fd zero_fdesc s) }"

section \<open>Reading and writing\<close>

text \<open>\<^verbatim>\<open>inblk_offset + length > NBYTES_PER_BLOCK ? NBYTES_PER_BLOCK - inblk_offset : length\<close>\<close>

definition chunk_len :: "u32 \<Rightarrow> int \<Rightarrow> int" where
  "chunk_len offset nbytes =
     (let inblk_offset = uint (offset mod 4096)
      in if s32 (inblk_offset + nbytes) > NBYTES_PER_BLOCK then NBYTES_PER_BLOCK - inblk_offset else nbytes)"

lemma chunk_len_pos: "0 < nbytes \<Longrightarrow> 0 < chunk_len offset nbytes"
proof -
  have "uint (offset mod 4096) < 4096" for offset :: u32
    using word_mod_less_divisor [of 4096 offset] by (simp add: word_less_def)
  then show "0 < nbytes \<Longrightarrow> 0 < chunk_len offset nbytes"
    by (auto simp: chunk_len_def NBYTES_PER_BLOCK_def Let_def)
qed

function fread_loop :: "'d sdcard \<Rightarrow> inode_t \<Rightarrow> u32 \<Rightarrow> int \<Rightarrow> int \<Rightarrow> u8 list \<Rightarrow> ('d, 'a) fsys_scheme \<Rightarrow>
    (int \<times> u8 list \<times> ('d, 'a) fsys_scheme) option" where
  "fread_loop B n offset nbytes bytes_read buff s =
     (if nbytes > 0 then do {
        (blk_num, s1) \<leftarrow> offset_to_blk B offset n s;
        (if blk_num = 0 then Some (bytes_read, buff, say ''fread failed: block not allocted.\<newline>'' [] s1)
         else do {
           let len = chunk_len offset nbytes;
           let s2 = read_block B blk_num s1;
           buff' \<leftarrow> memcpy buff (drop (unat (offset mod 4096)) (block_buf s2)) (nat len);
           fread_loop B n (offset + of_int len) (nbytes - len) (s32 (bytes_read + len)) buff' s2
         })
      }
      else Some (bytes_read, buff, s))"
  by pat_completeness auto
termination
  by (relation "measure (\<lambda>(B, n, off, len, r, buff, s). nat len)") (auto dest: chunk_len_pos)

declare fread_loop.simps [simp del]

definition do_fread :: "'d sdcard \<Rightarrow> int \<Rightarrow> u8 list \<Rightarrow> int \<Rightarrow> ('d, 'a) fsys_scheme \<Rightarrow>
    (int \<times> u8 list \<times> ('d, 'a) fsys_scheme) option" where
  "do_fread B fd buff nbytes s = do {
     f \<leftarrow> get_fd fd s;
     (if \<not> fd_read f then Some (-1, buff, say ''fread failed: no read permission!\<newline>'' [] s)
      else do {
        n \<leftarrow> read_inode B (fd_inum f) s;
        (bytes_read, buff', s1) \<leftarrow> fread_loop B n (ucast (fd_offset f)) nbytes 0 buff s;
        Some (bytes_read, buff', set_fd fd (f\<lparr>fd_offset := fd_offset f + of_int bytes_read\<rparr>) s1)
      })
   }"

function fwrite_loop :: "'d sdcard \<Rightarrow> inode_t \<Rightarrow> int \<Rightarrow> u32 \<Rightarrow> int \<Rightarrow> u8 list \<Rightarrow> ('d, 'a) fsys_scheme \<Rightarrow>
    (int \<times> inode_t \<times> ('d, 'a) fsys_scheme) option" where
  "fwrite_loop B n inum offset nbytes buff s =
     (if nbytes > 0 then do {
        (b, s1) \<leftarrow> offset_to_blk B offset n s;
        (blk_num, n1, s2) \<leftarrow>
          (if b = 0 then
             (case alloc_block B s1 of (new_blk, t) \<Rightarrow> do {
                (n', t') \<leftarrow> set_inode_blk_num B offset (of_int new_blk) n inum t;
                Some (of_int new_blk, n', t'\<lparr>block_buf := replicate 4096 0\<rparr>)
              })
           else Some (b, n, read_block B b s1));
        let len = chunk_len offset nbytes;
        let off = unat (offset mod 4096);
        tl' \<leftarrow> memcpy (drop off (block_buf s2)) buff (nat len);
        fwrite_loop B n1 inum (offset + of_int len) (nbytes - len) buff
          (write_block B blk_num (s2\<lparr>block_buf := take off (block_buf s2) @ tl'\<rparr>))
      }
      else Some (nbytes, n, s))"
  by pat_completeness auto
termination
  by (relation "measure (\<lambda>(B, n, i, off, len, buff, s). nat len)") (auto dest: chunk_len_pos)

declare fwrite_loop.simps [simp del]

definition do_fwrite :: "'d sdcard \<Rightarrow> int \<Rightarrow> u8 list \<Rightarrow> int \<Rightarrow> ('d, 'a) fsys_scheme \<Rightarrow> (int \<times> ('d, 'a) fsys_scheme) option" where
  "do_fwrite B fd buff nbytes s = do {
     f \<leftarrow> get_fd fd s;
     (if \<not> fd_write f then Some (-1, say ''fwrite failed: no write permission!\<newline>'' [] s)
      else do {
        let offset = (ucast (fd_offset f) :: u32);
        n \<leftarrow> read_inode B (fd_inum f) s;
        let end_off = offset + of_int nbytes;
        let n1 = (if end_off > i_size n then n\<lparr>i_size := end_off\<rparr> else n);
        (rest, n2, s1) \<leftarrow> fwrite_loop B n1 (fd_inum f) offset nbytes buff (set_fd fd (f\<lparr>fd_offset := ucast end_off\<rparr>) s);
        s2 \<leftarrow> write_inode B (fd_inum f) n2 s1;
        Some (rest, s2)
      })
   }"

definition SEEK_SET :: int where "SEEK_SET = 0"
definition SEEK_CUR :: int where "SEEK_CUR = 1"
definition SEEK_END :: int where "SEEK_END = 2"

text \<open>For any other \<open>whence\<close> the result is an uninitialised variable.\<close>

definition seek_result :: "int \<Rightarrow> int \<Rightarrow> int \<Rightarrow> int \<Rightarrow> int option" where
  "seek_result offset cur_offset file_size whence =
     (if whence = SEEK_SET then Some (if offset \<ge> 0 then (if offset > file_size then file_size else offset) else 0)
      else if whence = SEEK_CUR then
        Some (if offset \<ge> 0 then (if s32 (offset + cur_offset) > file_size then file_size else s32 (offset + cur_offset))
              else (if s32 (offset + cur_offset) \<ge> 0 then s32 (offset + cur_offset) else 0))
      else if whence = SEEK_END then
        Some (if offset \<ge> 0 then file_size
              else (if s32 (file_size + offset) \<ge> 0 then s32 (file_size + offset) else 0))
      else None)"

definition do_lseek :: "'d sdcard \<Rightarrow> int \<Rightarrow> int \<Rightarrow> int \<Rightarrow> ('d, 'a) fsys_scheme \<Rightarrow> (int \<times> ('d, 'a) fsys_scheme) option" where
  "do_lseek B fd offset whence s = do {
     f \<leftarrow> get_fd fd s;
     n \<leftarrow> read_inode B (fd_inum f) s;
     r \<leftarrow> seek_result offset (sint (ucast (fd_offset f) :: u32)) (sint (i_size n)) whence;
     Some (r, set_fd fd (f\<lparr>fd_offset := of_int r\<rparr>) s)
   }"

section \<open>Making and mounting a file system\<close>

text \<open>The name \<^verbatim>\<open>8MB.dat\<close>.\<close>

definition bigfile_name :: "u8 list" where
  "bigfile_name = [0x38, 0x4d, 0x42, 0x2e, 0x64, 0x61, 0x74, 0]"

text \<open>
  Blocks 72 to 81 are the direct blocks, 82 the indirect block, 83 to 1106 its entries, 1107 the
  double indirect block, 1108 its only entry and 1109 to 2122 the entries of that one.
\<close>

definition init_bigfile :: "'d sdcard \<Rightarrow> ('d, 'a) fsys_scheme \<Rightarrow> ('d, 'a) fsys_scheme option" where
  "init_bigfile B s = do {
     (_, s1) \<leftarrow> do_touch B bigfile_name s;
     n \<leftarrow> read_inode B TEST_BIG_FILE_INUM s1;
     let blk_map_buf = replicate 33 0xffffffffffffffff @ [0x7f] @ replicate 30 (0::u64);
     let s2 = wr_words B (sb_start (superblock s1) + bmap_offset (superblock s1)) blk_map_buf s1;
     let n1 = n\<lparr>direct := map of_nat [72..<82], indirect := 82\<rparr>;
     let s3 = write_block B (indirect n1) (s2\<lparr>block_buf := put_array 4 (map of_nat [83..<1107] :: u32 list)\<rparr>);
     let n2 = n1\<lparr>double_indirect := 1107\<rparr>;
     let s4 = write_block B (double_indirect n2)
                (s3\<lparr>block_buf := put_array 4 ((1108::u32) # replicate 1023 0)\<rparr>);
     let s5 = write_block B 1108
                (s4\<lparr>block_buf := put_array 4 (map of_nat [1109..<2123] @ replicate 10 (0::u32))\<rparr>);
     write_inode B TEST_BIG_FILE_INUM (n2\<lparr>i_size := 8388608\<rparr>) s5
   }"

definition mkfs_superblock :: superblock_t where
  "mkfs_superblock = \<lparr>sb_magic = SUPERBLOCK_MAGIC, sb_start = FS_START_SECTOR, sb_size = 0x100000,
     bmap_offset = 1, imap_offset = 33, inode_offset = 34, data_offset = 546, inode_size = 64, dentry_size = 36\<rparr>"

fun zero_sectors :: "'d sdcard \<Rightarrow> u32 list \<Rightarrow> ('d, 'a) fsys_scheme \<Rightarrow> ('d, 'a) fsys_scheme" where
  "zero_sectors B [] s = s"
| "zero_sectors B (k # ks) s = zero_sectors B ks (wr_words B k (replicate 64 0) s)"

definition do_mkfs :: "'d sdcard \<Rightarrow> ('d, 'a) fsys_scheme \<Rightarrow> (int \<times> ('d, 'a) fsys_scheme) option" where
  "do_mkfs B s0 = do {
     let s1 = say ''[FS] Setting superblock ...\<newline>'' [] (say ''[FS] Start initializing file system!\<newline>'' [] s0);
     let sb = mkfs_superblock;
     let s2 = wr_sector B (sb_start sb) (superblock_bytes sb @ replicate 480 0) (s1\<lparr>superblock := sb\<rparr>);
     let s3 = say ''     magic number: %x\<newline>'' [PInt (uint (sb_magic sb))] s2;
     let s4 = say ''     sectors num: %d, start sector: %d\<newline>'' [PInt (uint (sb_size sb)), PInt (uint (sb_start sb))] s3;
     let s5 = say ''     block map offset: %d(%d)\<newline>'' [PInt (uint (bmap_offset sb)), PInt 32] s4;
     let s6 = say ''     inode map offset: %d(%d)\<newline>'' [PInt (uint (inode_offset sb)), PInt 1] s5;
     let s7 = say ''     inode offset: %d(%d)\<newline>'' [PInt (uint (inode_offset sb)), PInt 512] s6;
     let s8 = say ''     data offset: %d(%d)\<newline>'' [PInt (uint (data_offset sb)), PInt (uint (sb_size sb - data_offset sb))] s7;
     let s9 = say ''[FS] Setting block-map...\<newline>'' [] s8;
     let bmap_start = sb_start sb + bmap_offset sb;
     let s10 = wr_words B bmap_start ([0xffffffffffffffff, 0x3f] @ replicate 62 0) s9;
     let s11 = zero_sectors B (map (\<lambda>i. bmap_start + of_nat i) [1..<NSECTORS_BMAP]) s10;
     let s12 = say ''[FS] Setting inode-map...\<newline>'' [] s11;
     let s13 = wr_words B (sb_start sb + imap_offset sb) (replicate 64 0) s12;
     let s14 = say ''[FS] Setting inode...\<newline>'' [] s13;
     (_, s15) \<leftarrow> init_dir_inode B ROOT_DIR_INUM s14;
     let s16 = say ''[TEST] Init 8MB.dat...\<newline>'' [] (set_cwd ROOT_DIR_INUM s15);
     s17 \<leftarrow> init_bigfile B s16;
     Some (0, say ''[FS] File system initialization finished!\<newline>'' [] s17)
   }"

text \<open>
  \<^verbatim>\<open>memcpy(&superblock, sector_buf, sizeof(sector_buf))\<close> copies 512 bytes onto the 32 bytes of
  \<^verbatim>\<open>superblock\<close>. The other 480 go to whatever the linker placed after it: \<open>spill\<close> is their effect.
\<close>

definition load_superblock :: "'d sdcard \<Rightarrow> (u8 list \<Rightarrow> ('d, 'a) fsys_scheme \<Rightarrow> ('d, 'a) fsys_scheme) \<Rightarrow>
    ('d, 'a) fsys_scheme \<Rightarrow> ('d, 'a) fsys_scheme" where
  "load_superblock B spill s =
     (let buf = rd_sector B FS_START_SECTOR s
      in spill (drop 32 buf) (s\<lparr>superblock := bytes_superblock (take 32 buf)\<rparr>))"

definition init_superblock :: "'d sdcard \<Rightarrow> (u8 list \<Rightarrow> ('d, 'a) fsys_scheme \<Rightarrow> ('d, 'a) fsys_scheme) \<Rightarrow>
    ('d, 'a) fsys_scheme \<Rightarrow> ('d, 'a) fsys_scheme option" where
  "init_superblock B spill s =
     (let s1 = load_superblock B spill s
      in if sb_magic (superblock s1) \<noteq> SUPERBLOCK_MAGIC
         then map_option snd (do_mkfs B (say ''No file system detected, start mkfs...\<newline>'' [] s1))
         else Some (set_cwd ROOT_DIR_INUM s1))"

text \<open>The counting loops: over the block map until a word with no bit, over the inode map until one with fewer than 32.\<close>

fun count_until :: "(int \<Rightarrow> bool) \<Rightarrow> u64 list \<Rightarrow> u32 \<Rightarrow> u32" where
  "count_until stop [] used = used"
| "count_until stop (w # ws) used =
     (let cnt = popcnt w in if stop cnt then used + of_int cnt else count_until stop ws (used + of_int cnt))"

definition do_statfs :: "'d sdcard \<Rightarrow> (u8 list \<Rightarrow> ('d, 'a) fsys_scheme \<Rightarrow> ('d, 'a) fsys_scheme) \<Rightarrow>
    ('d, 'a) fsys_scheme \<Rightarrow> int \<times> ('d, 'a) fsys_scheme" where
  "do_statfs B spill s =
     (let s1 = load_superblock B spill s; sb = superblock s1;
          s2 = say ''magic: %x\<newline>'' [PInt (uint (sb_magic sb))] s1;
          bmap_start = sb_start sb + bmap_offset sb;
          blocks_used = count_until (\<lambda>c. c = 0)
            (concat (map (\<lambda>i. rd_words B (bmap_start + of_nat i) s2) [0..<NSECTORS_BMAP])) 0;
          s3 = say ''used blocks: %d/131076, start sector: %d\<newline>'' [PInt (uint blocks_used), PInt (uint (sb_start sb))] s2;
          s4 = say ''block map offset: %d, occupied sector: 32\<newline>'' [PInt (uint (bmap_offset sb))] s3;
          inodes_used = count_until (\<lambda>c. c < 32) (rd_words B (sb_start sb + imap_offset sb) s4) 0;
          s5 = say ''inode map offset: %d, occupied sector: 1, used: %d/4096\<newline>''
                 [PInt (uint (imap_offset sb)), PInt (uint inodes_used)] s4;
          s6 = say ''data offset: %d, occupied sector: %d\<newline>''
                 [PInt (uint (data_offset sb)), PInt (uint (sb_size sb - data_offset sb))] s5;
          s7 = say ''inode entry size: %dB, dir entry size: %dB\<newline>''
                 [PInt (uint (inode_size sb)), PInt (uint (dentry_size sb))] s6
      in (0, s7))"

end
