(* ===== verification/FS_Laws.thy ===== *)
theory FS_Laws
  imports FS_File Sched_Live
begin

text \<open>
  Laws of the disk layer: what a sector, a block, an inode or a map bit holds after the operations of
  \<open>FS_Disk\<close>. All of them assume only the documented behaviour \<open>sd_card_ok\<close> of the card;
  \<open>ram_card\<close> is a card that has it.
\<close>

section \<open>A card\<close>

definition pad512 :: "u8 list \<Rightarrow> u8 list" where
  "pad512 bs = take 512 (bs @ replicate 512 0)"

definition ram_card :: "(u32 \<Rightarrow> u8 list) sdcard" where
  "ram_card = \<lparr>sd_read = \<lambda>d n k. concat (map (\<lambda>i. pad512 (d (k + of_nat i))) [0..<unat n]),
     sd_write = \<lambda>d n k bs j. if j - k < n then slice (512 * unat (j - k)) 512 bs else d j\<rparr>"

lemma length_pad512 [simp]: "length (pad512 bs) = 512"
  by (simp add: pad512_def)

lemma pad512_id: "length bs = 512 \<Longrightarrow> pad512 bs = bs"
  by (simp add: pad512_def)

lemma sector_ram_card: "sector ram_card d k = pad512 (d k)"
  by (simp add: sector_def ram_card_def)

lemma sd_card_ok_ram_card [simp]: "sd_card_ok ram_card"
proof -
  have "pad512 (slice (512 * unat (j - k)) 512 bs) = slice (512 * unat (j - k)) 512 bs"
    if "length bs = 512 * unat n" "j - k < n" for bs :: "u8 list" and n j k :: u32
  proof (rule pad512_id)
    have "unat (j - k) < unat n" using that(2) by (simp add: word_less_nat_alt)
    then have "512 * unat (j - k) + 512 \<le> 512 * unat n" by (rule slice_array_bound)
    then show "length (slice (512 * unat (j - k)) 512 bs) = 512" using that(1) by simp
  qed
  then show ?thesis
    by (auto simp: sd_card_ok_def sector_ram_card) (auto simp: ram_card_def)
qed

section \<open>Sectors\<close>

lemma sd_card_okD:
  assumes "sd_card_ok B"
  shows "length (sector B d k) = 512"
    and "sd_read B d n k = concat (map (\<lambda>i. sector B d (k + of_nat i)) [0..<unat n])"
    and "length bs = 512 * unat n \<Longrightarrow> sector B (sd_write B d n k bs) j =
          (if j - k < n then slice (512 * unat (j - k)) 512 bs else sector B d j)"
  using assms by (auto simp: sd_card_ok_def)

lemma rd_sector_sector: "rd_sector B k s = sector B (sd s) k"
  by (simp add: rd_sector_def sector_def)

lemma length_rd_sector [simp]: "sd_card_ok B \<Longrightarrow> length (rd_sector B k s) = 512"
  by (simp add: rd_sector_sector sd_card_okD)

lemma rd_wr_sector:
  assumes "sd_card_ok B" "length bs = 512"
  shows "rd_sector B j (wr_sector B k bs s) = (if j = k then bs else rd_sector B j s)"
proof -
  have "j - k < 1 \<longleftrightarrow> j = k" by (simp add: word_less_nat_alt unat_eq_zero)
  then show ?thesis using sd_card_okD(3) [OF assms(1), of bs 1 "sd s" k j] assms(2)
    by (auto simp: rd_sector_sector wr_sector_def slice_all)
qed

lemma wr_sector_fields [simp]:
  "superblock (wr_sector B k bs s) = superblock s" "block_buf (wr_sector B k bs s) = block_buf s"
  "fdesc_array (wr_sector B k bs s) = fdesc_array s" "console (wr_sector B k bs s) = console s"
  "pcb (wr_sector B k bs s) = pcb s" "current_running (wr_sector B k bs s) = current_running s"
  "cwd (wr_sector B k bs s) = cwd s"
  by (simp_all add: wr_sector_def cwd_def)

section \<open>Blocks\<close>

definition block_bytes :: "'d sdcard \<Rightarrow> u32 \<Rightarrow> ('d, 'a) fsys_scheme \<Rightarrow> u8 list" where
  "block_bytes B b s = sd_read B (sd s) 8 (block_sector s b)"

lemma unat_8: "unat (8::u32) = 8" by simp

lemma block_bytes_concat:
  "sd_card_ok B \<Longrightarrow> block_bytes B b s = concat (map (\<lambda>i. rd_sector B (block_sector s b + of_nat i) s) [0..<8])"
  by (simp add: block_bytes_def sd_card_okD(2) rd_sector_sector)

lemma length_concat_const: "(\<And>x. x \<in> set xs \<Longrightarrow> length (f x) = n) \<Longrightarrow> length (concat (map f xs)) = n * length xs"
  by (induction xs) auto

lemma length_block_bytes [simp]: "sd_card_ok B \<Longrightarrow> length (block_bytes B b s) = 4096"
  by (simp add: block_bytes_concat length_concat_const [where n = 512])

lemma read_block_fields [simp]:
  "block_buf (read_block B b s) = block_bytes B b s" "sd (read_block B b s) = sd s"
  "superblock (read_block B b s) = superblock s" "fdesc_array (read_block B b s) = fdesc_array s"
  "console (read_block B b s) = console s" "pcb (read_block B b s) = pcb s"
  "current_running (read_block B b s) = current_running s" "cwd (read_block B b s) = cwd s"
  by (simp_all add: read_block_def block_bytes_def cwd_def)

lemma write_block_fields [simp]:
  "block_buf (write_block B b s) = block_buf s"
  "superblock (write_block B b s) = superblock s" "fdesc_array (write_block B b s) = fdesc_array s"
  "console (write_block B b s) = console s" "pcb (write_block B b s) = pcb s"
  "current_running (write_block B b s) = current_running s" "cwd (write_block B b s) = cwd s"
  by (simp_all add: write_block_def cwd_def)

lemma rd_sector_write_block:
  assumes "sd_card_ok B" "length (block_buf s) = 4096"
  shows "rd_sector B j (write_block B b s) =
    (if j - block_sector s b < 8 then slice (512 * unat (j - block_sector s b)) 512 (block_buf s) else rd_sector B j s)"
  using sd_card_okD(3) [OF assms(1), of "block_buf s" 8 "sd s" "block_sector s b" j] assms(2)
  by (simp add: rd_sector_sector write_block_def)

lemma concat_slices:
  "length xs = m * n \<Longrightarrow> concat (map (\<lambda>i. slice (m * i) m xs) [0..<n]) = xs"
proof (induction n arbitrary: xs)
  case 0
  then show ?case by simp
next
  case (Suc n)
  have "concat (map (\<lambda>i. slice (m * i) m xs) [0..<n]) = concat (map (\<lambda>i. slice (m * i) m (take (m * n) xs)) [0..<n])"
  proof (intro arg_cong [of _ _ concat] map_cong refl)
    fix i assume "i \<in> set [0..<n]"
    then have "m * i + m \<le> m * n" using slice_array_bound [of i n m] by simp
    then show "slice (m * i) m xs = slice (m * i) m (take (m * n) xs)" by (simp add: slice_def drop_take min_def)
  qed
  also have "\<dots> = take (m * n) xs" using Suc by simp
  finally show ?case using Suc.prems by (simp add: slice_def)
qed

lemma put_get_array:
  assumes "LENGTH('a::len) = 8 * n" "length bs = n * k"
  shows "put_array n (get_array n k bs :: 'a word list) = bs"
proof -
  have "le_put n (le_get (slice (n * i) n bs) :: 'a word) = slice (n * i) n bs" if "i < k" for i
    using slice_array_bound [OF that, of n] assms by (intro le_put_get) auto
  then have "put_array n (get_array n k bs :: 'a word list) = concat (map (\<lambda>i. slice (n * i) n bs) [0..<k])"
    unfolding put_array_def get_array_def map_map comp_def by (intro arg_cong [of _ _ concat] map_cong) auto
  then show ?thesis using concat_slices [OF assms(2)] by simp
qed

lemma block_bytes_write_same:
  assumes "sd_card_ok B" "length (block_buf s) = 4096"
  shows "block_bytes B b (write_block B b s) = block_buf s"
proof -
  have "rd_sector B (block_sector s b + of_nat i) (write_block B b s) = slice (512 * i) 512 (block_buf s)"
    if "i < 8" for i
    using that by (simp add: rd_sector_write_block [OF assms] word_less_nat_alt unat_of_nat)
  moreover have "block_sector (write_block B b s) b = block_sector s b" by (simp add: block_sector_def)
  ultimately have "block_bytes B b (write_block B b s) = concat (map (\<lambda>i. slice (512 * i) 512 (block_buf s)) [0..<8])"
    unfolding block_bytes_concat [OF assms(1)] by (intro arg_cong [of _ _ concat] map_cong) auto
  then show ?thesis using concat_slices [of "block_buf s" 512 8] assms(2) by simp
qed

section \<open>Layout of a mounted file system\<close>

text \<open>
  With the superblock that \<^verbatim>\<open>do_mkfs\<close> writes, the maps and the inodes are in the first 560 sectors
  and the data blocks, from block 70 on, behind them.
\<close>

definition mounted :: "('d, 'a) fsys_scheme \<Rightarrow> bool" where
  "mounted s \<longleftrightarrow> superblock s = mkfs_superblock \<and> length (block_buf s) = 4096 \<and> length (fdesc_array s) = NUM_FDESCS"

definition data_block :: "u32 \<Rightarrow> bool" where
  "data_block b \<longleftrightarrow> 70 \<le> unat b \<and> unat b < 131072"

definition meta_sector :: "u32 \<Rightarrow> bool" where
  "meta_sector k \<longleftrightarrow> 0x100000 \<le> unat k \<and> unat k < 0x100000 + 560"

lemma u32_diff_less:
  fixes x y :: u32
  assumes "unat y + unat n \<le> 2 ^ 32"
  shows "x - y < n \<longleftrightarrow> unat y \<le> unat x \<and> unat x < unat y + unat n"
  using assms unsigned_less [of x, where ?'a = nat] by (auto simp: word_less_nat_alt unat_sub_if')

lemma unat_block_sector:
  assumes "mounted s" "unat b < 131072"
  shows "unat (block_sector s b) = 0x100000 + 8 * unat b"
proof -
  have "block_sector s b = of_nat (0x100000 + 8 * unat b)"
    using assms(1) by (simp add: block_sector_def mounted_def mkfs_superblock_def FS_START_SECTOR_def)
  then show ?thesis using assms(2) by (simp only: unat_of_nat) simp
qed

lemma mounted_simps [simp]:
  "mounted (wr_sector B k bs s) = mounted s" "mounted (write_block B b s) = mounted s"
  "mounted (say f a s) = mounted s"
  by (simp_all add: mounted_def say_def)

lemma rd_sector_write_meta:
  assumes "sd_card_ok B" "mounted s" "data_block b" "meta_sector k"
  shows "rd_sector B k (write_block B b s) = rd_sector B k s"
proof -
  have u: "unat (block_sector s b) = 0x100000 + 8 * unat b"
    using assms(2,3) by (intro unat_block_sector) (auto simp: data_block_def)
  have "\<not> k - block_sector s b < 8"
    using assms(3,4) by (subst u32_diff_less) (auto simp: u data_block_def meta_sector_def)
  then show ?thesis using assms(1,2) by (simp add: rd_sector_write_block mounted_def)
qed

lemma unat_block_sector_plus:
  assumes "mounted s" "unat b < 131072" "i < 8"
  shows "unat (block_sector s b + of_nat i) = 0x100000 + 8 * unat b + i"
proof -
  have "block_sector s b + of_nat i = of_nat (0x100000 + 8 * unat b + i)"
    using assms(1) by (simp add: block_sector_def mounted_def mkfs_superblock_def FS_START_SECTOR_def)
  then show ?thesis using assms(2,3) by (simp only: unat_of_nat) simp
qed

lemma block_bytes_eqI:
  assumes "sd_card_ok B" "superblock t = superblock s"
    and "\<And>i. i < 8 \<Longrightarrow> rd_sector B (block_sector s b + of_nat i) t = rd_sector B (block_sector s b + of_nat i) s"
  shows "block_bytes B b t = block_bytes B b s"
proof -
  have "block_sector t b = block_sector s b" using assms(2) by (simp add: block_sector_def)
  then show ?thesis unfolding block_bytes_concat [OF assms(1)]
    using assms(3) by (intro arg_cong [of _ _ concat] map_cong) auto
qed

lemma block_bytes_wr_meta:
  assumes "sd_card_ok B" "mounted s" "data_block b" "meta_sector k" "length bs = 512"
  shows "block_bytes B b (wr_sector B k bs s) = block_bytes B b s"
proof (rule block_bytes_eqI [OF assms(1)])
  fix i :: nat assume i: "i < 8"
  have "unat (block_sector s b + of_nat i) = 0x100000 + 8 * unat b + i"
    using assms(3) i by (intro unat_block_sector_plus [OF assms(2)]) (auto simp: data_block_def)
  then have "block_sector s b + of_nat i \<noteq> k" using assms(3,4) by (auto simp: data_block_def meta_sector_def)
  then show "rd_sector B (block_sector s b + of_nat i) (wr_sector B k bs s) = rd_sector B (block_sector s b + of_nat i) s"
    using assms(1,5) by (simp add: rd_wr_sector)
qed simp

lemma block_bytes_write_other:
  assumes "sd_card_ok B" "mounted s" "data_block b" "data_block c" "b \<noteq> c"
  shows "block_bytes B b (write_block B c s) = block_bytes B b s"
proof (rule block_bytes_eqI [OF assms(1)])
  fix i :: nat assume i: "i < 8"
  have u: "unat (block_sector s b + of_nat i) = 0x100000 + 8 * unat b + i"
    "unat (block_sector s c) = 0x100000 + 8 * unat c"
    using assms(3,4) i by (auto intro!: unat_block_sector_plus unat_block_sector assms(2) simp: data_block_def)
  have "unat b \<noteq> unat c" using assms(5) by (simp add: word_unat_eq_iff)
  then have "\<not> block_sector s b + of_nat i - block_sector s c < 8"
    using assms(4) i by (subst u32_diff_less) (auto simp: u data_block_def)
  then show "rd_sector B (block_sector s b + of_nat i) (write_block B c s) = rd_sector B (block_sector s b + of_nat i) s"
    using assms(1,2) by (simp add: rd_sector_write_block mounted_def)
qed simp

section \<open>Inodes\<close>

definition wf_inode :: "inode_t \<Rightarrow> bool" where
  "wf_inode n \<longleftrightarrow> length (direct n) = NDIRECT_BLOCKS"

lemma slice_le_put_0: "slice 0 n (le_put n w @ bs) = le_put n w"
  by (simp add: slice_def)

lemma length_inode_bytes: "wf_inode n \<Longrightarrow> length (inode_bytes n) = 64"
  by (simp add: inode_bytes_def wf_inode_def NDIRECT_BLOCKS_def)

lemma bytes_inode_bytes [codec_simps]:
  assumes "wf_inode n" shows "bytes_inode (inode_bytes n) = n"
proof -
  have "length (direct n) = 10" using assms by (simp add: wf_inode_def NDIRECT_BLOCKS_def)
  then show ?thesis
    by (simp add: bytes_inode_def inode_bytes_def slice_append2 slice_append1 slice_all le_get_put get_put_array)
qed

lemma bytes_superblock_bytes [codec_simps]: "bytes_superblock (superblock_bytes b) = b"
  by (simp add: bytes_superblock_def superblock_bytes_def slice_append2 slice_append1 slice_all le_get_put)

lemma wf_bytes_inode [simp]: "wf_inode (bytes_inode bs)"
  by (simp add: wf_inode_def bytes_inode_def NDIRECT_BLOCKS_def)

lemma signed_div_nonneg:
  fixes a b :: int
  assumes "0 \<le> a" "0 < b" shows "a sdiv b = a div b" "a smod b = a mod b"
proof -
  have "a = 0 \<or> sgn a = 1" using assms(1) by (auto simp: sgn_if)
  then show "a sdiv b = a div b" "a smod b = a mod b"
    using assms by (auto simp: signed_divide_int_def signed_modulo_int_def)
qed

definition inum_ok :: "int \<Rightarrow> bool" where
  "inum_ok i \<longleftrightarrow> 1 \<le> i \<and> i \<le> 4096"

lemma inode_slot_ok: "inum_ok i \<Longrightarrow> inode_slot i = Some (64 * nat ((i - 1) mod 8))"
  by (simp add: inum_ok_def inode_slot_def signed_div_nonneg)

lemma unat_inode_sector:
  assumes "mounted s" "inum_ok i"
  shows "unat (inode_sector i s) = 0x100000 + 34 + nat ((i - 1) div 8)"
proof -
  have r: "0 \<le> (i - 1) div 8" "(i - 1) div 8 < 512" using assms(2) by (auto simp: inum_ok_def)
  have "inode_sector i s = of_nat (0x100000 + 34 + nat ((i - 1) div 8))"
    using assms r by (simp add: inode_sector_def mounted_def mkfs_superblock_def FS_START_SECTOR_def
        signed_div_nonneg inum_ok_def)
  moreover have "nat ((i - 1) div 8) < 512" using r by simp
  ultimately show ?thesis by (simp only: unat_of_nat) simp
qed

lemma inode_meta_sector: "mounted s \<Longrightarrow> inum_ok i \<Longrightarrow> meta_sector (inode_sector i s)"
proof -
  assume a: "mounted s" "inum_ok i"
  then have "(i - 1) div 8 < 512" by (auto simp: inum_ok_def)
  then show "meta_sector (inode_sector i s)"
    unfolding meta_sector_def unat_inode_sector [OF a] by linarith
qed

lemma read_inode_eq:
  "inum_ok i \<Longrightarrow> read_inode B i s =
     Some (bytes_inode (slice (64 * nat ((i - 1) mod 8)) 64 (rd_sector B (inode_sector i s) s)))"
  by (simp add: read_inode_def inode_slot_ok)

lemma write_inode_eq:
  "inum_ok i \<Longrightarrow> write_inode B i n s = Some (wr_sector B (inode_sector i s)
     (splice_at (64 * nat ((i - 1) mod 8)) (inode_bytes n) (rd_sector B (inode_sector i s) s)) s)"
  by (simp add: write_inode_def inode_slot_ok Let_def)

lemma slot_bound: "64 * nat ((i - 1) mod 8) + 64 \<le> 512"
proof -
  have "nat ((i - 1) mod 8) < 8" by simp
  then show ?thesis by linarith
qed

lemma read_write_inode_other:
  assumes "sd_card_ok B" "mounted s" "inum_ok i" "inum_ok j" "wf_inode n" "i \<noteq> j" "write_inode B i n s = Some s'"
  shows "read_inode B j s' = read_inode B j s"
proof -
  let ?k = "inode_sector i s" and ?o = "\<lambda>i. 64 * nat ((i - 1) mod 8)"
  have s': "s' = wr_sector B ?k (splice_at (?o i) (inode_bytes n) (rd_sector B ?k s)) s"
    using assms(3,7) by (simp add: write_inode_eq)
  have ks: "inode_sector j s' = inode_sector j s" by (simp add: s' inode_sector_def)
  have len: "length (splice_at (?o i) (inode_bytes n) (rd_sector B ?k s)) = 512"
    using slot_bound [of i] assms(1,5) by (simp add: length_inode_bytes)
  show ?thesis
  proof (cases "inode_sector j s = ?k")
    case True
    then have "(i - 1) div 8 = (j - 1) div 8"
      using unat_inode_sector [OF assms(2,3)] unat_inode_sector [OF assms(2,4)] assms(3,4)
      by (auto simp: inum_ok_def)
    then have "(i - 1) mod 8 \<noteq> (j - 1) mod 8" using assms(6) by (metis diff_add_cancel div_mult_mod_eq)
    then have ne: "nat ((i - 1) mod 8) \<noteq> nat ((j - 1) mod 8)" by (simp add: nat_eq_iff)
    then have "?o j + 64 \<le> ?o i \<or> ?o i + 64 \<le> ?o j" by linarith
    then show ?thesis
      using True slot_bound [of i] slot_bound [of j] assms(1,4,5) len
      by (simp add: read_inode_eq ks) (simp add: s' rd_wr_sector slice_splice_other length_inode_bytes)
  next
    case False
    then show ?thesis using assms(1,4) len by (simp add: read_inode_eq ks) (simp add: s' rd_wr_sector)
  qed
qed

lemma read_write_inode_same:
  assumes "sd_card_ok B" "inum_ok i" "wf_inode n" "write_inode B i n s = Some s'"
  shows "read_inode B i s' = Some n"
proof -
  let ?k = "inode_sector i s" and ?o = "64 * nat ((i - 1) mod 8)"
  have s': "s' = wr_sector B ?k (splice_at ?o (inode_bytes n) (rd_sector B ?k s)) s"
    using assms(2,4) by (simp add: write_inode_eq)
  have ks: "inode_sector i s' = ?k" by (simp add: s' inode_sector_def)
  have "slice ?o 64 (splice_at ?o (inode_bytes n) (rd_sector B ?k s)) = inode_bytes n"
    using slice_splice_same [of ?o "inode_bytes n" "rd_sector B ?k s"] slot_bound [of i] assms(1,3)
    by (simp add: length_inode_bytes)
  then show ?thesis using assms slot_bound [of i]
    by (simp add: read_inode_eq ks) (simp add: s' rd_wr_sector length_inode_bytes bytes_inode_bytes)
qed

lemma write_inode_block_bytes:
  assumes "sd_card_ok B" "mounted s" "inum_ok i" "wf_inode n" "data_block b" "write_inode B i n s = Some s'"
  shows "block_bytes B b s' = block_bytes B b s"
proof -
  have "s' = wr_sector B (inode_sector i s)
     (splice_at (64 * nat ((i - 1) mod 8)) (inode_bytes n) (rd_sector B (inode_sector i s) s)) s"
    using assms(3,6) by (simp add: write_inode_eq)
  then show ?thesis
    using block_bytes_wr_meta [OF assms(1,2,5) inode_meta_sector [OF assms(2,3)]] slot_bound [of i] assms(1,4)
    by (simp add: length_inode_bytes)
qed

text \<open>
  C32: Inodes survive being written to disk. On a mounted file system, writing inode \<open>i\<close> makes
  \<^verbatim>\<open>read_inode\<close> return exactly what was written, leaves every other inode of the table as it was
  (also the seven that share its sector) and touches no data block.
\<close>

theorem inode_write_read:
  assumes "sd_card_ok B" "mounted s" "inum_ok i" "wf_inode n"
  shows "\<exists>s'. write_inode B i n s = Some s' \<and> read_inode B i s' = Some n \<and>
    (\<forall>j. inum_ok j \<and> j \<noteq> i \<longrightarrow> read_inode B j s' = read_inode B j s) \<and>
    (\<forall>b. data_block b \<longrightarrow> block_bytes B b s' = block_bytes B b s)"
proof -
  obtain s' where s': "write_inode B i n s = Some s'" using write_inode_eq [OF assms(3)] by blast
  then show ?thesis
    using read_write_inode_same [OF assms(1,3,4) s'] read_write_inode_other [OF assms(1,2,3) _ assms(4) _ s']
      write_inode_block_bytes [OF assms(1,2,3,4) _ s'] by metis
qed

section \<open>A freshly mounted, blank file system\<close>

definition fs_boot :: "'d \<Rightarrow> 'd fsys" where
  "fs_boot d = kernel.extend (kernel_boot 2 d)
     (fsys.fields mkfs_superblock (replicate 16 zero_fdesc) (replicate 4096 0) [])"

lemma fs_boot_fields [simp]:
  "sd (fs_boot d) = d" "superblock (fs_boot d) = mkfs_superblock" "block_buf (fs_boot d) = replicate 4096 0"
  "fdesc_array (fs_boot d) = replicate 16 zero_fdesc" "console (fs_boot d) = []"
  by (simp_all add: fs_boot_def kernel_boot_def mm_boot_def kernel.defs fsys.defs)

lemma mounted_fs_boot [simp]: "mounted (fs_boot d)"
  by (simp add: mounted_def NUM_FDESCS_def)

lemma pad512_Nil: "pad512 [] = replicate 512 0"
  by (simp add: pad512_def)

lemma rd_sector_blank: "rd_sector ram_card k (fs_boot (\<lambda>_. [])) = replicate 512 0"
  by (simp add: rd_sector_sector sector_ram_card pad512_Nil)

lemma wf_zero_inode [simp]: "wf_inode zero_inode"
  by (simp add: wf_inode_def zero_inode_def NDIRECT_BLOCKS_def)

theorem inode_write_read_witness:
  "\<exists>s'. write_inode ram_card 9 zero_inode (fs_boot (\<lambda>_. [])) = Some s' \<and> read_inode ram_card 9 s' = Some zero_inode"
  using inode_write_read [of ram_card "fs_boot (\<lambda>_. [])" 9 zero_inode] by (auto simp: inum_ok_def)

end
