(* ===== verification/Process_Laws.thy ===== *)
theory Process_Laws
  imports Process FS_Laws
begin

text \<open>
  Properties of process creation and termination: byte-wise memory, the argument strings of a new
  process, the failure paths of \<^verbatim>\<open>do_exec\<close>, and the exit of a thread.
\<close>

section \<open>Byte-wise memory\<close>

lemma byte_of_cell:
  fixes m :: u64 and v :: u8
  assumes "i < 8" "j < 8"
  shows "(ucast (drop_bit (8 * i) ((m AND NOT (push_bit (8 * j) 0xff)) OR push_bit (8 * j) (ucast v))) :: u8)
    = (if i = j then v else ucast (drop_bit (8 * i) m))"
proof (rule bit_eqI)
  fix n assume "possible_bit TYPE(u8) n"
  then have n: "n < 8" by simp
  have ff: "(0xff::u64) = mask 8" by (simp add: mask_eq_decr_exp)
  have "8 * i + n < 64" using assms n by simp
  moreover have "i \<noteq> j \<Longrightarrow> \<not> (8 * j \<le> 8 * i + n \<and> 8 * i + n - 8 * j < 8)" using n by auto
  ultimately show "bit (ucast (drop_bit (8 * i) ((m AND NOT (push_bit (8 * j) 0xff)) OR push_bit (8 * j) (ucast v))) :: u8) n
    = bit (if i = j then v else ucast (drop_bit (8 * i) m)) n"
    unfolding ff using n
    by (auto simp: bit_ucast_iff bit_drop_bit_eq bit_or_iff bit_and_iff bit_not_iff bit_push_bit_iff bit_mask_iff
        dest: bit_imp_le_length)
qed

lemma addr_split: "a = b \<longleftrightarrow> a AND NOT (mask 3) = b AND NOT (mask 3) \<and> a AND mask 3 = b AND (mask 3 :: u64)"
  by (auto simp: bit_eq_iff bit_and_iff bit_not_iff)

lemma low3_less: "unat (a AND mask 3 :: u64) < 8"
proof -
  have "a AND mask 3 \<le> (mask 3 :: u64)" by (rule word_and_le1)
  then have "unat (a AND mask 3) \<le> unat (mask 3 :: u64)" by (simp add: word_le_nat_alt)
  then show ?thesis by (simp add: mask_eq_decr_exp)
qed

lemma load_store_byte: "load_byte b (store_byte a v s) = (if a = b then v else load_byte b s)"
proof (cases "a AND NOT (mask 3) = b AND NOT (mask 3)")
  case True
  have "a = b \<longleftrightarrow> unat (b AND mask 3) = unat (a AND mask 3)"
    using addr_split [of a b] True by (auto simp: word_unat_eq_iff)
  then show ?thesis using True byte_of_cell [OF low3_less [of b] low3_less [of a]]
    by (simp add: load_byte_def store_byte_def store_def Let_def)
next
  case False
  then show ?thesis by (auto simp: load_byte_def store_byte_def store_def Let_def)
qed

lemma load_write_bytes:
  assumes "length bs \<le> 2 ^ 64"
  shows "load_byte b (write_bytes a bs s) = (if unat (b - a) < length bs then bs ! unat (b - a) else load_byte b s)"
  using assms
proof (induction bs arbitrary: a s)
  case Nil
  then show ?case by simp
next
  case (Cons x bs)
  have IH: "load_byte b (write_bytes a (x # bs) s) =
      (if unat (b - (a + 1)) < length bs then bs ! unat (b - (a + 1)) else load_byte b (store_byte a x s))"
    using Cons by simp
  show ?case
  proof (cases "a = b")
    case True
    then have "b - (a + 1) = - 1" by simp
    then have "unat (b - (a + 1)) = unat (- 1 :: u64)" by (simp only:)
    also have "\<dots> = 2 ^ 64 - 1" by (simp add: unsigned_minus_1_eq_mask mask_eq_exp_minus_1)
    finally have "unat (b - (a + 1)) = 2 ^ 64 - 1" .
    then show ?thesis using IH True Cons.prems by (simp add: load_store_byte)
  next
    case False
    then have "b - a \<noteq> 0" by simp
    then have "unat (b - a - 1) = unat (b - a) - 1" "0 < unat (b - a)" by (simp_all add: unat_minus_one unat_gt_0)
    moreover have "b - a - 1 = b - (a + 1)" by simp
    ultimately have "unat (b - a) = Suc (unat (b - (a + 1)))" by simp
    then show ?thesis using IH False by (simp add: load_store_byte)
  qed
qed

section \<open>Failure of exec\<close>

text \<open>
  A failing \<^verbatim>\<open>do_exec\<close> changes nothing. If all 16 process control blocks are in use, or if no
  entry of the task table has the given name, \<^verbatim>\<open>do_exec\<close> returns 0 and leaves the kernel state as it was.
\<close>

theorem do_exec_failure:
  assumes "find_unused_pcb s = None \<or> find_task_entry name (tasks s) [0..<NUM_MAX_TASK] = Some None"
  shows "do_exec B name argc argv s = Some (0, s)"
  using assms by (auto simp: do_exec_def create_pcb_def split: option.splits)

section \<open>Exit of a thread\<close>

text \<open>Waking processes leaves the running ones, the page table and the thread counts alone.\<close>

definition same_running :: "('d, 'a) kernel_scheme \<Rightarrow> ('d, 'a) kernel_scheme \<Rightarrow> bool" where
  "same_running s t \<longleftrightarrow> current_running t = current_running s \<and> runnings t = runnings s \<and> satp t = satp s \<and>
     threads t = threads s \<and> (\<forall>r. pid (pcb t r) = pid (pcb s r))"

lemma same_running_trans: "same_running s t \<Longrightarrow> same_running t u \<Longrightarrow> same_running s u"
  by (simp add: same_running_def)

lemma do_unblock_running: "do_unblock n s = Some s' \<Longrightarrow> same_running s s'"
  by (cases n) (auto simp: do_unblock_def upd_pcb_def Let_def same_running_def)

lemma unblock_all_running: "unblock_all q s = Some s' \<Longrightarrow> same_running s s'"
  unfolding unblock_all_def
  by (erule list_drain_keeps) (auto simp: same_running_def dest!: do_unblock_running)

lemma mutex_release_running: "do_mutex_lock_release i s = Some s' \<Longrightarrow> same_running s s'"
  by (auto simp: do_mutex_lock_release_def Let_def split: bind_splits if_splits node.splits
      dest!: do_unblock_running) (auto simp: same_running_def)

lemma release_locks_running: "foldM (release_lock_of p) is s = Some s' \<Longrightarrow> same_running s s'"
proof (induction "is" arbitrary: s)
  case Nil
  then show ?case by (simp add: same_running_def)
next
  case (Cons i js)
  then obtain t where t: "release_lock_of p i s = Some t" "foldM (release_lock_of p) js t = Some s'"
    by (auto split: bind_splits)
  then have "same_running s t"
    by (auto simp: release_lock_of_def same_running_def split: if_splits dest!: mutex_release_running)
  then show ?case using Cons.IH [OF t(2)] same_running_trans by blast
qed

lemma release_pcb_running:
  assumes "release_pcb p s = Some s'"
  shows "current_running s' = current_running s" "runnings s' = runnings s" "satp s' = satp s"
    "\<forall>r. pid (pcb s' r) = pid (pcb s r)"
    "nat (pid (pcb s p)) < length (threads s)" "threads s' = (threads s)[nat (pid (pcb s p)) := threads s ! nat (pid (pcb s p)) - 1]"
proof -
  obtain v s2 s4 where s2: "add_threads (pid (pcb s p)) (- 1) (upd_pcb p (\<lambda>q. q\<lparr>status := TASK_EXITED\<rparr>) s) = Some (v, s2)"
    "foldM (release_lock_of p) [0..<LOCK_NUM] (s2\<lparr>lnk := list_delete_entry (Pcb_list p) (lnk s2)\<rparr>) = Some s4"
    "unblock_all (Wait_list p) s4 = Some s'"
    using assms by (auto simp: release_pcb_def upd_pcb_def Let_def split: bind_splits)
  have "same_running (s2\<lparr>lnk := list_delete_entry (Pcb_list p) (lnk s2)\<rparr>) s'"
    using same_running_trans [OF release_locks_running [OF s2(2)] unblock_all_running [OF s2(3)]] .
  then show "current_running s' = current_running s" "runnings s' = runnings s" "satp s' = satp s"
    "\<forall>r. pid (pcb s' r) = pid (pcb s r)"
    "nat (pid (pcb s p)) < length (threads s)" "threads s' = (threads s)[nat (pid (pcb s p)) := threads s ! nat (pid (pcb s p)) - 1]"
    using s2(1) by (auto simp: same_running_def add_threads_def upd_pcb_def Let_def split: if_splits)
qed

lemma kfree_more: "mm_state.more (kfree a s) = mm_state.more s"
  by (simp add: kfree_def store_def)

lemma drop_page_more: "mm_state.more (drop_page i s) = mm_state.more s"
  by (simp add: drop_page_def reset_page_info_def Let_def kfree_more)

lemma free_page_more: "free_page_with_kva k s = Some s' \<Longrightarrow> mm_state.more s' = mm_state.more s"
  by (auto simp: free_page_with_kva_def drop_page_more Let_def split: bind_splits option.splits)

text \<open>
  A thread that exits keeps the processor. While other threads of its process exist, \<^verbatim>\<open>do_exit\<close>
  neither chooses a next process nor switches the page table: afterwards the exited thread, whose
  process control block now counts as unused, is still the running process of its hart, so the
  context switch that follows returns to it.
\<close>

theorem thread_exit_keeps_processor:
  fixes s :: "('d, 'a) kernel_scheme"
  assumes "do_exit B s = Some s'" "threads s ! nat (pid (pcb s (current_running s))) \<noteq> 1"
  shows "current_running s' = current_running s \<and> runnings s' = runnings s \<and> satp s' = satp s \<and>
    pid (pcb s' (current_running s)) = 0"
proof -
  let ?p = "current_running s" and ?i = "nat (pid (pcb s (current_running s)))"
  obtain s1 where rel: "release_pcb ?p s = Some s1" using assms(1) by (cases "release_pcb ?p s") (auto simp: do_exit_def Let_def)
  obtain v u where th: "add_threads (pid (pcb s1 ?p)) 0 s1 = Some (v, u)"
    using assms(1) rel by (cases "add_threads (pid (pcb s1 ?p)) 0 s1") (auto simp: do_exit_def Let_def)
  note r = release_pcb_running [OF rel]
  have v: "v = threads s ! ?i - 1" using th r by (auto simp: add_threads_def Let_def split: if_splits)
  then obtain s2 where fp: "free_page_with_kva (user_sp (pcb s1 ?p) - PAGE_SIZE) s1 = Some s2"
    and s': "s' = upd_pcb ?p (\<lambda>q. q\<lparr>pid := 0\<rparr>) s2"
    using assms rel th by (cases "free_page_with_kva (user_sp (pcb s1 ?p) - PAGE_SIZE) s1") (auto simp: do_exit_def Let_def)
  have "mm_state.more s2 = mm_state.more s1" using fp by (rule free_page_more)
  then show ?thesis using more_kernel [of s2 s1] r s' by (simp add: upd_pcb_def)
qed

section \<open>Instances\<close>

theorem do_exec_failure_witness:
  "do_exec ram_card [0x61, 0] 0 [] (kernel_boot 16 (\<lambda>_. [])) = Some (0, kernel_boot 16 (\<lambda>_. []))"
proof (rule do_exec_failure)
  have "\<forall>p\<in>set (all_pcbs (kernel_boot 16 (\<lambda>_. []) :: (u32 \<Rightarrow> u8 list) kernel)). pid p \<noteq> 0"
    by (auto simp: all_pcbs_def kernel_boot_def NUM_MAX_TASK_def)
  then show "find_unused_pcb (kernel_boot 16 (\<lambda>_. []) :: (u32 \<Rightarrow> u8 list) kernel) = None \<or>
      find_task_entry [0x61, 0] (tasks (kernel_boot 16 (\<lambda>_. []) :: (u32 \<Rightarrow> u8 list) kernel)) [0..<NUM_MAX_TASK] = Some None"
    by (simp add: find_unused_pcb_def find_index_None_iff)
qed

text \<open>Two threads of process 1; the first one runs and owns the present page 0 as its stack.\<close>

definition two_threads :: "(u32 \<Rightarrow> u8 list) kernel" where
  "two_threads = (kernel_boot 2 (\<lambda>_. []))\<lparr>
     threads := [0, 2], mlocks := replicate 16 \<lparr>mlock = UNLOCKED, mkey = 0, mpid = 0\<rparr>,
     pcb := (\<lambda>_. pcb0\<lparr>pid := 1, user_sp := 0xffffffc052002000\<rparr>),
     pages := [\<lparr>pg_uva = 0, pg_kva = 0xffffffc052001000, pg_pgdir = 0, pg_id = 1, pg_sector = 0\<rparr>],
     lnk := list_add_tail (Page_list 0) Present_pages_queue
              (list_add_tail (Pcb_list (Pcb 0)) Ready_queue \<lparr>nxt = id, prv = id\<rparr>)\<rparr>"

lemma release_no_locks:
  assumes "\<forall>i\<in>set is. i < length (mlocks s) \<and> mpid (mlocks s ! i) \<noteq> pid (pcb s p)"
  shows "foldM (release_lock_of p) is s = Some s"
  using assms by (induction "is") (auto simp: release_lock_of_def)

lemma two_threads_exit: "\<exists>s'. do_exit ram_card two_threads = Some s'"
proof -
  let ?L = "list_delete_entry (Pcb_list (Pcb 0)) (lnk two_threads)"
  let ?s2 = "(upd_pcb (Pcb 0) (\<lambda>q. q\<lparr>status := TASK_EXITED\<rparr>) two_threads)\<lparr>threads := [0, 1], lnk := ?L\<rparr>"
  have cur: "current_running two_threads = Pcb 0" by (simp add: two_threads_def kernel_boot_def)
  have L: "nxt ?L (Wait_list (Pcb 0)) = Wait_list (Pcb 0)" "nxt ?L Present_pages_queue = Page_list 0"
    by (simp_all add: two_threads_def link_defs)
  have "foldM (release_lock_of (Pcb 0)) [0..<LOCK_NUM] ?s2 = Some ?s2"
    by (rule release_no_locks) (auto simp: two_threads_def upd_pcb_def LOCK_NUM_def)
  moreover have "unblock_all (Wait_list (Pcb 0)) ?s2 = Some ?s2"
    unfolding unblock_all_def using L(1) by (subst list_drain.simps) (simp add: is_queue_empty_def)
  ultimately have rel: "release_pcb (Pcb 0) two_threads = Some ?s2"
    by (simp add: release_pcb_def add_threads_def Let_def) (simp add: two_threads_def upd_pcb_def)
  have "find_page_with_kva 0xffffffc052001000 Present_pages_queue ?s2 = Some (Some 0)"
    unfolding find_page_with_kva_def using L(2)
    by (subst find_page_loop.simps) (simp add: two_threads_def upd_pcb_def)
  then have "\<exists>s'. free_page_with_kva 0xffffffc052001000 ?s2 = Some s'"
    by (simp add: free_page_with_kva_def Let_def)
  moreover have "user_sp (pcb ?s2 (Pcb 0)) - PAGE_SIZE = 0xffffffc052001000"
    by (simp add: two_threads_def upd_pcb_def PAGE_SIZE_def)
  moreover have "add_threads (pid (pcb ?s2 (Pcb 0))) 0 ?s2 = Some (1, ?s2\<lparr>threads := [0, 1]\<rparr>)"
    by (simp add: add_threads_def two_threads_def upd_pcb_def)
  ultimately show ?thesis using rel cur by (auto simp: do_exit_def Let_def)
qed

theorem thread_exit_keeps_processor_witness:
  "\<exists>s'. do_exit ram_card two_threads = Some s' \<and> current_running s' = Pcb 0 \<and> pid (pcb s' (Pcb 0)) = 0"
proof -
  obtain s' where s': "do_exit ram_card two_threads = Some s'" using two_threads_exit by blast
  have "current_running two_threads = Pcb 0" "threads two_threads ! nat (pid (pcb two_threads (current_running two_threads))) \<noteq> 1"
    by (simp_all add: two_threads_def kernel_boot_def)
  then show ?thesis using thread_exit_keeps_processor [OF s'] s' by simp
qed

end
