(* ===== verification/Exec_Args.thy ===== *)
theory Exec_Args
  imports Process_Laws
begin

text \<open>
  The stack of a new process: \<^verbatim>\<open>do_exec\<close> copies the argument strings to the top of the user stack and
  puts the array of pointers to them, terminated by 0, above the strings.
\<close>

section \<open>Cells and bytes\<close>

lemma cell_le: "unat (b AND NOT (mask 3) :: u64) \<le> unat b"
  using word_and_le2 [of b "NOT (mask 3)"] by (simp add: word_le_nat_alt and.commute)

lemma cell_near: "unat b < unat (b AND NOT (mask 3) :: u64) + 8"
proof -
  have "(b AND NOT (mask 3)) + (b AND mask 3) = ((b AND NOT (mask 3)) AND (b AND mask 3)) + ((b AND NOT (mask 3)) OR (b AND mask 3))"
    by (simp add: word_plus_and_or)
  moreover have "(b AND NOT (mask 3)) AND (b AND mask 3) = 0" "(b AND NOT (mask 3)) OR (b AND mask 3) = b"
    by (rule bit_eqI, auto simp: bit_and_iff bit_or_iff bit_not_iff)+
  ultimately have "b - (b AND NOT (mask 3)) = b AND mask 3" by (simp add: diff_eq_eq add.commute)
  moreover have "unat (b - (b AND NOT (mask 3))) = unat b - unat (b AND NOT (mask 3))"
    using cell_le [of b] by (simp add: unat_sub_if')
  ultimately show ?thesis using low3_less [of b] by simp
qed

lemma write_bytes_cell:
  assumes "unat a + length bs \<le> unat c"
  shows "mem (write_bytes a bs s) c = mem s c"
  using assms
proof (induction bs arbitrary: a s)
  case Nil
  then show ?case by simp
next
  case (Cons x bs)
  have lt: "unat a + Suc (length bs) < 2 ^ 64" using Cons.prems unat64_less [of c] by simp
  then have u: "unat (a + 1) = unat a + 1" by (simp add: unat_word_ariths)
  have "a AND NOT (mask 3) \<noteq> c" using cell_le [of a] Cons.prems by auto
  then have "mem (store_byte a x s) c = mem s c" by (simp add: store_byte_def store_def Let_def)
  then show ?case using Cons.IH [of "a + 1" "store_byte a x s"] Cons.prems u by simp
qed

lemma load_byte_store: "b AND NOT (mask 3) \<noteq> c \<Longrightarrow> load_byte b (store c v s) = load_byte b s"
  by (simp add: load_byte_def store_def)

lemma write_bytes_kernel [simp]:
  fixes s :: "('d, 'a) kernel_scheme"
  shows "pcb (write_bytes a bs s) = pcb s" "current_running (write_bytes a bs s) = current_running s"
  by (induction bs arbitrary: a s) (simp_all add: store_byte_def store_def Let_def)

section \<open>The argument block\<close>

definition arg_len :: "u8 list \<Rightarrow> nat" where
  "arg_len a = (case strlen a of Some n \<Rightarrow> n + 1 | None \<Rightarrow> 0)"

definition args_len :: "u8 list list \<Rightarrow> nat" where
  "args_len as = sum_list (map arg_len as)"

text \<open>
  The cells from \<open>ptr\<close> on hold pointers (user addresses) to the strings, which lie one below the
  other under \<open>kva\<close>, the kernel address of \<open>uva\<close>.
\<close>

fun args_at :: "u8 list list \<Rightarrow> u64 \<Rightarrow> u64 \<Rightarrow> u64 \<Rightarrow> ('d, 'a) kernel_scheme \<Rightarrow> bool" where
  "args_at [] ptr kva uva s \<longleftrightarrow> True"
| "args_at (a # as) ptr kva uva s \<longleftrightarrow>
     mem s ptr = uva - of_nat (arg_len a) \<and>
     (\<forall>k<arg_len a. load_byte (kva - of_nat (arg_len a) + of_nat k) s = a ! k) \<and>
     args_at as (ptr + 8) (kva - of_nat (arg_len a)) (uva - of_nat (arg_len a)) s"

text \<open>Nothing between \<open>kva\<close> and \<open>base\<close> has changed, and no cell from \<open>base\<close> on other than the given ones.\<close>

definition keeps_above :: "u64 \<Rightarrow> u64 \<Rightarrow> u64 set \<Rightarrow> ('d, 'a) kernel_scheme \<Rightarrow> ('d, 'a) kernel_scheme \<Rightarrow> bool" where
  "keeps_above kva base C s t \<longleftrightarrow>
     (\<forall>b. unat kva \<le> unat b \<and> unat b < unat base \<longrightarrow> load_byte b t = load_byte b s) \<and>
     (\<forall>c. unat base \<le> unat c \<and> c \<notin> C \<longrightarrow> mem t c = mem s c) \<and> pcb t = pcb s \<and> current_running t = current_running s"

lemma keeps_above_trans:
  "keeps_above kva base C s t \<Longrightarrow> keeps_above kva1 base D t u \<Longrightarrow> unat kva1 \<le> unat kva \<Longrightarrow> C \<subseteq> E \<Longrightarrow> D \<subseteq> E \<Longrightarrow>
   keeps_above kva base E s u"
  unfolding keeps_above_def by auto (metis subsetD)

lemma push_one:
  fixes s :: "('d, 'a) kernel_scheme" and v :: u64
  assumes n: "strlen a = Some n" and room: "arg_len a \<le> unat kva" and base: "unat kva \<le> unat base" "unat base \<le> unat ptr"
  defines "t \<equiv> write_bytes (kva - of_nat (n + 1)) (take (n + 1) a) (store ptr v s)"
  shows "keeps_above kva base {ptr} s t" "mem t ptr = v"
    "\<forall>k<arg_len a. load_byte (kva - of_nat (arg_len a) + of_nat k) t = a ! k"
proof -
  have len: "arg_len a = n + 1" "length (take (n + 1) a) = n + 1" using n strlen_SomeD [OF n] by (auto simp: arg_len_def)
  have kv: "unat (kva - of_nat (n + 1)) = unat kva - (n + 1)"
  proof -
    have u: "unat (of_nat (n + 1) :: u64) = n + 1" using room len unat64_less [of kva] by (subst unat_of_nat) simp
    show ?thesis using room len u by (simp add: unat_sub_if' del: of_nat_Suc of_nat_add)
  qed
  have small: "length (take (n + 1) a) \<le> 2 ^ 64" using len room unat64_less [of kva] by simp
  have cells: "mem t c = mem (store ptr v s) c" if "unat base \<le> unat c" for c
    unfolding t_def using that base kv len room by (intro write_bytes_cell) simp
  show "mem t ptr = v" using cells [OF base(2)] by (simp add: store_def)
  have bytes: "load_byte b t = load_byte b s" if "unat kva \<le> unat b" "unat b < unat base" for b
  proof -
    have "unat (b - (kva - of_nat (n + 1))) = unat b - (unat kva - (n + 1))"
      using that kv by (simp add: unat_sub_if' del: of_nat_Suc of_nat_add)
    then have "\<not> unat (b - (kva - of_nat (n + 1))) < length (take (n + 1) a)" using that room len by simp
    then have "load_byte b t = load_byte b (store ptr v s)" unfolding t_def load_write_bytes [OF small] by (rule if_not_P)
    moreover have "b AND NOT (mask 3) \<noteq> ptr" using cell_le [of b] that base by auto
    ultimately show ?thesis by (simp add: load_byte_store)
  qed
  show "keeps_above kva base {ptr} s t"
    unfolding keeps_above_def using bytes cells by (auto simp: store_def t_def)
  show "\<forall>k<arg_len a. load_byte (kva - of_nat (arg_len a) + of_nat k) t = a ! k"
  proof (intro allI impI)
    fix k assume k: "k < arg_len a"
    then have "unat (of_nat k :: u64) = k" using len room unat64_less [of kva] by (subst unat_of_nat) simp
    then have d: "unat (kva - of_nat (n + 1) + of_nat k - (kva - of_nat (n + 1)) :: u64) = k" by simp
    have "load_byte (kva - of_nat (n + 1) + of_nat k) t = take (n + 1) a ! k"
      unfolding t_def load_write_bytes [OF small] d using k len by simp
    then show "load_byte (kva - of_nat (arg_len a) + of_nat k) t = a ! k" using k len(1) by simp
  qed
qed

lemma args_at_cong:
  fixes s t :: "('d, 'a) kernel_scheme"
  assumes "args_len as \<le> unat kva" "unat kva \<le> unat base" "unat base \<le> unat ptr" "unat ptr + 8 * length as \<le> 2 ^ 64"
    and "\<And>b. unat kva - args_len as \<le> unat b \<Longrightarrow> unat b < unat kva \<Longrightarrow> load_byte b t = load_byte b s"
    and "\<And>c. unat ptr \<le> unat c \<Longrightarrow> unat c < unat ptr + 8 * length as \<Longrightarrow> mem t c = mem s c"
    and "args_at as ptr kva uva s"
  shows "args_at as ptr kva uva t"
  using assms
proof (induction as arbitrary: ptr kva uva)
  case Nil
  then show ?case by simp
next
  case (Cons a as)
  let ?l = "arg_len a"
  have tot: "args_len (a # as) = ?l + args_len as" by (simp add: args_len_def)
  have u: "unat (of_nat k :: u64) = k" if "k \<le> ?l" for k
    using that Cons.prems(1) tot unat64_less [of kva] by (subst unat_of_nat) simp
  have kv: "unat (kva - of_nat ?l) = unat kva - ?l" using Cons.prems(1) tot u [of ?l] by (simp add: unat_sub_if')
  have bk: "unat (kva - of_nat ?l + of_nat k) = unat kva - ?l + k" if "k < ?l" for k
    using that u [of k] kv Cons.prems(1) tot unat64_less [of kva] by (simp add: unat_word_ariths)
  have cell: "mem t ptr = mem s ptr" using Cons.prems(6) [of ptr] by simp
  have byte: "load_byte (kva - of_nat ?l + of_nat k) t = load_byte (kva - of_nat ?l + of_nat k) s" if "k < ?l" for k
    using bk [OF that] that Cons.prems(1) tot by (intro Cons.prems(5)) auto
  show ?case
  proof (cases as)
    case Nil
    then show ?thesis using Cons.prems(7) cell byte by simp
  next
    case (Cons a' as')
    then have p8: "unat (ptr + 8) = unat ptr + 8" using Cons.prems(4) by (simp add: unat_word_ariths)
    have "args_at as (ptr + 8) (kva - of_nat ?l) (uva - of_nat ?l) t"
      using Cons.prems tot kv p8 by (intro Cons.IH) auto
    then show ?thesis using Cons.prems(7) cell byte by simp
  qed
qed

lemma push_args_spec:
  fixes s :: "('d, 'a) kernel_scheme"
  assumes "\<forall>a\<in>set as. strlen a \<noteq> None" "args_len as \<le> unat kva" "unat kva \<le> unat base" "unat base \<le> unat ptr"
    "unat ptr + 8 * length as < 2 ^ 64"
  shows "\<exists>t. push_args as ptr kva uva s = Some (ptr + of_nat (8 * length as), uva - of_nat (args_len as), t) \<and>
    args_at as ptr kva uva t \<and> keeps_above kva base {c. unat ptr \<le> unat c \<and> unat c < unat ptr + 8 * length as} s t"
  using assms
proof (induction as arbitrary: ptr kva uva s)
  case Nil
  then show ?case by (simp add: args_len_def keeps_above_def)
next
  case (Cons a as)
  obtain n where n: "strlen a = Some n" using Cons.prems(1) by auto
  have l: "arg_len a = n + 1" using n by (simp add: arg_len_def)
  have tot: "args_len (a # as) = arg_len a + args_len as" by (simp add: args_len_def)
  let ?kva = "kva - of_nat (n + 1)" and ?uva = "uva - of_nat (n + 1)"
  define t1 where "t1 = write_bytes ?kva (take (n + 1) a) (store ptr ?uva s)"
  have room: "arg_len a \<le> unat kva" using Cons.prems(2) tot by simp
  note one = push_one [OF n room Cons.prems(3,4), where v = ?uva and s = s, folded t1_def]
  have u: "unat (of_nat (n + 1) :: u64) = n + 1" using room l unat64_less [of kva] by (subst unat_of_nat) simp
  have kv: "unat ?kva = unat kva - (n + 1)" using room l u by (simp add: unat_sub_if' del: of_nat_Suc of_nat_add)
  have p8: "unat (ptr + 8) = unat ptr + 8" using Cons.prems(5) by (simp add: unat_word_ariths)
  have pr: "\<forall>a\<in>set as. strlen a \<noteq> None" "args_len as \<le> unat ?kva" "unat ?kva \<le> unat base" "unat base \<le> unat (ptr + 8)"
    "unat (ptr + 8) + 8 * length as < 2 ^ 64"
    unfolding kv p8 using Cons.prems tot l by auto
  obtain t where t: "push_args as (ptr + 8) ?kva ?uva t1 =
      Some (ptr + 8 + of_nat (8 * length as), ?uva - of_nat (args_len as), t)"
    "args_at as (ptr + 8) ?kva ?uva t"
    "keeps_above ?kva base {c. unat (ptr + 8) \<le> unat c \<and> unat c < unat (ptr + 8) + 8 * length as} t1 t"
    using Cons.IH [OF pr, of ?uva t1] by blast
  have push: "push_args (a # as) ptr kva uva s =
      Some (ptr + of_nat (8 * length (a # as)), uva - of_nat (args_len (a # as)), t)"
    using t(1) n tot l by (simp add: t1_def Let_def algebra_simps)
  have ka: "keeps_above kva base {c. unat ptr \<le> unat c \<and> unat c < unat ptr + 8 * length (a # as)} s t"
    by (rule keeps_above_trans [OF one(1) t(3)]) (use kv p8 in auto)
  have "mem t ptr = ?uva"
    using t(3) one(2) p8 Cons.prems(4) by (auto simp: keeps_above_def)
  moreover have "load_byte (kva - of_nat (arg_len a) + of_nat k) t = a ! k" if k: "k < arg_len a" for k
  proof -
    have uk: "unat (of_nat k :: u64) = k" using k room unat64_less [of kva] by (subst unat_of_nat) simp
    have b: "unat (?kva + of_nat k) = unat kva - (n + 1) + k"
      using uk kv k room l unat64_less [of kva] by (simp add: unat_word_ariths del: of_nat_Suc of_nat_add)
    then have "unat ?kva \<le> unat (?kva + of_nat k)" "unat (?kva + of_nat k) < unat base"
      using k l room kv Cons.prems(3) by linarith+
    then have "load_byte (?kva + of_nat k) t = load_byte (?kva + of_nat k) t1"
      using t(3) unfolding keeps_above_def by blast
    then show ?thesis using one(3) k unfolding l by simp
  qed
  ultimately show ?case using push ka t(2) unfolding args_at.simps l by blast
qed

section \<open>Starting a process with arguments\<close>

definition trap_cells :: "u64 \<Rightarrow> u64 set" where
  "trap_cells tf = {pt_reg tf 2, pt_reg tf 10, pt_reg tf 11}"

text \<open>
  C17: \<^verbatim>\<open>do_exec\<close> hands its arguments to the new process. If the process is created with a user stack that
  ends at \<open>U\<close>, the arguments with their pointer array fit below \<open>U\<close>, and the saved registers are not
  in that part of the stack, then afterwards the array below \<open>U\<close> holds the user addresses of all
  argument strings and a final 0, the strings with their terminators are at these addresses, and the
  saved registers of the process hold \<^verbatim>\<open>argc\<close>, the user address of the array and a stack pointer
  rounded down to 128 bytes.
\<close>

theorem do_exec_passes_arguments:
  fixes s s1 :: "('d, 'a) kernel_scheme"
  assumes c: "create_pcb B name s = Some (Some p, s1)" and argc: "argc = int (length argv)"
    and ok: "\<forall>a\<in>set argv. strlen a \<noteq> None"
    and U: "U = user_sp (pcb s1 p)" and base: "base = U - of_nat (8 * (length argv + 1))"
    and fit: "args_len argv + 8 * (length argv + 1) \<le> unat U"
    and tf: "tf = kernel_sp (pcb s1 p)"
    and apart: "\<forall>r\<in>trap_cells tf. unat r + 8 \<le> unat base - args_len argv \<or> unat U \<le> unat r"
      "pt_reg tf 2 \<noteq> pt_reg tf 10" "pt_reg tf 2 \<noteq> pt_reg tf 11" "pt_reg tf 10 \<noteq> pt_reg tf 11"
  shows "\<exists>s'. do_exec B name argc argv s = Some (pid (pcb s1 p), s') \<and>
    args_at argv base base (USER_VA_SP - of_nat (8 * (length argv + 1))) s' \<and>
    mem s' (base + of_nat (8 * length argv)) = 0 \<and> mem s' (pt_reg tf 10) = of_int argc \<and>
    mem s' (pt_reg tf 11) = USER_VA_SP - of_nat (8 * (length argv + 1)) \<and>
    mem s' (pt_reg tf 2) = (USER_VA_SP - of_nat (8 * (length argv + 1)) - of_nat (args_len argv)) AND NOT (mask 7)"
proof -
  let ?n = "length argv" and ?N = "8 * (length argv + 1)"
  let ?uva = "USER_VA_SP - of_nat ?N"
  have N: "of_int (argc + 1) * 8 = (of_nat ?N :: u64)" by (simp add: argc)
  have uN: "unat (of_nat ?N :: u64) = ?N" using fit unat64_less [of U] by (subst unat_of_nat) simp
  have ub: "unat base = unat U - ?N" unfolding base using fit uN by (simp add: unat_sub_if' del: of_nat_mult of_nat_Suc of_nat_add)
  have lim: "unat base + ?N = unat U" using ub fit by simp
  have "unat base + 8 * ?n < unat U" using lim by simp
  then have pr: "args_len argv \<le> unat base" "unat base + 8 * ?n < 2 ^ 64"
    using lim fit less_trans [OF _ unat64_less [of U]] by auto
  obtain t where t: "push_args argv base base ?uva s1 = Some (base + of_nat (8 * ?n), ?uva - of_nat (args_len argv), t)"
    "args_at argv base base ?uva t" "keeps_above base base {c. unat base \<le> unat c \<and> unat c < unat base + 8 * ?n} s1 t"
    using push_args_spec [OF ok pr(1) order_refl order_refl pr(2), of ?uva s1] by blast
  let ?z = "base + of_nat (8 * ?n)"
  have u8: "unat (of_nat (8 * ?n) :: u64) = 8 * ?n" using fit unat64_less [of U] by (subst unat_of_nat) simp
  have uz: "unat ?z = unat base + 8 * ?n" using u8 lim unat64_less [of U] by (simp add: unat_word_ariths)
  define s' where "s' = upd_pcb p (\<lambda>q. q\<lparr>cwd_inum := cwd_inum (pcb s1 (current_running s1))\<rparr>)
    (store (pt_reg tf 11) ?uva (store (pt_reg tf 10) (of_int argc)
      (store (pt_reg tf 2) ((?uva - of_nat (args_len argv)) AND NOT (mask 7)) (store ?z 0 t))))"
  have pc: "pcb t = pcb s1" "current_running t = current_running s1" using t(3) by (simp_all add: keeps_above_def)
  have b': "U - of_nat (8 + 8 * ?n) = base" by (simp add: base)
  have ex: "do_exec B name argc argv s = Some (pid (pcb s1 p), s')"
    using c argc N t(1) pc b' by (simp add: do_exec_def U [symmetric] tf [symmetric] s'_def store_def upd_pcb_def Let_def
        del: of_nat_mult of_nat_Suc of_nat_add of_int_add)
  have m: "mem s' x = mem t x" if "x \<notin> trap_cells tf" "x \<noteq> ?z" for x
    using that by (simp add: s'_def upd_pcb_def store_def trap_cells_def)
  have out: "x \<notin> trap_cells tf" if "unat base - args_len argv < unat x + 8" "unat x < unat U" for x
    using apart(1) that by (auto simp: trap_cells_def)
  have "args_at argv base base ?uva s'"
  proof (rule args_at_cong [where base = base, OF _ _ _ _ _ _ t(2)])
    show "load_byte b s' = load_byte b t" if "unat base - args_len argv \<le> unat b" "unat b < unat base" for b
    proof -
      have "mem s' (b AND NOT (mask 3)) = mem t (b AND NOT (mask 3))"
        using that cell_le [of b] cell_near [of b] uz lim by (intro m out) auto
      then show ?thesis by (simp add: load_byte_def)
    qed
    show "mem s' x = mem t x" if "unat base \<le> unat x" "unat x < unat base + 8 * ?n" for x
      using that uz lim by (intro m out) auto
  qed (use fit ub lim unat64_less [of U] in auto)
  moreover have "?z \<notin> trap_cells tf" using uz lim by (intro out) auto
  ultimately show ?thesis using ex apart(2-4)
    by (intro exI [of _ s']) (auto simp: s'_def upd_pcb_def store_def trap_cells_def)
qed

section \<open>A process is created\<close>

lemma pages_rep_le:
  assumes "pages_rep s A n" "p \<in> A"
  shows "p \<le> FREEMEM_KERNEL_STOP"
proof -
  obtain fl where fl: "alloc_inv s fl A" "unat (last fl) + 4096 * n \<le> unat FREEMEM_KERNEL_STOP"
    using assms(1) by (auto simp: pages_rep_def)
  then have "p \<le> last fl" using assms(2) by (auto simp: alloc_inv_def)
  then show ?thesis using fl(2) by (simp add: word_le_nat_alt)
qed

text \<open>The contexts and stacks of a new process are pages that were not in use.\<close>

lemma setup_context_spec:
  fixes s :: "('d, 'a) kernel_scheme"
  assumes inv: "page_inv H Q P W s" and slots: "length P + length W < MAX_PFN" "length P < 512"
    and rep: "pages_rep s A (Suc (Suc (Suc (Suc n))))" and wf: "\<And>m'. (\<forall>q\<in>A. \<forall>a. page_no a = page_no q \<longrightarrow> m' a = mem s a) \<Longrightarrow> pt_wf m' A (pgdir (pcb s p))"
  shows "\<exists>kp up s'. setup_context B p USER_VA_SP_BASE sp arg sepc s = Some s' \<and>
    kernel_sp (pcb s' p) = kp + PAGE_SIZE - 288 \<and> user_sp (pcb s' p) = up + PAGE_SIZE \<and> pid (pcb s' p) = pid (pcb s p) \<and> kp \<notin> A \<and> up \<notin> insert kp A \<and>
    page_aligned kp \<and> page_aligned up \<and> FREEMEM_KERNEL \<le> kp \<and> FREEMEM_KERNEL \<le> up \<and>
    kp \<le> FREEMEM_KERNEL_STOP \<and> up \<le> FREEMEM_KERNEL_STOP"
proof -
  let ?r = "pgdir (pcb s p)" and ?u = USER_VA_SP_BASE
  obtain kp s1 where k: "kalloc s = (kp, s1)" by fastforce
  note c = kalloc_correct [OF rep k]
  have sr: "same_rest s s1" using same_rest_kalloc [of s] k by simp
  have inv1: "page_inv H Q P W s1" using inv sr by (simp add: page_inv_def same_rest_def)
  have pc: "pcb s1 = pcb s" using more_kernel [of s1 s] sr by (simp add: same_rest_def)
  have rep1: "pages_rep s1 (insert kp A) (Suc (Suc (Suc n)))" using c by simp
  have wf1: "pt_wf (mem s1) (insert kp A) ?r" using wf [of "mem s1"] c by (auto simp: pt_wf_def)
  have u: "vpn2_of ?u < 256" "?u AND mask 12 = 0" by (simp_all add: vpn2_of_def VA_MASK_def USER_VA_SP_BASE_def mask_eq_exp_minus_1)
  obtain i up s2 A' where a: "alloc_page_helper B ?u ?r s1 = Some (up, s2)" "up \<notin> insert kp A" "page_aligned up" "FREEMEM_KERNEL \<le> up"
    "insert up (insert kp A) \<subseteq> A'" "pages_rep s2 A' n" "pt_wf (mem s2) A' ?r" "mm_state.more s2 = mm_state.more s1"
    "leaf_of (mem s2) ?r ?u = user_entry up"
    using alloc_page_helper_spec [OF inv1 slots rep1 wf1 u(1), of B] u(1) vpn_bounds [of ?u] unfolding leaf_of_def by auto
  have "get_kva_of_uva ?u ?r s2 = up"
    using get_kva_leaf [OF a(6,7) u(1)] a(9) user_entry_pa(1) [OF a(3,4)] user_entry_pa(2) [OF a(3,4), of ?u] u(2) by simp
  then have pte: "get_pte_of_uva ?u ?r s2 \<noteq> 0"
    using a(4) freemem_nonzero by (auto simp: get_kva_of_uva_def Let_def)
  have pc2: "pcb s2 = pcb s" using more_kernel [OF a(8)] pc by simp
  have st: "pcb (store a v t) = pcb t" for a v and t :: "('d, 'a) kernel_scheme" by (simp add: store_def)
  have bd: "kp \<le> FREEMEM_KERNEL_STOP" "up \<le> FREEMEM_KERNEL_STOP" using a(5) pages_rep_le [OF a(6)] by auto
  obtain s' where "setup_context B p ?u sp arg sepc s = Some s'" "kernel_sp (pcb s' p) = kp + PAGE_SIZE - 288" "user_sp (pcb s' p) = up + PAGE_SIZE"
      "pid (pcb s' p) = pid (pcb s p)"
    using a(1) pte st by (cases arg) (auto simp: setup_context_def k pc pc2 upd_pcb_def Let_def)
  then show ?thesis using c a bd by blast
qed

text \<open>After boot with one process, and one program in the table, whose image is empty.\<close>

abbreviation empty_card :: "u32 \<Rightarrow> u8 list" where
  "empty_card \<equiv> \<lambda>_. []"

definition fly_name :: "u8 list" where
  "fly_name = [0x66, 0x6c, 0x79] @ replicate 13 0"

definition exec_state :: "(u32 \<Rightarrow> u8 list) kernel" where
  "exec_state = (kernel_boot 1 empty_card)\<lparr>
     tasks := [\<lparr>tname = fly_name, sectors_num = 0, filesz = 0, memsz = 0\<rparr>], tasks_num := 1\<rparr>"

lemma mem_kalloc_zero: "mem s = (\<lambda>_. 0) \<Longrightarrow> mem (snd (kalloc s)) = (\<lambda>_. 0)"
  by (auto simp: kalloc_def Let_def store_def zero_page_def)

lemma share_pgtable_zero: "mem s = (\<lambda>_. 0) \<Longrightarrow> share_pgtable r q s = s"
proof -
  assume m: "mem s = (\<lambda>_. 0)"
  have "fold (\<lambda>i s. if mem s (entry q i) \<noteq> 0 then store (entry r i) (mem s (entry q i)) s else s) is s = s" for "is"
    by (induction "is") (simp_all add: m)
  then show ?thesis by (simp add: share_pgtable_def)
qed

text \<open>The process table, the thread count and the ready queue of the new process.\<close>

definition exec_enlisted :: "(u32 \<Rightarrow> u8 list) kernel" where
  "exec_enlisted = the (enlist_pcb (Pcb 1) fly_name 2 1
     (exec_state\<lparr>process_id := 3, threads := (threads exec_state)[2 := 1]\<rparr>))"

lemma fly_name_simps [simp]: "strcmp fly_name fly_name = Some 0" "\<exists>n. strcpy (replicate 16 0) fly_name = Some n"
  by (simp_all add: fly_name_def numeral_eq_Suc)

lemma exec_enlisted:
  "find_unused_pcb exec_state = Some (Pcb 1)"
  "find_task_entry fly_name (tasks exec_state) [0..<NUM_MAX_TASK] = Some (Some 0)"
  "add_threads 2 1 (exec_state\<lparr>process_id := 3\<rparr>) = Some (1, exec_state\<lparr>process_id := 3, threads := (threads exec_state)[2 := 1]\<rparr>)"
  "enlist_pcb (Pcb 1) fly_name 2 1 (exec_state\<lparr>process_id := 3, threads := (threads exec_state)[2 := 1]\<rparr>) = Some exec_enlisted"
proof -
  show "find_unused_pcb exec_state = Some (Pcb 1)"
    by (simp add: find_unused_pcb_def all_pcbs_def exec_state_def kernel_boot_def pcb0_def NUM_MAX_TASK_def upt_rec)
  show "find_task_entry fly_name (tasks exec_state) [0..<NUM_MAX_TASK] = Some (Some 0)"
    by (simp add: exec_state_def NUM_MAX_TASK_def upt_rec [of 0])
  show "add_threads 2 1 (exec_state\<lparr>process_id := 3\<rparr>) = Some (1, exec_state\<lparr>process_id := 3, threads := (threads exec_state)[2 := 1]\<rparr>)"
  proof -
    have "length (threads exec_state) = 64" "threads exec_state ! 2 = 0"
      by (simp_all add: exec_state_def kernel_boot_def NUM_MAX_SUB_THREADS_def)
    then show ?thesis by (simp add: add_threads_def Let_def)
  qed
  show "enlist_pcb (Pcb 1) fly_name 2 1 (exec_state\<lparr>process_id := 3, threads := (threads exec_state)[2 := 1]\<rparr>) = Some exec_enlisted"
  proof -
    obtain nm where "strcpy (replicate 16 0) fly_name = Some nm" using fly_name_simps(2) by blast
    moreover have "pname (pcb exec_state (Pcb 1)) = replicate 16 0" by (simp add: exec_state_def kernel_boot_def pcb0_def)
    ultimately show ?thesis by (simp add: exec_enlisted_def enlist_pcb_def Let_def)
  qed
qed

lemma exec_enlisted_fields:
  "mem exec_enlisted = (\<lambda>_. 0)" "freemem_list exec_enlisted = freemem_list (kernel_boot 1 empty_card)"
  "tasks exec_enlisted = tasks exec_state" "tasks_num exec_enlisted = 1"
  "page_inv kernel_heads (enq (Pcb_list (Pcb 1)) Ready_queue (boot_queues 1)) [] [] exec_enlisted"
  "pid (pcb exec_enlisted (Pcb 1)) = 2"
proof -
  obtain nm where e: "exec_enlisted = (let s1 = upd_pcb (Pcb 1) (\<lambda>q. q\<lparr>pid := 2, tid := 1, status := TASK_READY, pname := nm\<rparr>)
      (exec_state\<lparr>process_id := 3, threads := (threads exec_state)[2 := 1]\<rparr>)
    in s1\<lparr>lnk := INIT_LIST_HEAD (Wait_list (Pcb 1)) (list_add_tail (Pcb_list (Pcb 1)) Ready_queue (lnk s1))\<rparr>)"
  proof -
    obtain nm where "strcpy (replicate 16 0) fly_name = Some nm" using fly_name_simps(2) by blast
    moreover have "pname (pcb exec_state (Pcb 1)) = replicate 16 0" by (simp add: exec_state_def kernel_boot_def pcb0_def)
    ultimately show ?thesis by (intro that [of nm]) (simp add: exec_enlisted_def enlist_pcb_def Let_def)
  qed
  show "mem exec_enlisted = (\<lambda>_. 0)"
    by (auto simp: e upd_pcb_def exec_state_def kernel_boot_def Let_def init_kernel_freemem_def store_def mm_boot_def)
  show "freemem_list exec_enlisted = freemem_list (kernel_boot 1 empty_card)" "tasks exec_enlisted = tasks exec_state"
    "tasks_num exec_enlisted = 1" "pid (pcb exec_enlisted (Pcb 1)) = 2"
    by (simp_all add: e upd_pcb_def exec_state_def kernel_boot_def Let_def)
  let ?Q = "enq (Pcb_list (Pcb 1)) Ready_queue (boot_queues 1)" and ?b = "kernel_boot 1 empty_card"
  note b = kernel_boot_page_inv [of 1 empty_card]
  have h: "Ready_queue \<in> kernel_heads" "Pcb_list (Pcb 1) \<notin> kernel_heads" "Wait_list (Pcb 1) \<in> kernel_heads"
    "\<forall>g\<in>kernel_heads. Pcb_list (Pcb 1) \<notin> set (boot_queues 1 g)"
    by (auto simp: kernel_heads_def boot_queues_def split: if_splits)
  let ?L = "list_add_tail (Pcb_list (Pcb 1)) Ready_queue (lnk ?b)"
  have q: "queues kernel_heads ?L ?Q" using b h by (intro queues_add_tail) (auto simp: page_inv_def)
  have "is_queue ?L (Wait_list (Pcb 1)) []" using q h(3) by (auto simp: queues_def enq_def boot_queues_def)
  then have "INIT_LIST_HEAD (Wait_list (Pcb 1)) ?L = ?L"
    by (cases ?L) (auto simp: is_queue_def INIT_LIST_HEAD_def set_next_def set_prev_def fun_upd_idem_iff)
  then have l: "lnk exec_enlisted = ?L" by (simp add: e upd_pcb_def exec_state_def Let_def)
  have "pages exec_enlisted = pages ?b" "page_id exec_enlisted = page_id ?b" "present_pages_num exec_enlisted = present_pages_num ?b"
    by (simp_all add: e upd_pcb_def exec_state_def Let_def)
  then show "page_inv kernel_heads ?Q [] [] exec_enlisted"
    using b q l by (auto simp: page_inv_def enq_def split: if_splits)
qed

lemma exec_state_create:
  "\<exists>kp up s'. create_pcb ram_card fly_name exec_state = Some (Some (Pcb 1), s') \<and>
    kernel_sp (pcb s' (Pcb 1)) = kp + PAGE_SIZE - 288 \<and> user_sp (pcb s' (Pcb 1)) = up + PAGE_SIZE \<and> pid (pcb s' (Pcb 1)) = 2 \<and> up \<noteq> kp \<and>
    page_aligned kp \<and> page_aligned up \<and> FREEMEM_KERNEL \<le> kp \<and> FREEMEM_KERNEL \<le> up \<and>
    kp \<le> FREEMEM_KERNEL_STOP \<and> up \<le> FREEMEM_KERNEL_STOP"
proof -
  note f = exec_enlisted_fields
  have rep: "pages_rep exec_enlisted {} (Suc 10)"
  proof (rule pages_rep_upd [OF kernel_boot_pages_rep f(2)])
    have "mem (kernel_boot 1 empty_card) = (\<lambda>_. 0)"
      by (auto simp: kernel_boot_def init_kernel_freemem_def store_def mm_boot_def)
    then show "\<exists>p\<in>{}. page_no a = page_no p" if "mem exec_enlisted a \<noteq> mem (kernel_boot 1 empty_card) a" for a
      using that f(1) by simp
  qed simp
  obtain r s3 where k: "kalloc exec_enlisted = (r, s3)" by fastforce
  note c = kalloc_correct [OF rep k]
  have sr: "same_rest exec_enlisted s3" using same_rest_kalloc [of exec_enlisted] k by simp
  have m3: "mem s3 = (\<lambda>_. 0)" using mem_kalloc_zero [OF f(1)] k by simp
  have n3: "tasks_num s3 = tasks_num exec_enlisted"
    using k by (auto simp: kalloc_def Let_def store_def zero_page_def)
  define s4 where "s4 = upd_pcb (Pcb 1) (\<lambda>q. q\<lparr>pgdir := r\<rparr>) s3"
  have m4: "mem s4 = (\<lambda>_. 0)" "pgdir (pcb s4 (Pcb 1)) = r" "tasks s4 = tasks exec_state" "tasks_num s4 = 1"
    "pid (pcb s4 (Pcb 1)) = 2"
    using m3 n3 sr f(3,4,6) more_kernel [of s3 exec_enlisted] by (simp_all add: s4_def upd_pcb_def same_rest_def)
  have ld: "load_task_img ram_card fly_name r s4 = Some (1, s4)"
    using m4(3,4) by (simp add: load_task_img_def find_task.simps [of _ _ 0] load_pages.simps exec_state_def)
  have inv: "page_inv kernel_heads (enq (Pcb_list (Pcb 1)) Ready_queue (boot_queues 1)) [] [] s4"
    using f(5) sr by (simp add: page_inv_def same_rest_def s4_def upd_pcb_def)
  have rep4: "pages_rep s4 {r} (Suc (Suc (Suc (Suc 6))))"
    using c by (auto simp: s4_def upd_pcb_def eval_nat_numeral intro: pages_rep_upd)
  have wf: "pt_wf m' {r} (pgdir (pcb s4 (Pcb 1)))" if "\<forall>q\<in>{r}. \<forall>a. page_no a = page_no q \<longrightarrow> m' a = mem s4 a" for m'
    unfolding m4(2) using that c m4(1) by (intro pt_wf_empty) auto
  obtain kp up s' where sc: "setup_context ram_card (Pcb 1) USER_VA_SP_BASE USER_VA_SP None USER_VA_START s4 = Some s'"
    "kernel_sp (pcb s' (Pcb 1)) = kp + PAGE_SIZE - 288" "user_sp (pcb s' (Pcb 1)) = up + PAGE_SIZE" "pid (pcb s' (Pcb 1)) = 2" "up \<notin> insert kp {r}"
    "page_aligned kp" "page_aligned up" "FREEMEM_KERNEL \<le> kp" "FREEMEM_KERNEL \<le> up" "kp \<le> FREEMEM_KERNEL_STOP" "up \<le> FREEMEM_KERNEL_STOP"
    using setup_context_spec [OF inv _ _ rep4 wf, of ram_card USER_VA_SP None USER_VA_START] m4(5) by (auto simp: MAX_PFN_def)
  have pid: "process_id exec_state = 2" "tname (tasks exec_state ! 0) = fly_name" by (simp_all add: exec_state_def kernel_boot_def)
  have "create_pcb ram_card fly_name exec_state = Some (Some (Pcb 1), s')"
    using exec_enlisted k ld sc(1) m4
    by (simp add: create_pcb_def Let_def pid s4_def [symmetric, simplified] share_pgtable_zero [OF m4(1)] init_pcb_context_def)
  then show ?thesis using sc by auto
qed

theorem do_exec_passes_arguments_witness:
  "\<exists>U tf s'. do_exec ram_card fly_name 1 [[0x61, 0]] exec_state = Some (2, s') \<and>
    args_at [[0x61, 0]] (U - 16) (U - 16) (USER_VA_SP - 16) s' \<and> mem s' (U - 8) = 0 \<and>
    mem s' (pt_reg tf 10) = 1 \<and> mem s' (pt_reg tf 11) = USER_VA_SP - 16 \<and>
    mem s' (pt_reg tf 2) = (USER_VA_SP - 18) AND NOT (mask 7)"
proof -
  obtain kp up s1 where c: "create_pcb ram_card fly_name exec_state = Some (Some (Pcb 1), s1)"
    "kernel_sp (pcb s1 (Pcb 1)) = kp + PAGE_SIZE - 288" "user_sp (pcb s1 (Pcb 1)) = up + PAGE_SIZE" "up \<noteq> kp"
    "page_aligned kp" "page_aligned up" "FREEMEM_KERNEL \<le> kp" "FREEMEM_KERNEL \<le> up" "kp \<le> FREEMEM_KERNEL_STOP" "up \<le> FREEMEM_KERNEL_STOP"
    and p: "pid (pcb s1 (Pcb 1)) = 2"
    using exec_state_create by blast
  have len: "args_len [[0x61, 0]] = 2" by (simp add: args_len_def arg_len_def)
  have pl: "unat (p + x) = unat p + unat x" if "p \<le> FREEMEM_KERNEL_STOP" "unat x \<le> 4096" for p x :: u64
    using that by (simp add: word_le_nat_alt FREEMEM_KERNEL_STOP_def unat_plus_if_size word_size)
  have e: "up + PAGE_SIZE - 16 = up + 4080" by (simp add: PAGE_SIZE_def)
  have U: "unat (up + PAGE_SIZE) = unat up + 4096" "unat (up + PAGE_SIZE - 16) = unat up + 4080"
    unfolding e using pl [OF c(10), of 4096] pl [OF c(10), of 4080] by (simp_all add: PAGE_SIZE_def)
  have r: "pt_reg (kp + PAGE_SIZE - 288) 2 = kp + 3824" "pt_reg (kp + PAGE_SIZE - 288) 10 = kp + 3888" "pt_reg (kp + PAGE_SIZE - 288) 11 = kp + 3896"
    by (simp_all add: pt_reg_def PAGE_SIZE_def)
  have ur: "unat (kp + 3824) = unat kp + 3824" "unat (kp + 3888) = unat kp + 3888" "unat (kp + 3896) = unat kp + 3896"
    using pl [OF c(9), of 3824] pl [OF c(9), of 3888] pl [OF c(9), of 3896] by simp_all
  obtain a b where ab: "unat kp = 4096 * a" "unat up = 4096 * b" using aligned_ex c(5,6) by blast
  then have "a \<noteq> b" using c(4) by (auto simp: word_unat_eq_iff)
  then have "Suc a \<le> b \<or> Suc b \<le> a" by linarith
  then have dis: "unat kp + 4096 \<le> unat up \<or> unat up + 4096 \<le> unat kp" using ab by auto
  have apart: "\<forall>x\<in>trap_cells (kp + PAGE_SIZE - 288). unat x + 8 \<le> unat (up + PAGE_SIZE - 16) - args_len [[0x61, 0]] \<or> unat (up + PAGE_SIZE) \<le> unat x"
    using dis by (auto simp: trap_cells_def r ur U len)
  have "\<exists>s'. do_exec ram_card fly_name 1 [[0x61, 0]] exec_state = Some (2, s') \<and>
      args_at [[0x61, 0]] (up + PAGE_SIZE - 16) (up + PAGE_SIZE - 16) (USER_VA_SP - 16) s' \<and> mem s' (up + PAGE_SIZE - 16 + 8) = 0 \<and>
      mem s' (pt_reg (kp + PAGE_SIZE - 288) 10) = 1 \<and> mem s' (pt_reg (kp + PAGE_SIZE - 288) 11) = USER_VA_SP - 16 \<and>
      mem s' (pt_reg (kp + PAGE_SIZE - 288) 2) = (USER_VA_SP - 16 - 2) AND NOT (mask 7)"
    using do_exec_passes_arguments [OF c(1), of 1 "[[0x61, 0]]" "up + PAGE_SIZE" "up + PAGE_SIZE - 16" "kp + PAGE_SIZE - 288"] len p
      c(2,3) apart U by (simp add: r)
  then show ?thesis by (intro exI [of _ "up + PAGE_SIZE"] exI [of _ "kp + PAGE_SIZE - 288"]) (simp add: algebra_simps)
qed

end
