(* ===== verification/FS_Maps.thy ===== *)
theory FS_Maps
  imports FS_Laws
begin

text \<open>
  The block map and the inode map as sets of bits. \<open>bmap_bit\<close> and \<open>imap_bit\<close> number the bits the
  way \<^verbatim>\<open>alloc_block\<close> and \<^verbatim>\<open>alloc_inode\<close> count them; block or inode \<open>n\<close> owns bit \<open>n - 1\<close>.
\<close>

section \<open>Words\<close>

lemma rd_wr_words:
  assumes "sd_card_ok B" "length ws = 64"
  shows "rd_words B j (wr_words B k ws s) = (if j = k then ws else rd_words B j s)"
  using assms by (simp add: rd_words_def wr_words_def rd_wr_sector get_put_array)

lemma length_rd_words [simp]: "length (rd_words B k s) = 64"
  by (simp add: rd_words_def)

lemma superblock_wr_words [simp]: "superblock (wr_words B k ws s) = superblock s"
  by (simp add: wr_words_def)

text \<open>The reference for \<^verbatim>\<open>popcnt\<close>: the number of bits set.\<close>

lemma bits_drop1: "{i. bit (w::u64) i} = (if bit w 0 then {0} else {}) \<union> Suc ` {i. bit (drop_bit 1 w) i}"
proof (rule set_eqI)
  fix i show "i \<in> {i. bit w i} \<longleftrightarrow> i \<in> (if bit w 0 then {0} else {}) \<union> Suc ` {i. bit (drop_bit 1 w) i}"
    by (cases i) (auto simp: bit_drop_bit_eq)
qed

lemma finite_bits: "finite {i. bit (w::u64) i}"
  by (rule finite_subset [of _ "{..<64}"]) (auto dest: bit_imp_le_length)

lemma and_1_bit: "w AND 1 \<noteq> 0 \<longleftrightarrow> bit (w::u64) 0"
  by (simp add: and_one_eq bit_0 odd_iff_mod_2_eq_one)

lemma popcnt_card_spec: "popcnt w = int (card {i. bit w i})"
proof (induction w rule: popcnt.induct)
  case (1 w)
  show ?case
  proof (cases "w = 0")
    case True
    then show ?thesis by (simp add: popcnt.simps)
  next
    case False
    have "card {i. bit w i} = (if bit w 0 then 1 else 0) + card (Suc ` {i. bit (drop_bit 1 w) i})"
      using finite_bits [of "drop_bit 1 w"] by (subst bits_drop1) (simp add: card_insert_if)
    then have "card {i. bit w i} = (if bit w 0 then 1 else 0) + card {i. bit (drop_bit 1 w) i}"
      by (simp add: card_image)
    then show ?thesis using 1 [OF False] False by (subst popcnt.simps) (simp add: and_1_bit)
  qed
qed

lemma low_ones_spec: "(\<forall>i<low_ones w. bit w i) \<and> \<not> bit w (low_ones w)"
proof (induction w rule: low_ones.induct)
  case (1 w)
  show ?case
  proof (cases "bit w 0")
    case True
    have "bit w i" if "i < Suc (low_ones (drop_bit 1 w))" for i
      using that 1 True by (cases i) (auto simp: and_1_bit bit_drop_bit_eq)
    then show ?thesis using 1 True by (subst (1 2) low_ones.simps) (auto simp: and_1_bit bit_drop_bit_eq)
  next
    case False
    then show ?thesis by (subst (1 2) low_ones.simps) (simp add: and_1_bit)
  qed
qed

lemma low_ones_eqI: "\<forall>i<k. bit w i \<Longrightarrow> \<not> bit w k \<Longrightarrow> low_ones w = k"
  using low_ones_spec [of w] by (metis linorder_neqE_nat)

lemma full_word_iff: "w = 0xffffffffffffffff \<longleftrightarrow> (\<forall>i<64. bit (w::u64) i)"
proof -
  have "(0xffffffffffffffff::u64) = - 1" by simp
  then show ?thesis by (auto simp: bit_eq_iff)
qed

section \<open>A map as a list of words\<close>

definition map_bit :: "u64 list \<Rightarrow> nat \<Rightarrow> bool" where
  "map_bit ws i = bit (ws ! (i div 64)) (i mod 64)"

definition set_mask :: "nat \<Rightarrow> u64" where
  "set_mask b = int_to_u64 (sllw1 (int b))"

lemma bit_set_mask: "bit (set_mask b) i \<longleftrightarrow> i < 64 \<and> min i 31 = b mod 32"
  by (auto simp: set_mask_def bit_int_to_u64 bit_sllw1 nat_mod_distrib)

lemma scan_words_found:
  assumes "\<forall>i<b. map_bit ws i" "\<not> map_bit ws b" "b div 64 < length ws" "n mod 64 = 0"
  shows "scan_words ws n = (n + b, ws[b div 64 := ws ! (b div 64) OR set_mask (b mod 64)], True)"
  using assms
proof (induction ws arbitrary: b n)
  case Nil
  then show ?case by simp
next
  case (Cons w ws)
  show ?case
  proof (cases "b < 64")
    case True
    have lo: "low_ones w = b" using Cons.prems(1,2) True by (intro low_ones_eqI) (auto simp: map_bit_def)
    have "w \<noteq> 0xffffffffffffffff" using Cons.prems(2) True by (auto simp: full_word_iff map_bit_def)
    moreover have "(n + b) mod 64 = b" using Cons.prems(4) True by (metis mod_add_left_eq add_0 mod_less)
    ultimately show ?thesis using True lo by (simp add: Let_def set_mask_def)
  next
    case False
    have full: "w = 0xffffffffffffffff"
      unfolding full_word_iff
    proof (intro allI impI)
      fix i :: nat assume "i < 64"
      then show "bit w i" using Cons.prems(1) False by (auto simp: map_bit_def dest!: spec [of _ i])
    qed
    have d: "b div 64 = Suc ((b - 64) div 64)" "b mod 64 = (b - 64) mod 64"
      using False by (simp_all add: le_div_geq le_mod_geq)
    have bits: "map_bit (w # ws) (i + 64) = map_bit ws i" for i
      by (simp add: map_bit_def div_add_self2)
    have "scan_words ws (n + 64) = (n + 64 + (b - 64),
        ws[(b - 64) div 64 := ws ! ((b - 64) div 64) OR set_mask ((b - 64) mod 64)], True)"
    proof (rule Cons.IH)
      show "\<forall>i<b - 64. map_bit ws i"
      proof (intro allI impI)
        fix i assume "i < b - 64"
        then show "map_bit ws i" using Cons.prems(1) bits [of i] by (metis less_diff_conv)
      qed
      show "\<not> map_bit ws (b - 64)" using Cons.prems(2) bits [of "b - 64"] False by simp
      show "(b - 64) div 64 < length ws" using Cons.prems(3) d(1) by simp
      show "(n + 64) mod 64 = 0" using Cons.prems(4) by simp
    qed
    then show ?thesis using full d False by simp
  qed
qed

lemma scan_words_full:
  assumes "\<forall>w\<in>set ws. w = 0xffffffffffffffff"
  shows "scan_words ws n = (n + 64 * length ws, ws, False)"
  using assms by (induction ws arbitrary: n) auto

lemma map_bit_set:
  assumes "b div 64 < length ws" "b mod 64 < 31"
  shows "map_bit (ws[b div 64 := ws ! (b div 64) OR set_mask (b mod 64)]) i \<longleftrightarrow> i = b \<or> map_bit ws i"
proof (cases "i div 64 = b div 64")
  case True
  have "i = b \<longleftrightarrow> i mod 64 = b mod 64" using True by (metis div_mult_mod_eq)
  moreover have "i mod 64 < 64" by simp
  ultimately show ?thesis using True assms by (auto simp: map_bit_def bit_or_iff bit_set_mask min_def)
next
  case False
  then show ?thesis by (auto simp: map_bit_def)
qed

section \<open>The inode map\<close>

definition imap_sector :: "('d, 'a) fsys_scheme \<Rightarrow> u32" where
  "imap_sector s = sb_start (superblock s) + imap_offset (superblock s)"

definition imap_bit :: "'d sdcard \<Rightarrow> ('d, 'a) fsys_scheme \<Rightarrow> nat \<Rightarrow> bool" where
  "imap_bit B s i = map_bit (rd_words B (imap_sector s) s) i"

lemma alloc_inode_eq:
  assumes "\<forall>i<b. imap_bit B s i" "\<not> imap_bit B s b" "b < 4096"
  shows "alloc_inode B s = (int b + 1, wr_words B (imap_sector s)
    ((rd_words B (imap_sector s) s)[b div 64 := rd_words B (imap_sector s) s ! (b div 64) OR set_mask (b mod 64)]) s)"
proof -
  have "b div 64 < 64" using assms(3) by auto
  then show ?thesis
    using scan_words_found [of b "rd_words B (imap_sector s) s" 0] assms
    by (simp add: alloc_inode_def imap_bit_def imap_sector_def Let_def)
qed

lemma bit_clear_mask: "bit (int_to_u64 (NOT (sllw1 (int b)))) i \<longleftrightarrow> i < 64 \<and> min i 31 \<noteq> b mod 32"
proof -
  have "int_to_u64 (NOT (sllw1 (int b))) = NOT (set_mask b)" by (simp add: int_to_u64_NOT set_mask_def)
  then show ?thesis by (auto simp: bit_not_iff bit_set_mask)
qed

lemma map_bit_clear:
  assumes "b div 64 < length ws" "b mod 64 < 31"
  shows "map_bit (ws[b div 64 := ws ! (b div 64) AND int_to_u64 (NOT (sllw1 (int (b mod 64))))]) i
    \<longleftrightarrow> i \<noteq> b \<and> map_bit ws i"
proof (cases "i div 64 = b div 64")
  case True
  have "i = b \<longleftrightarrow> i mod 64 = b mod 64" using True by (metis div_mult_mod_eq)
  moreover have "i mod 64 < 64" by simp
  ultimately show ?thesis using True assms by (auto simp: map_bit_def bit_and_iff bit_clear_mask min_def)
next
  case False
  then show ?thesis by (auto simp: map_bit_def)
qed

text \<open>The index arithmetic of the two free functions, for a bit in the lower half of its word.\<close>

lemma free_index:
  assumes "b mod 64 < 31"
  shows "(int b + 1) div 64 = int (b div 64)" "(int b + 1) mod 64 - 1 = int (b mod 64)"
proof -
  have "b + 1 = 64 * (b div 64) + (b mod 64 + 1)" by simp
  then have "(b + 1) div 64 = b div 64" "(b + 1) mod 64 = b mod 64 + 1"
    using assms by (simp_all add: div_mult_self4 mod_Suc div_Suc)
  then have "int ((b + 1) div 64) = int (b div 64)" "int ((b + 1) mod 64) = int (b mod 64) + 1" by simp_all
  then show "(int b + 1) div 64 = int (b div 64)" "(int b + 1) mod 64 - 1 = int (b mod 64)"
    by (simp_all add: of_nat_div of_nat_mod add.commute)
qed

lemma free_inode_eq:
  assumes "b < 4096" "b mod 64 < 31"
  shows "free_inode B (int b + 1) s = Some (wr_words B (imap_sector s)
    ((rd_words B (imap_sector s) s)[b div 64 := rd_words B (imap_sector s) s ! (b div 64)
       AND int_to_u64 (NOT (sllw1 (int (b mod 64))))]) s)"
proof -
  have "b div 64 < 64" using assms(1) by auto
  then show ?thesis using free_index [OF assms(2)]
    by (simp add: free_inode_def clear_bit_def imap_sector_def signed_div_nonneg Let_def)
qed

text \<open>
  Inode allocation takes the lowest free inode, and freeing it gives the map back. If bit \<open>b\<close>
  is the first clear bit of the inode map, and in the lower 31 bits of its word, then
  \<^verbatim>\<open>alloc_inode\<close> returns inode \<open>b + 1\<close> and sets exactly that bit, and \<^verbatim>\<open>free_inode\<close> of the result
  clears exactly that bit again.
\<close>

theorem alloc_free_inode:
  assumes "sd_card_ok B" "\<forall>i<b. imap_bit B s i" "\<not> imap_bit B s b" "b < 4096" "b mod 64 < 31"
  shows "\<exists>s1 s2. alloc_inode B s = (int b + 1, s1) \<and> (\<forall>i. imap_bit B s1 i \<longleftrightarrow> i = b \<or> imap_bit B s i) \<and>
    free_inode B (int b + 1) s1 = Some s2 \<and> (\<forall>i. imap_bit B s2 i \<longleftrightarrow> imap_bit B s i)"
proof -
  let ?k = "imap_sector s"
  define s1 where "s1 = snd (alloc_inode B s)"
  have b: "b div 64 < 64" using assms(4) by auto
  have a: "alloc_inode B s = (int b + 1, s1)" using alloc_inode_eq [OF assms(2-4)] by (simp add: s1_def)
  have w1: "rd_words B ?k s1 = (rd_words B ?k s)[b div 64 := rd_words B ?k s ! (b div 64) OR set_mask (b mod 64)]"
    using alloc_inode_eq [OF assms(2-4)] assms(1) by (simp add: s1_def rd_wr_words)
  have k1: "imap_sector s1 = ?k" using alloc_inode_eq [OF assms(2-4)] by (simp add: s1_def imap_sector_def)
  have i1: "imap_bit B s1 i \<longleftrightarrow> i = b \<or> imap_bit B s i" for i
    using map_bit_set [of b "rd_words B ?k s" i] b assms(5) by (simp add: imap_bit_def k1 w1)
  obtain s2 where s2: "free_inode B (int b + 1) s1 = Some s2"
    "s2 = wr_words B ?k ((rd_words B ?k s1)[b div 64 := rd_words B ?k s1 ! (b div 64)
       AND int_to_u64 (NOT (sllw1 (int (b mod 64))))]) s1"
    using free_inode_eq [OF assms(4,5), of B s1] k1 by simp
  have "imap_bit B s2 i \<longleftrightarrow> i \<noteq> b \<and> imap_bit B s1 i" for i
    using map_bit_clear [of b "rd_words B ?k s1" i] b assms(1,5) k1
    by (simp add: imap_bit_def imap_sector_def s2(2) rd_wr_words)
  then show ?thesis using a i1 s2(1) assms(3) by blast
qed

section \<open>The block map\<close>

definition bmap_start :: "('d, 'a) fsys_scheme \<Rightarrow> u32" where
  "bmap_start s = sb_start (superblock s) + bmap_offset (superblock s)"

definition bmap_bit :: "'d sdcard \<Rightarrow> ('d, 'a) fsys_scheme \<Rightarrow> nat \<Rightarrow> bool" where
  "bmap_bit B s i = map_bit (rd_words B (bmap_start s + of_nat (i div 4096)) s) (i mod 4096)"

text \<open>Two states that differ only in the bytes of the given sectors.\<close>

definition same_but :: "'d sdcard \<Rightarrow> u32 set \<Rightarrow> ('d, 'a) fsys_scheme \<Rightarrow> ('d, 'a) fsys_scheme \<Rightarrow> bool" where
  "same_but B K s t \<longleftrightarrow> (\<exists>d. t = s\<lparr>sd := d\<rparr>) \<and> (\<forall>k. k \<notin> K \<longrightarrow> rd_sector B k t = rd_sector B k s)"

lemma same_but_refl: "same_but B K s s"
  by (auto simp: same_but_def intro!: exI [of _ "sd s"])

lemma same_but_trans: "same_but B K s t \<Longrightarrow> same_but B K t u \<Longrightarrow> same_but B K s u"
  unfolding same_but_def by auto

lemma same_but_wr_words:
  assumes "sd_card_ok B" "length ws = 64" "k \<in> K"
  shows "same_but B K s (wr_words B k ws s)"
  using assms by (auto simp: same_but_def wr_words_def rd_wr_sector) (auto simp: wr_sector_def intro: exI)

lemma same_but_wr_same:
  assumes "sd_card_ok B"
  shows "same_but B K s (wr_words B k (rd_words B k s) s)"
proof -
  have "put_array 8 (rd_words B k s) = rd_sector B k s"
    unfolding rd_words_def using assms by (intro put_get_array) auto
  then show ?thesis using assms
    by (auto simp: same_but_def wr_words_def rd_wr_sector) (auto simp: wr_sector_def intro: exI)
qed

lemma same_but_mono: "same_but B K s t \<Longrightarrow> K \<subseteq> L \<Longrightarrow> same_but B L s t"
  by (auto simp: same_but_def)

lemma same_but_fields:
  assumes "same_but B K s t"
  shows "superblock t = superblock s" "block_buf t = block_buf s" "fdesc_array t = fdesc_array s"
    "bmap_start t = bmap_start s" "cwd t = cwd s" "pcb t = pcb s" "mounted t = mounted s"
  using assms by (auto simp: same_but_def bmap_start_def cwd_def mounted_def)

lemma same_but_words: "same_but B K s t \<Longrightarrow> k \<notin> K \<Longrightarrow> rd_words B k t = rd_words B k s"
  by (simp add: same_but_def rd_words_def)

lemma alloc_block_loop_found:
  fixes s :: "('d, 'a) fsys_scheme"
  assumes ok: "sd_card_ok B" and m: "m \<le> c" "c < 32" and r: "r < 4096"
    and below: "\<forall>i. 4096 * m \<le> i \<and> i < 4096 * c + r \<longrightarrow> bmap_bit B s i" and free: "\<not> bmap_bit B s (4096 * c + r)"
  shows "\<exists>s'. alloc_block_loop B (bmap_start s) [m..<32] (4096 * m) s = (4096 * c + r, s') \<and>
     same_but B {bmap_start s + of_nat c} s s' \<and>
     rd_words B (bmap_start s + of_nat c) s' =
       (rd_words B (bmap_start s + of_nat c) s)[r div 64 := rd_words B (bmap_start s + of_nat c) s ! (r div 64) OR set_mask (r mod 64)]"
  using m(1) below free
proof (induction "c - m" arbitrary: m s)
  case 0
  let ?k = "bmap_start s + of_nat c"
  have mc: "m = c" using 0 by simp
  have "map_bit (rd_words B ?k s) i" if "i < r" for i
    using 0(3) that r mc by (auto simp: bmap_bit_def dest!: spec [of _ "4096 * c + i"])
  moreover have "\<not> map_bit (rd_words B ?k s) r" using 0(4) r by (simp add: bmap_bit_def)
  moreover have "r div 64 < 64" using r by auto
  ultimately have "scan_words (rd_words B ?k s) (4096 * c) =
      (4096 * c + r, (rd_words B ?k s)[r div 64 := rd_words B ?k s ! (r div 64) OR set_mask (r mod 64)], True)"
    by (intro scan_words_found) auto
  moreover have "[m..<32] = c # [Suc c..<32]" using mc m(2) by (simp add: upt_conv_Cons)
  ultimately show ?case using ok mc by (auto simp: rd_wr_words intro: same_but_wr_words)
next
  case (Suc x)
  let ?k = "bmap_start s + of_nat m"
  have mc: "m < c" using Suc(2) by simp
  have "bit w j" if w: "w \<in> set (rd_words B ?k s)" and j: "j < 64" for w j
  proof -
    obtain l where l: "l < 64" "w = rd_words B ?k s ! l" using w by (auto simp: in_set_conv_nth)
    have "(4096 * m + (64 * l + j)) div 4096 = m" "(4096 * m + (64 * l + j)) mod 4096 = 64 * l + j"
      "(64 * l + j) div 64 = l" "(64 * l + j) mod 64 = j"
      using l j by auto
    moreover have "bmap_bit B s (4096 * m + (64 * l + j))" using Suc(4) mc l j by auto
    ultimately show ?thesis by (simp add: bmap_bit_def map_bit_def l(2))
  qed
  then have full: "scan_words (rd_words B ?k s) (4096 * m) = (4096 * Suc m, rd_words B ?k s, False)"
    by (subst scan_words_full) (auto simp: full_word_iff)
  define s1 where "s1 = wr_words B ?k (rd_words B ?k s) s"
  have sm: "same_but B {} s s1" unfolding s1_def using ok by (rule same_but_wr_same)
  have bs: "bmap_start s1 = bmap_start s" using same_but_fields [OF sm] by simp
  have bit1: "bmap_bit B s1 i = bmap_bit B s i" for i using same_but_words [OF sm] by (simp add: bmap_bit_def bs)
  have "[m..<32] = m # [Suc m..<32]" using mc m(2) by (simp add: upt_conv_Cons)
  then have step: "alloc_block_loop B (bmap_start s) [m..<32] (4096 * m) s
      = alloc_block_loop B (bmap_start s1) [Suc m..<32] (4096 * Suc m) s1"
    using full by (simp add: bs Let_def flip: s1_def)
  have "x = c - Suc m" "Suc m \<le> c" using Suc(2) mc by auto
  then obtain s' where s': "alloc_block_loop B (bmap_start s1) [Suc m..<32] (4096 * Suc m) s1 = (4096 * c + r, s')"
      "same_but B {bmap_start s + of_nat c} s1 s'"
      "rd_words B (bmap_start s + of_nat c) s' =
       (rd_words B (bmap_start s + of_nat c) s)[r div 64 := rd_words B (bmap_start s + of_nat c) s ! (r div 64) OR set_mask (r mod 64)]"
    using Suc(1) [of "Suc m" s1] Suc(4,5) same_but_words [OF sm, of "bmap_start s + of_nat c"] by (auto simp: bs bit1)
  show ?case unfolding step using s' same_but_trans [OF same_but_mono [OF sm] s'(2)] by auto
qed

lemma alloc_block_spec:
  assumes "sd_card_ok B" "\<forall>i<b. bmap_bit B s i" "\<not> bmap_bit B s b" "b < 131072"
  obtains s' where "alloc_block B s = (int b + 1, s')" "same_but B {bmap_start s + of_nat (b div 4096)} s s'"
    "rd_words B (bmap_start s + of_nat (b div 4096)) s' =
       (rd_words B (bmap_start s + of_nat (b div 4096)) s)[b mod 4096 div 64 :=
          rd_words B (bmap_start s + of_nat (b div 4096)) s ! (b mod 4096 div 64) OR set_mask (b mod 64)]"
proof -
  have m: "b mod 4096 mod 64 = b mod 64" by (simp add: mod_mod_cancel)
  have "b div 4096 < 32" using assms(4) by auto
  then obtain s' where "alloc_block_loop B (bmap_start s) [0..<32] 0 s = (b, s')"
    "same_but B {bmap_start s + of_nat (b div 4096)} s s'"
    "rd_words B (bmap_start s + of_nat (b div 4096)) s' =
       (rd_words B (bmap_start s + of_nat (b div 4096)) s)[b mod 4096 div 64 :=
          rd_words B (bmap_start s + of_nat (b div 4096)) s ! (b mod 4096 div 64) OR set_mask (b mod 64)]"
    using alloc_block_loop_found [OF assms(1), of 0 "b div 4096" "b mod 4096" s] assms(2,3) by (auto simp: m)
  then show thesis using that by (auto simp: alloc_block_def NSECTORS_BMAP_def bmap_start_def)
qed

lemma map_bit_or:
  assumes "b div 64 < length ws"
  shows "map_bit (ws[b div 64 := ws ! (b div 64) OR set_mask (b mod 64)]) i \<longleftrightarrow>
    map_bit ws i \<or> i div 64 = b div 64 \<and> min (i mod 64) 31 = b mod 64 mod 32"
  using assms by (auto simp: map_bit_def bit_or_iff bit_set_mask nth_list_update)

lemma div_64_split: "(i::nat) div 64 = 64 * (i div 4096) + i mod 4096 div 64"
proof -
  have "i = i mod 4096 + 64 * (64 * (i div 4096))" by simp
  then have "i div 64 = (i mod 4096 + 64 * (64 * (i div 4096))) div 64" by simp
  also have "\<dots> = 64 * (i div 4096) + i mod 4096 div 64" by (subst div_mult_self2) simp_all
  finally show ?thesis .
qed

lemma div_4096_64: "(i::nat) div 64 = j div 64 \<longleftrightarrow> i div 4096 = j div 4096 \<and> i mod 4096 div 64 = j mod 4096 div 64"
proof -
  have "64 * a + x = 64 * c + y \<longleftrightarrow> a = c \<and> x = y" if "x < 64" "y < 64" for a c x y :: nat
  proof -
    have "(64 * a + x) div 64 = a" "(64 * c + y) div 64 = c" using that by simp_all
    then show ?thesis by (metis add_left_cancel)
  qed
  moreover have "i mod 4096 div 64 < 64" for i :: nat by simp
  ultimately show ?thesis unfolding div_64_split [of i] div_64_split [of j] by blast
qed

lemma sector_inj:
  assumes "i < 131072" "b < 131072" "(of_nat (i div 4096) :: u32) = of_nat (b div 4096)"
  shows "i div 4096 = b div 4096"
proof -
  have "i div 4096 < 32" "b div 4096 < 32" using assms by auto
  then have "unat (of_nat (i div 4096) :: u32) = i div 4096" "unat (of_nat (b div 4096) :: u32) = b div 4096"
    by (subst unat_of_nat; simp)+
  then show ?thesis using assms(3) by metis
qed

text \<open>What \<^verbatim>\<open>alloc_block\<close> does to the map, for every bit position.\<close>

lemma alloc_block_bits:
  assumes "sd_card_ok B" "\<forall>i<b. bmap_bit B s i" "\<not> bmap_bit B s b" "b < 131072"
  obtains s' where "alloc_block B s = (int b + 1, s')" "same_but B {bmap_start s + of_nat (b div 4096)} s s'"
    "\<forall>i<131072. bmap_bit B s' i \<longleftrightarrow> bmap_bit B s i \<or> i div 64 = b div 64 \<and> min (i mod 64) 31 = b mod 32"
proof -
  let ?k = "\<lambda>i. bmap_start s + of_nat (i div 4096)" and ?r = "b mod 4096"
  obtain s' where s': "alloc_block B s = (int b + 1, s')" "same_but B {?k b} s s'"
    "rd_words B (?k b) s' = (rd_words B (?k b) s)[?r div 64 := rd_words B (?k b) s ! (?r div 64) OR set_mask (b mod 64)]"
    using alloc_block_spec [OF assms] by blast
  have mm: "?r mod 64 = b mod 64" "b mod 64 mod 32 = b mod 32" "i mod 4096 mod 64 = i mod 64" for i :: nat
    by (simp_all add: mod_mod_cancel)
  have r: "?r div 64 < 64" by simp
  have bit: "bmap_bit B s' i \<longleftrightarrow> bmap_bit B s i \<or> i div 64 = b div 64 \<and> min (i mod 64) 31 = b mod 32"
    if i: "i < 131072" for i
  proof (cases "i div 4096 = b div 4096")
    case True
    then show ?thesis using map_bit_or [of ?r "rd_words B (?k b) s" "i mod 4096"] r
      by (simp add: bmap_bit_def same_but_fields [OF s'(2)] s'(3) mm div_4096_64 [of i b])
  next
    case False
    then have "(of_nat (i div 4096) :: u32) \<noteq> of_nat (b div 4096)" using sector_inj [OF i assms(4)] by blast
    then show ?thesis using False same_but_words [OF s'(2)]
      by (simp add: bmap_bit_def same_but_fields [OF s'(2)] div_4096_64 [of i b])
  qed
  show thesis using that s'(1,2) bit by blast
qed

text \<open>Freeing, for a bit in the lower half of its word.\<close>

lemma free_block_eq:
  assumes "sd_card_ok B" "b mod 64 < 31" "b < 131072"
  obtains s' where "free_block B (int b + 1) s = Some s'" "same_but B {bmap_start s + of_nat (b div 4096)} s s'"
    "rd_words B (bmap_start s + of_nat (b div 4096)) s' =
       (rd_words B (bmap_start s + of_nat (b div 4096)) s)[b mod 4096 div 64 :=
          rd_words B (bmap_start s + of_nat (b div 4096)) s ! (b mod 4096 div 64) AND int_to_u64 (NOT (sllw1 (int (b mod 64))))]"
proof -
  have mm: "b mod 4096 mod 64 = b mod 64" by (simp add: mod_mod_cancel)
  have "b mod 4096 \<noteq> 4095" using assms(2) mm by auto
  then have "(b + 1) div 4096 = b div 4096" "(b + 1) mod 4096 = b mod 4096 + 1" by (auto simp: div_Suc mod_Suc)
  then have "int ((b + 1) div 4096) = int (b div 4096)" "int ((b + 1) mod 4096) = int (b mod 4096) + 1" by simp_all
  then have d: "(int b + 1) div 4096 = int (b div 4096)" "(int b + 1) mod 4096 = int (b mod 4096) + 1"
    by (simp_all add: of_nat_div of_nat_mod add.commute)
  have f: "(int (b mod 4096) + 1) div 64 = int (b mod 4096 div 64)" "(int (b mod 4096) + 1) mod 64 - 1 = int (b mod 64)"
    using free_index [of "b mod 4096"] assms(2) by (simp_all add: mm)
  let ?k = "bmap_start s + of_nat (b div 4096)"
  let ?ws = "(rd_words B ?k s)[b mod 4096 div 64 := rd_words B ?k s ! (b mod 4096 div 64) AND int_to_u64 (NOT (sllw1 (int (b mod 64))))]"
  have "free_block B (int b + 1) s = Some (wr_words B ?k ?ws s)"
    by (simp add: free_block_def clear_bit_def signed_div_nonneg d f bmap_start_def Let_def del: of_nat_mod of_nat_div)
  then show thesis using that [of "wr_words B ?k ?ws s"] assms(1) by (simp add: same_but_wr_words rd_wr_words)
qed

text \<open>
  C33: Block allocation takes the lowest free block, and freeing gives it back. If bit \<open>b\<close> is the
  first clear bit of the block map over all 32 sectors, and in the lower 31 bits of its word, then
  \<^verbatim>\<open>alloc_block\<close> returns block \<open>b + 1\<close> and sets exactly that bit, \<^verbatim>\<open>free_block\<close> of the result restores
  every bit of the map, and both leave all other sectors of the card alone.
\<close>

theorem alloc_free_block:
  assumes "sd_card_ok B" "\<forall>i<b. bmap_bit B s i" "\<not> bmap_bit B s b" "b < 131072" "b mod 64 < 31"
  shows "\<exists>s1 s2. alloc_block B s = (int b + 1, s1) \<and> (\<forall>i<131072. bmap_bit B s1 i \<longleftrightarrow> i = b \<or> bmap_bit B s i) \<and>
    free_block B (int b + 1) s1 = Some s2 \<and> (\<forall>i<131072. bmap_bit B s2 i \<longleftrightarrow> bmap_bit B s i) \<and>
    same_but B {bmap_start s + of_nat (b div 4096)} s s1 \<and> same_but B {bmap_start s + of_nat (b div 4096)} s s2"
proof -
  let ?k = "bmap_start s + of_nat (b div 4096)" and ?r = "b mod 4096"
  have mm: "?r mod 64 = b mod 64" by (simp add: mod_mod_cancel)
  obtain s1 where s1: "alloc_block B s = (int b + 1, s1)" "same_but B {?k} s s1"
    "\<forall>i<131072. bmap_bit B s1 i \<longleftrightarrow> bmap_bit B s i \<or> i div 64 = b div 64 \<and> min (i mod 64) 31 = b mod 32"
    using alloc_block_bits [OF assms(1-4)] by blast
  have "b mod 32 = b mod 64 mod 32" by (simp add: mod_mod_cancel)
  then have b32: "b mod 32 = b mod 64" using assms(5) by simp
  have "i div 64 = b div 64 \<and> min (i mod 64) 31 = b mod 32 \<longleftrightarrow> i = b" for i
    using assms(5) unfolding b32 by (metis div_mult_mod_eq min.strict_order_iff min_def less_irrefl)
  then have bits: "\<forall>i<131072. bmap_bit B s1 i \<longleftrightarrow> i = b \<or> bmap_bit B s i" using s1(3) by blast
  obtain s2 where s2: "free_block B (int b + 1) s1 = Some s2" "same_but B {bmap_start s1 + of_nat (b div 4096)} s1 s2"
    "rd_words B (bmap_start s1 + of_nat (b div 4096)) s2 = (rd_words B (bmap_start s1 + of_nat (b div 4096)) s1)[?r div 64 :=
       rd_words B (bmap_start s1 + of_nat (b div 4096)) s1 ! (?r div 64) AND int_to_u64 (NOT (sllw1 (int (b mod 64))))]"
    using free_block_eq [OF assms(1,5,4), of s1] by blast
  note bs = same_but_fields(4) [OF s1(2)] same_but_fields(4) [OF s2(2)]
  have "bmap_bit B s2 i \<longleftrightarrow> i \<noteq> b \<and> bmap_bit B s1 i" if i: "i < 131072" for i
  proof (cases "i div 4096 = b div 4096")
    case True
    then have "i = b \<longleftrightarrow> i mod 4096 = ?r" by (metis div_mult_mod_eq)
    then show ?thesis using True map_bit_clear [of ?r "rd_words B ?k s1" "i mod 4096"] assms(5) s2(3)
      by (simp add: bmap_bit_def bs mm)
  next
    case False
    then have "?k \<noteq> bmap_start s + of_nat (i div 4096)" using sector_inj [of i b] i assms(4) by auto
    then show ?thesis using False same_but_words [OF s2(2)] by (auto simp: bmap_bit_def bs)
  qed
  then have "\<forall>i<131072. bmap_bit B s2 i \<longleftrightarrow> bmap_bit B s i" using bits assms(3) by auto
  moreover have "same_but B {?k} s s2" using same_but_trans [OF s1(2)] s2(2) bs by simp
  ultimately show ?thesis using s1(1,2) bits s2(1) by blast
qed

lemma word_top_half:
  fixes b i :: nat
  assumes "b mod 64 = 31"
  shows "i div 64 = b div 64 \<and> min (i mod 64) 31 = 31 \<longleftrightarrow> b \<le> i \<and> i \<le> b + 32"
proof
  have b: "b = 64 * (b div 64) + 31" using assms by (metis mult_div_mod_eq)
  assume a: "i div 64 = b div 64 \<and> min (i mod 64) 31 = 31"
  then have "i = 64 * (b div 64) + i mod 64" "31 \<le> i mod 64" "i mod 64 < 64"
    by (metis mult_div_mod_eq) (use a in auto)
  then show "b \<le> i \<and> i \<le> b + 32" using b by linarith
next
  have b: "b = 64 * (b div 64) + 31" using assms by (metis mult_div_mod_eq)
  assume a: "b \<le> i \<and> i \<le> b + 32"
  then have "i div 64 = b div 64" using b by (intro div_nat_eqI) auto
  moreover have "i = 64 * (i div 64) + i mod 64" by simp
  ultimately have "31 \<le> i mod 64" using a b by linarith
  then show "i div 64 = b div 64 \<and> min (i mod 64) 31 = 31" using \<open>i div 64 = b div 64\<close> by simp
qed

text \<open>
  \<^verbatim>\<open>alloc_block\<close> loses blocks. When the first free block owns bit 31 of a map word, the shift of
  an \<^verbatim>\<open>int\<close> sets the sign bit and its conversion to 64 bits marks all of bits 31 to 63: the call
  returns one block and marks the 32 blocks behind it as used too.
\<close>

theorem alloc_block_loses:
  assumes "sd_card_ok B" "\<forall>i<b. bmap_bit B s i" "\<not> bmap_bit B s b" "b < 131072" "b mod 64 = 31"
  shows "\<exists>s'. alloc_block B s = (int b + 1, s') \<and>
    (\<forall>i<131072. bmap_bit B s' i \<longleftrightarrow> bmap_bit B s i \<or> b \<le> i \<and> i \<le> b + 32)"
proof -
  obtain s' where s': "alloc_block B s = (int b + 1, s')"
    "\<forall>i<131072. bmap_bit B s' i \<longleftrightarrow> bmap_bit B s i \<or> i div 64 = b div 64 \<and> min (i mod 64) 31 = b mod 32"
    using alloc_block_bits [OF assms(1-4)] by blast
  have "b mod 32 = b mod 64 mod 32" by (simp add: mod_mod_cancel)
  then have "b mod 32 = 31" using assms(5) by simp
  then have "i div 64 = b div 64 \<and> min (i mod 64) 31 = b mod 32 \<longleftrightarrow> b \<le> i \<and> i \<le> b + 32" for i
    using assms(5) word_top_half [of b i] by auto
  then show ?thesis using s' by auto
qed

text \<open>
  C36: \<^verbatim>\<open>popcnt\<close>, which \<^verbatim>\<open>do_statfs\<close> uses to count the blocks and inodes in use, returns the number of
  bits set in its argument.
\<close>

theorem popcnt_card: "popcnt w = int (card {i. bit w i})"
  by (rule popcnt_card_spec)

lemma rd_words_blank: "rd_words ram_card k (fs_boot (\<lambda>_. [])) = replicate 64 0"
proof (rule nth_equalityI)
  fix i assume "i < length (rd_words ram_card k (fs_boot (\<lambda>_. [])))"
  then have "i < 64" by simp
  moreover have "le_get (replicate n 0) = (0::u64)" for n by (induction n) auto
  ultimately show "rd_words ram_card k (fs_boot (\<lambda>_. [])) ! i = replicate 64 0 ! i"
    by (simp add: rd_words_def rd_sector_blank get_array_nth slice_def)
qed simp

lemma blank_bits [simp]:
  "i < 4096 \<Longrightarrow> \<not> imap_bit ram_card (fs_boot (\<lambda>_. [])) i" "\<not> bmap_bit ram_card (fs_boot (\<lambda>_. [])) i"
  by (auto simp: imap_bit_def bmap_bit_def rd_words_blank map_bit_def)

theorem alloc_free_inode_witness:
  "\<exists>s1 s2. alloc_inode ram_card (fs_boot (\<lambda>_. [])) = (1, s1) \<and> imap_bit ram_card s1 0 \<and> free_inode ram_card 1 s1 = Some s2"
  using alloc_free_inode [of ram_card 0 "fs_boot (\<lambda>_. [])"] by auto

theorem alloc_free_block_witness:
  "\<exists>s1 s2. alloc_block ram_card (fs_boot (\<lambda>_. [])) = (1, s1) \<and> bmap_bit ram_card s1 0 \<and> free_block ram_card 1 s1 = Some s2"
  using alloc_free_block [of ram_card 0 "fs_boot (\<lambda>_. [])"] by auto

text \<open>A block map whose first word has its low 31 bits set.\<close>

definition half_used :: "(u32 \<Rightarrow> u8 list) fsys" where
  "half_used = wr_words ram_card 0x100001 (0x7fffffff # replicate 63 0) (fs_boot (\<lambda>_. []))"

lemma half_used_bits: "i < 64 \<Longrightarrow> bmap_bit ram_card half_used i \<longleftrightarrow> i < 31"
proof -
  assume i: "i < 64"
  have m: "(0x7fffffff::u64) = mask 31" by (simp add: mask_eq_decr_exp)
  have "bit (0x7fffffff::u64) i \<longleftrightarrow> i < 31" unfolding m using i by (simp only: bit_mask_iff) simp
  moreover have "bmap_start half_used = 0x100001"
    by (simp add: half_used_def bmap_start_def mkfs_superblock_def FS_START_SECTOR_def)
  ultimately show ?thesis using i
    by (simp add: bmap_bit_def map_bit_def half_used_def rd_wr_words)
qed

theorem alloc_block_loses_witness:
  "\<exists>s'. alloc_block ram_card half_used = (32, s') \<and> bmap_bit ram_card s' 63"
  using alloc_block_loses [of ram_card 31 half_used] by (auto simp: half_used_bits)

end
