(* ===== verification/FS_Access.thy ===== *)
theory FS_Access
  imports FS_Maps
begin

text \<open>
  Properties of open files: the index tree of an inode as a map from block indices to block numbers,
  descriptors, seeking, and writing followed by reading.
\<close>

section \<open>The index tree\<close>

definition word_at :: "u8 list \<Rightarrow> nat \<Rightarrow> u32" where
  "word_at bs i = le_get (slice (4 * i) 4 bs)"

text \<open>The block number of block \<open>k\<close> of a file: the abstract content of the index tree.\<close>

definition second_level :: "'d sdcard \<Rightarrow> inode_t \<Rightarrow> ('d, 'a) fsys_scheme \<Rightarrow> nat \<Rightarrow> u32" where
  "second_level B n s i = word_at (block_bytes B (double_indirect n) s) i"

definition file_block :: "'d sdcard \<Rightarrow> inode_t \<Rightarrow> ('d, 'a) fsys_scheme \<Rightarrow> nat \<Rightarrow> u32" where
  "file_block B n s k =
     (if k < 10 then direct n ! k
      else if k < 1034 then word_at (block_bytes B (indirect n) s) (k - 10)
      else word_at (block_bytes B (second_level B n s ((k - 1034) div 1024)) s) ((k - 1034) mod 1024))"

text \<open>The index blocks are data blocks of the card and all different.\<close>

definition index_ok :: "'d sdcard \<Rightarrow> inode_t \<Rightarrow> ('d, 'a) fsys_scheme \<Rightarrow> bool" where
  "index_ok B n s \<longleftrightarrow> wf_inode n \<and>
     data_block (indirect n) \<and> data_block (double_indirect n) \<and> indirect n \<noteq> double_indirect n \<and>
     list_all (\<lambda>i. data_block (second_level B n s i) \<and> second_level B n s i \<noteq> indirect n
       \<and> second_level B n s i \<noteq> double_indirect n) [0..<1023] \<and>
     distinct (map (second_level B n s) [0..<1023])"

lemma blk_index:
  fixes off :: u32
  defines "k \<equiv> unat off div 4096"
  shows "uint (off div 4096) = int k" "k < 1048576"
proof -
  show "uint (off div 4096) = int k" by (simp add: k_def uint_div_distrib zdiv_int)
  have "unat off < 2 ^ 32" using unsigned_less [of off, where ?'a = nat] by simp
  then show "k < 1048576" by (auto simp: k_def)
qed

lemma buf_word_ok: "i < 1024 \<Longrightarrow> length buf = 4096 \<Longrightarrow> buf_word (int i) buf = Some (word_at buf i)"
  by (simp add: buf_word_def word_at_def)

lemma set_buf_word_ok:
  "i < 1024 \<Longrightarrow> length buf = 4096 \<Longrightarrow> set_buf_word (int i) w buf = Some (splice_at (4 * i) (le_put 4 w) buf)"
  by (simp add: set_buf_word_def)

lemma word_at_splice:
  assumes "i < 1024" "j < 1024" "length buf = 4096"
  shows "word_at (splice_at (4 * i) (le_put 4 w) buf) j = (if j = i then w else word_at buf j)"
proof (cases "j = i")
  case True
  then show ?thesis using slice_splice_same [of "4 * i" "le_put 4 w" buf] assms by (simp add: word_at_def le_get_put)
next
  case False
  then have "4 * j + 4 \<le> 4 * i \<or> 4 * i + 4 \<le> 4 * j" by auto
  then show ?thesis using False assms by (simp add: word_at_def slice_splice_other)
qed

text \<open>The three regions of block indices, as the code distinguishes them.\<close>

lemma offset_to_blk_spec:
  fixes s :: "('d, 'a) fsys_scheme"
  assumes ok: "sd_card_ok B" and wf: "wf_inode n"
  shows "\<exists>t. offset_to_blk B off n s = Some (file_block B n s (unat off div 4096), s\<lparr>block_buf := t\<rparr>) \<and>
    (t = block_buf s \<or> length t = 4096)"
proof -
  let ?k = "unat off div 4096"
  note k = blk_index [of off]
  consider "?k < 10" | "10 \<le> ?k" "?k < 1034" | "1034 \<le> ?k" by linarith
  then show ?thesis
  proof cases
    case 1
    then show ?thesis using wf
      by (intro exI [of _ "block_buf s"])
        (simp add: offset_to_blk_def k file_block_def NDIRECT_BLOCKS_def wf_inode_def)
  next
    case 2
    then have "buf_word (int ?k - 10) (block_bytes B (indirect n) s)
        = Some (word_at (block_bytes B (indirect n) s) (?k - 10))"
      using buf_word_ok [of "?k - 10" "block_bytes B (indirect n) s"] ok by (simp add: of_nat_diff)
    then show ?thesis using 2 ok
      by (intro exI [of _ "block_bytes B (indirect n) s"])
        (simp add: offset_to_blk_def k file_block_def NDIRECT_BLOCKS_def NINDIRECT_BLOCKS_def
          read_block_def block_bytes_def [symmetric])
  next
    case 3
    let ?q = "?k - 1034"
    have i: "(int ?k - 1034) div 1024 = int (?q div 1024)" "(int ?k - 1034) mod 1024 = int (?q mod 1024)"
      using 3 by (simp_all add: of_nat_diff zdiv_int zmod_int)
    have b: "?q div 1024 < 1024" "?q mod 1024 < 1024" using k(2) by auto
    have r: "block_bytes B b (read_block B c s) = block_bytes B b s" for b c
      by (simp add: block_bytes_def block_sector_def)
    show ?thesis using 3 ok b
      by (intro exI [of _ "block_bytes B (second_level B n s (?q div 1024)) s"])
        (simp add: offset_to_blk_def k i file_block_def NDIRECT_BLOCKS_def NINDIRECT_BLOCKS_def buf_word_ok r
          second_level_def Let_def, simp add: read_block_def block_bytes_def block_sector_def)
  qed
qed

text \<open>
  C34: Every file offset leads to a block number without leaving a buffer. For each of the \<open>2\<^sup>3\<^sup>2\<close>
  offsets \<^verbatim>\<open>offset_to_blk\<close> stays inside \<^verbatim>\<open>direct\<close> and inside the 1024 entries of the index blocks; it
  returns the entry of the index tree for block \<open>offset / 4096\<close> and changes only \<^verbatim>\<open>block_buf\<close>.
\<close>

theorem offset_to_blk_in_bounds:
  fixes s :: "('d, 'a) fsys_scheme"
  assumes "sd_card_ok B" "wf_inode n"
  shows "\<exists>t. offset_to_blk B off n s = Some (file_block B n s (unat off div 4096), s\<lparr>block_buf := t\<rparr>) \<and>
    (t = block_buf s \<or> length t = 4096)"
  using offset_to_blk_spec [OF assms] .

lemma second_level_write_other:
  assumes "sd_card_ok B" "mounted s" "data_block b" "data_block (double_indirect n)" "b \<noteq> double_indirect n"
  shows "second_level B n (write_block B b s) i = second_level B n s i"
  using block_bytes_write_other [OF assms(1,2,4,3)] assms(5) by (simp add: second_level_def)

lemma block_bytes_buf [simp]: "block_bytes B b (s\<lparr>block_buf := t\<rparr>) = block_bytes B b s"
  by (simp add: block_bytes_def block_sector_def)

lemma second_level_buf [simp]: "second_level B n (s\<lparr>block_buf := t\<rparr>) i = second_level B n s i"
  by (simp add: second_level_def)

lemma mounted_buf: "mounted s \<Longrightarrow> length t = 4096 \<Longrightarrow> mounted (s\<lparr>block_buf := t\<rparr>)"
  by (simp add: mounted_def)

text \<open>Changing one word of a block that is part of the index tree.\<close>

lemma poke_block:
  fixes w :: u32
  assumes "sd_card_ok B" "mounted s" "data_block b" "i < 1024"
  defines "t \<equiv> write_block B b (s\<lparr>block_buf := splice_at (4 * i) (le_put 4 w) (block_bytes B b s)\<rparr>)"
  shows "j < 1024 \<Longrightarrow> word_at (block_bytes B b t) j = (if j = i then w else word_at (block_bytes B b s) j)"
    and "data_block c \<Longrightarrow> c \<noteq> b \<Longrightarrow> block_bytes B c t = block_bytes B c s"
    and "mounted t"
proof -
  let ?s = "s\<lparr>block_buf := splice_at (4 * i) (le_put 4 w) (block_bytes B b s)\<rparr>"
  have l: "length (block_buf ?s) = 4096" using assms(1,4) by simp
  then have m: "mounted ?s" using assms(2) by (simp add: mounted_def)
  show "j < 1024 \<Longrightarrow> word_at (block_bytes B b t) j = (if j = i then w else word_at (block_bytes B b s) j)"
    using block_bytes_write_same [OF assms(1) l] word_at_splice [OF assms(4), of j] assms(1) by (simp add: t_def)
  show "data_block c \<Longrightarrow> c \<noteq> b \<Longrightarrow> block_bytes B c t = block_bytes B c s"
    using block_bytes_write_other [OF assms(1) m _ assms(3), of c] by (simp add: t_def)
  show "mounted t" using m by (simp add: t_def)
qed

lemma index_okD:
  assumes "index_ok B n s"
  shows "wf_inode n" "data_block (indirect n)" "data_block (double_indirect n)" "indirect n \<noteq> double_indirect n"
    "i < 1023 \<Longrightarrow> data_block (second_level B n s i)" "i < 1023 \<Longrightarrow> second_level B n s i \<noteq> indirect n"
    "i < 1023 \<Longrightarrow> second_level B n s i \<noteq> double_indirect n"
    "i < 1023 \<Longrightarrow> j < 1023 \<Longrightarrow> second_level B n s i = second_level B n s j \<longleftrightarrow> i = j"
  using assms nth_eq_iff_index_eq [of "map (second_level B n s) [0..<1023]" i j]
  by (auto simp: index_ok_def list_all_iff)

lemma set_block_indirect:
  fixes w :: u32
  assumes ok: "sd_card_ok B" and m: "mounted s" and ix: "index_ok B n s" and k: "10 \<le> k" "k < 1034"
  defines "t \<equiv> write_block B (indirect n) (s\<lparr>block_buf := splice_at (4 * (k - 10)) (le_put 4 w) (block_bytes B (indirect n) s)\<rparr>)"
  shows "j < 1048576 \<Longrightarrow> file_block B n t j = (if j = k then w else file_block B n s j)"
proof -
  note ix = index_okD [OF ix]
  have i: "k - 10 < 1024" using k by simp
  note p = poke_block [OF ok m ix(2) i, where w = w, folded t_def]
  have sl: "second_level B n t i = second_level B n s i" for i
    using p(2) [OF ix(3)] ix(4) by (simp add: second_level_def)
  have q: "(j - 1034) div 1024 < 1023" if "j < 1048576" for j :: nat using that by auto
  assume j: "j < 1048576"
  show "file_block B n t j = (if j = k then w else file_block B n s j)"
    using k p(1) [of "j - 10"] p(2) [OF ix(5) [OF q [OF j]] ix(6) [OF q [OF j]]] by (auto simp: file_block_def sl)
qed

lemma set_block_double:
  fixes w :: u32
  assumes ok: "sd_card_ok B" and m: "mounted s" and ix: "index_ok B n s" and k: "1034 \<le> k" "k < 1048576"
  defines "b \<equiv> second_level B n s ((k - 1034) div 1024)"
  defines "t \<equiv> write_block B b (s\<lparr>block_buf := splice_at (4 * ((k - 1034) mod 1024)) (le_put 4 w) (block_bytes B b s)\<rparr>)"
  shows "j < 1048576 \<Longrightarrow> file_block B n t j = (if j = k then w else file_block B n s j)"
proof -
  note ix = index_okD [OF ix]
  have q: "(j - 1034) div 1024 < 1023" if "j < 1048576" for j :: nat using that by auto
  have db: "data_block b" "b \<noteq> indirect n" "b \<noteq> double_indirect n"
    using ix(5,6,7) [OF q [OF k(2)]] by (simp_all add: b_def)
  have i: "(k - 1034) mod 1024 < 1024" by simp
  note p = poke_block [OF ok m db(1) i, where w = w, folded t_def]
  have sl: "second_level B n t i = second_level B n s i" for i
    using p(2) [OF ix(3)] db(3) by (simp add: second_level_def)
  assume j: "j < 1048576"
  consider "j < 10" | "10 \<le> j" "j < 1034" | "1034 \<le> j" by linarith
  then show "file_block B n t j = (if j = k then w else file_block B n s j)"
  proof cases
    case 3
    let ?c = "second_level B n s ((j - 1034) div 1024)"
    show ?thesis
    proof (cases "?c = b")
      case True
      then have "(j - 1034) div 1024 = (k - 1034) div 1024" using ix(8) q j k(2) by (simp add: b_def)
      then have "j = k \<longleftrightarrow> (j - 1034) mod 1024 = (k - 1034) mod 1024"
        using 3 k(1) by (metis div_mult_mod_eq le_add_diff_inverse2)
      then show ?thesis using 3 k True p(1) [of "(j - 1034) mod 1024"] by (simp add: file_block_def sl)
    next
      case False
      then have "j \<noteq> k" by (auto simp: b_def)
      then show ?thesis using 3 k False p(2) [OF ix(5), OF q, OF j] by (simp add: file_block_def sl)
    qed
  qed (use k p(2) [OF ix(2)] db(2) in \<open>auto simp: file_block_def\<close>)
qed

lemma set_inode_blk_num_spec:
  fixes s :: "('d, 'a) fsys_scheme"
  assumes ok: "sd_card_ok B" and m: "mounted s" and ix: "index_ok B n s" and i: "inum_ok inum"
  shows "\<exists>n' s'. set_inode_blk_num B off w n inum s = Some (n', s') \<and> wf_inode n' \<and>
    (\<forall>j<1048576. file_block B n' s' j = (if j = unat off div 4096 then w else file_block B n s j))"
proof -
  let ?k = "unat off div 4096"
  note k = blk_index [of off]
  note wf = index_okD(1) [OF ix]
  consider "?k < 10" | "10 \<le> ?k" "?k < 1034" | "1034 \<le> ?k" by linarith
  then show ?thesis
  proof cases
    case 1
    let ?n = "n\<lparr>direct := (direct n)[?k := w]\<rparr>"
    have wf': "wf_inode ?n" using wf by (simp add: wf_inode_def)
    obtain s' where s': "write_inode B inum ?n s = Some s'" using write_inode_eq [OF i] by blast
    have bb: "block_bytes B b s' = block_bytes B b s" if "data_block b" for b
      using write_inode_block_bytes [OF ok m i wf' that s'] .
    have "file_block B ?n s' j = (if j = ?k then w else file_block B n s j)" if "j < 1048576" for j
    proof -
      have "(j - 1034) div 1024 < 1023" using that by auto
      then show ?thesis using index_okD [OF ix] wf 1 bb
        by (auto simp: file_block_def second_level_def wf_inode_def NDIRECT_BLOCKS_def nth_list_update)
    qed
    then show ?thesis using 1 wf wf' s' by (simp add: set_inode_blk_num_def k NDIRECT_BLOCKS_def wf_inode_def)
  next
    case 2
    then have "set_buf_word (int ?k - 10) w (block_bytes B (indirect n) s)
        = Some (splice_at (4 * (?k - 10)) (le_put 4 w) (block_bytes B (indirect n) s))"
      using set_buf_word_ok [of "?k - 10" "block_bytes B (indirect n) s" w] ok by (simp add: of_nat_diff)
    then have "set_inode_blk_num B off w n inum s = Some (n, write_block B (indirect n)
        (s\<lparr>block_buf := splice_at (4 * (?k - 10)) (le_put 4 w) (block_bytes B (indirect n) s)\<rparr>))"
      using 2 by (simp add: set_inode_blk_num_def k NDIRECT_BLOCKS_def NINDIRECT_BLOCKS_def Let_def)
        (simp add: read_block_def)
    then show ?thesis using set_block_indirect [OF ok m ix 2] wf by auto
  next
    case 3
    let ?q = "?k - 1034" and ?b = "second_level B n s ((?k - 1034) div 1024)"
    have iq: "(int ?k - 1034) div 1024 = int (?q div 1024)" "(int ?k - 1034) mod 1024 = int (?q mod 1024)"
      using 3 by (simp_all add: of_nat_diff zdiv_int zmod_int)
    have b: "?q div 1024 < 1024" "?q mod 1024 < 1024" using k(2) by auto
    have r: "block_bytes B b (read_block B c s) = block_bytes B b s" for b c
      by (simp add: block_bytes_def block_sector_def)
    have "set_inode_blk_num B off w n inum s = Some (n, write_block B ?b
        (s\<lparr>block_buf := splice_at (4 * (?q mod 1024)) (le_put 4 w) (block_bytes B ?b s)\<rparr>))"
      using 3 ok b by (simp add: set_inode_blk_num_def k iq NDIRECT_BLOCKS_def NINDIRECT_BLOCKS_def Let_def
          buf_word_ok set_buf_word_ok r second_level_def) (simp add: read_block_def)
    then show ?thesis using set_block_double [OF ok m ix 3 k(2)] wf by auto
  qed
qed


text \<open>
  A file that grows past its direct blocks uses the superblock as its indirect block. No code
  allocates \<^verbatim>\<open>indirect\<close>; while it is 0, \<^verbatim>\<open>offset_to_blk\<close> of offset 40960 reads block 0 of the file
  system and returns its first word, which is the magic number of the superblock on disk.
\<close>

theorem unallocated_indirect_reads_superblock:
  assumes "sd_card_ok B" "mounted s" "wf_inode n" "indirect n = 0"
    "rd_sector B FS_START_SECTOR s = superblock_bytes mkfs_superblock @ replicate 480 0"
  shows "\<exists>t. offset_to_blk B 40960 n s = Some (SUPERBLOCK_MAGIC, t)"
proof -
  have "block_bytes B 0 s = rd_sector B (block_sector s 0) s
      @ concat (map (\<lambda>i. rd_sector B (block_sector s 0 + of_nat i) s) [1..<8])"
    unfolding block_bytes_concat [OF assms(1)] by (simp add: upt_conv_Cons)
  moreover have "block_sector s 0 = FS_START_SECTOR" using assms(2) by (simp add: block_sector_def mounted_def mkfs_superblock_def)
  ultimately have "word_at (block_bytes B 0 s) 0 = SUPERBLOCK_MAGIC"
    using assms(5) by (simp add: word_at_def superblock_bytes_def slice_def le_get_put mkfs_superblock_def)
  then have "file_block B n s 10 = SUPERBLOCK_MAGIC" using assms(4) by (simp add: file_block_def)
  then show ?thesis using offset_to_blk_spec [OF assms(1,3), of 40960 s] by auto
qed

section \<open>Descriptors and seeking\<close>

lemma get_set_fd:
  "get_fd fd s = Some f0 \<Longrightarrow> get_fd g (set_fd fd f s) = (if g = fd then Some f else get_fd g s)"
  by (auto simp: get_fd_def set_fd_def nth_list_update nat_eq_iff split: if_splits)

lemma set_fd_fields [simp]:
  "superblock (set_fd fd f s) = superblock s" "block_buf (set_fd fd f s) = block_buf s" "sd (set_fd fd f s) = sd s"
  "cwd (set_fd fd f s) = cwd s" "length (fdesc_array (set_fd fd f s)) = length (fdesc_array s)"
  by (simp_all add: set_fd_def cwd_def)

lemma set_fd_disk [simp]:
  "rd_sector B k (set_fd fd f s) = rd_sector B k s" "block_bytes B b (set_fd fd f s) = block_bytes B b s"
  "read_inode B i (set_fd fd f s) = read_inode B i s" "mounted (set_fd fd f s) = mounted s"
  "file_block B n (set_fd fd f s) j = file_block B n s j"
  by (simp_all add: rd_sector_def block_bytes_def block_sector_def read_inode_def inode_sector_def mounted_def
      file_block_def second_level_def)

text \<open>The position a seek is relative to, and the reference: clamp to the file.\<close>

definition seek_base :: "int \<Rightarrow> int \<Rightarrow> int \<Rightarrow> int" where
  "seek_base cur fsize whence = (if whence = SEEK_SET then 0 else if whence = SEEK_CUR then cur else fsize)"

lemma seek_result_clamp:
  assumes "0 \<le> cur" "cur \<le> fsize" "fsize < 2147483648" "- 2147483648 \<le> offset" "offset < 2147483648"
    "whence \<in> {SEEK_SET, SEEK_CUR, SEEK_END}" "whence = SEEK_CUR \<Longrightarrow> offset + cur < 2147483648"
  shows "seek_result offset cur fsize whence = Some (max 0 (min fsize (seek_base cur fsize whence + offset)))"
proof -
  have "s32 (offset + cur) = offset + cur" if "whence = SEEK_CUR"
    using assms(7) [OF that] assms(1-5) by simp
  moreover have "s32 (fsize + offset) = fsize + offset" if "offset < 0" using that assms(1-5) by simp
  ultimately show ?thesis using assms(1-6)
    by (auto simp: seek_result_def seek_base_def SEEK_SET_def SEEK_CUR_def SEEK_END_def)
qed

lemma sint_small: "uint (x::u32) < 2147483648 \<Longrightarrow> sint x = uint x"
  using signed_take_bit_int_eq_self [of 31 "uint x"] unsigned_greater_eq [of x, where ?'a = int]
  by (simp add: sint_uint)

lemma sint_ucast_offset:
  assumes "uint (x::u64) < 2147483648"
  shows "sint (ucast x :: u32) = uint x"
proof -
  have "uint (ucast x :: u32) = uint x"
    using assms take_bit_int_eq_self [of "uint x" 32] unsigned_greater_eq [of x, where ?'a = int]
    by (simp add: unsigned_ucast_eq)
  then show ?thesis using sint_small [of "ucast x"] assms by simp
qed

lemma do_lseek_spec:
  assumes "get_fd fd s = Some f" "read_inode B (fd_inum f) s = Some n"
    "uint (fd_offset f) \<le> uint (i_size n)" "uint (i_size n) < 2147483648"
    "- 2147483648 \<le> offset" "offset < 2147483648" "whence \<in> {SEEK_SET, SEEK_CUR, SEEK_END}"
    "whence = SEEK_CUR \<Longrightarrow> offset + uint (fd_offset f) < 2147483648"
  defines "r \<equiv> max 0 (min (uint (i_size n)) (seek_base (uint (fd_offset f)) (uint (i_size n)) whence + offset))"
  shows "do_lseek B fd offset whence s = Some (r, set_fd fd (f\<lparr>fd_offset := of_int r\<rparr>) s)"
proof -
  have "sint (ucast (fd_offset f) :: u32) = uint (fd_offset f)" "sint (i_size n) = uint (i_size n)"
    using assms(3,4) by (simp_all add: sint_ucast_offset sint_small)
  then show ?thesis
    using seek_result_clamp [of "uint (fd_offset f)" "uint (i_size n)" offset whence] assms(1-8)
    by (simp add: do_lseek_def r_def)
qed

text \<open>
  Seeking clamps to the file. For a file smaller than 2 GiB and a position inside it, \<^verbatim>\<open>do_lseek\<close>
  moves the descriptor to the requested position relative to the start, the current position or the
  end, cut off at 0 and at the file size, and returns that position; no other descriptor changes.
\<close>

theorem do_lseek_clamps:
  assumes "get_fd fd s = Some f" "read_inode B (fd_inum f) s = Some n"
    "uint (fd_offset f) \<le> uint (i_size n)" "uint (i_size n) < 2147483648"
    "- 2147483648 \<le> offset" "offset < 2147483648" "whence \<in> {SEEK_SET, SEEK_CUR, SEEK_END}"
    "whence = SEEK_CUR \<Longrightarrow> offset + uint (fd_offset f) < 2147483648"
  shows "\<exists>r s'. do_lseek B fd offset whence s = Some (r, s') \<and> 0 \<le> r \<and> r \<le> uint (i_size n) \<and>
    r = max 0 (min (uint (i_size n)) (seek_base (uint (fd_offset f)) (uint (i_size n)) whence + offset)) \<and>
    get_fd fd s' = Some (f\<lparr>fd_offset := of_int r\<rparr>) \<and> (\<forall>g. g \<noteq> fd \<longrightarrow> get_fd g s' = get_fd g s)"
  using do_lseek_spec [OF assms] assms(1) by (auto simp: get_set_fd)

text \<open>
  C35: The open mode is enforced. After a successful \<^verbatim>\<open>do_fopen\<close> the descriptor refers to the inode the
  path names; if it was opened read-only, \<^verbatim>\<open>do_fwrite\<close> on it fails with -1 and leaves the card as it
  was, and if it was opened write-only, \<^verbatim>\<open>do_fread\<close> fails with -1 and leaves the caller's buffer as it was.
\<close>

theorem open_mode_enforced:
  assumes "parse_path B path (cwd s) s = Some (inum, s1)" "inum \<noteq> 0" "do_fopen B path mode s = Some (fd, s2)" "fd \<ge> 0"
  shows "\<exists>f. get_fd fd s2 = Some f \<and> fd_inum f = inum \<and>
    (mode = O_RDONLY \<longrightarrow> (\<exists>s3. do_fwrite B fd buff len s2 = Some (-1, s3) \<and> sd s3 = sd s1)) \<and>
    (mode = O_WRONLY \<longrightarrow> (\<exists>s3. do_fread B fd buff len s2 = Some (-1, buff, s3) \<and> sd s3 = sd s1))"
proof -
  obtain i where i: "find_index (\<lambda>f. fd_inum f = 0) (fdesc_array s1) = Some i" "fd = int i"
    "s2 = set_fd fd (open_mode mode ((fdesc_array s1 ! i)\<lparr>fd_inum := inum\<rparr>)) s1"
    using assms by (auto simp: do_fopen_def split: option.splits)
  have "i < length (fdesc_array s1)" using find_index_SomeD [OF i(1)] by simp
  then have g: "get_fd fd s2 = Some (open_mode mode ((fdesc_array s1 ! i)\<lparr>fd_inum := inum\<rparr>))"
    unfolding i(3) using i(2) by (subst get_set_fd) (auto simp: get_fd_def)
  have "fd_inum (open_mode mode ((fdesc_array s1 ! i)\<lparr>fd_inum := inum\<rparr>)) = inum" by (simp add: open_mode_def)
  moreover have "sd s2 = sd s1" by (simp add: i(3))
  ultimately show ?thesis using g
    by (auto simp: do_fwrite_def do_fread_def open_mode_def O_RDONLY_def O_WRONLY_def O_RDWR_def say_def)
qed

section \<open>Writing and reading inside a block\<close>

text \<open>A request of \<open>len\<close> bytes at \<open>off\<close> that stays inside one block.\<close>

definition in_block :: "u32 \<Rightarrow> int \<Rightarrow> bool" where
  "in_block off len \<longleftrightarrow> 0 < len \<and> int (unat off mod 4096) + len \<le> 4096"

lemma chunk_len_in_block: "in_block off len \<Longrightarrow> chunk_len off len = len"
proof -
  assume a: "in_block off len"
  have "uint (off mod 4096) = int (unat off mod 4096)" by (simp add: uint_mod_distrib zmod_int)
  then show ?thesis using a by (simp add: chunk_len_def in_block_def NBYTES_PER_BLOCK_def Let_def)
qed

lemma in_block_nat: "in_block off len \<Longrightarrow> unat off mod 4096 + nat len \<le> 4096"
  unfolding in_block_def by linarith

lemma unat_in_block: "unat (off mod 4096 :: u32) = unat off mod 4096"
  by (simp add: unat_mod_distrib)

lemma read_block_eq: "read_block B b s = s\<lparr>block_buf := block_bytes B b s\<rparr>"
  by (simp add: read_block_def block_bytes_def)

lemma fread_loop_one:
  fixes s :: "('d, 'a) fsys_scheme"
  assumes ok: "sd_card_ok B" and wf: "wf_inode n" and blk: "in_block off len" "nat len \<le> length buff"
  defines "b \<equiv> file_block B n s (unat off div 4096)"
  assumes b: "b \<noteq> 0"
  shows "\<exists>t. fread_loop B n off len 0 buff s =
    Some (len, slice (unat off mod 4096) (nat len) (block_bytes B b s) @ drop (nat len) buff, s\<lparr>block_buf := t\<rparr>)"
proof -
  obtain t where t: "offset_to_blk B off n s = Some (b, s\<lparr>block_buf := t\<rparr>)"
    using offset_to_blk_spec [OF ok wf, of off s] b_def by blast
  have len: "0 < len" "len \<le> 4096" "int (unat off mod 4096) + len \<le> 4096" using blk(1) by (auto simp: in_block_def)
  have m: "memcpy buff (drop (unat off mod 4096) (block_bytes B b s)) (nat len)
      = Some (slice (unat off mod 4096) (nat len) (block_bytes B b s) @ drop (nat len) buff)"
    using len blk(2) ok by (subst memcpy_take) (auto simp: slice_def)
  have z: "fread_loop B n off' 0 r bf s' = Some (r, bf, s')" for off' r bf and s' :: "('d, 'a) fsys_scheme"
    by (simp add: fread_loop.simps)
  show ?thesis
    using len b t m by (intro exI [of _ "block_bytes B b s"], subst fread_loop.simps)
      (simp add: chunk_len_in_block [OF blk(1)] unat_in_block z read_block_eq Let_def)
qed

lemma fwrite_loop_one:
  fixes s :: "('d, 'a) fsys_scheme"
  assumes ok: "sd_card_ok B" and wf: "wf_inode n" and blk: "in_block off len" "nat len \<le> length buff"
  defines "b \<equiv> file_block B n s (unat off div 4096)"
  assumes b: "b \<noteq> 0"
  shows "fwrite_loop B n inum off len buff s = Some (0, n,
    write_block B b (s\<lparr>block_buf := splice_at (unat off mod 4096) (take (nat len) buff) (block_bytes B b s)\<rparr>))"
proof -
  obtain t where t: "offset_to_blk B off n s = Some (b, s\<lparr>block_buf := t\<rparr>)"
    using offset_to_blk_spec [OF ok wf, of off s] b_def by blast
  have len: "0 < len" "len \<le> 4096" "int (unat off mod 4096) + len \<le> 4096" using blk(1) by (auto simp: in_block_def)
  have m: "memcpy (drop (unat off mod 4096) (block_bytes B b s)) buff (nat len)
      = Some (take (nat len) buff @ drop (nat len + unat off mod 4096) (block_bytes B b s))"
    using len blk(2) ok by (subst memcpy_take) auto
  have z: "fwrite_loop B n inum off' 0 bf s' = Some (0, n, s')" for off' bf and s' :: "('d, 'a) fsys_scheme"
    by (simp add: fwrite_loop.simps)
  have sp: "take (unat off mod 4096) (block_bytes B b s) @ take (nat len) buff
      @ drop (nat len + unat off mod 4096) (block_bytes B b s)
      = splice_at (unat off mod 4096) (take (nat len) buff) (block_bytes B b s)"
    using blk(2) by (simp add: splice_at_def min_def add.commute)
  show ?thesis
    using len b t m by (subst fwrite_loop.simps)
      (simp add: chunk_len_in_block [OF blk(1)] unat_in_block z read_block_eq Let_def sp)
qed

text \<open>
  The data block written is none of the blocks the index tree of the file goes through, which holds
  for a direct block in particular.
\<close>

definition leaf_block :: "'d sdcard \<Rightarrow> inode_t \<Rightarrow> ('d, 'a) fsys_scheme \<Rightarrow> nat \<Rightarrow> bool" where
  "leaf_block B n s k \<longleftrightarrow> (let b = file_block B n s k in data_block b \<and>
     (k < 10 \<or> index_ok B n s \<and> b \<noteq> indirect n \<and> b \<noteq> double_indirect n \<and>
        list_all (\<lambda>i. second_level B n s i \<noteq> b) [0..<1023]))"

lemma leaf_block_write:
  assumes ok: "sd_card_ok B" and m: "mounted s" and l: "leaf_block B n s k" "k < 1048576"
    and len: "length bs = 4096"
  shows "file_block B n (write_block B (file_block B n s k) (s\<lparr>block_buf := bs\<rparr>)) k = file_block B n s k"
proof -
  let ?b = "file_block B n s k" and ?s = "s\<lparr>block_buf := bs\<rparr>"
  have m': "mounted ?s" using m len by (simp add: mounted_def)
  have db: "data_block ?b" using l(1) by (simp add: leaf_block_def Let_def)
  have other: "block_bytes B c (write_block B ?b ?s) = block_bytes B c s" if "data_block c" "c \<noteq> ?b" for c
    using block_bytes_write_other [OF ok m' that(1) db that(2)] by simp
  show ?thesis
  proof (cases "k < 10")
    case True
    then show ?thesis by (simp add: file_block_def)
  next
    case False
    then have ix: "index_ok B n s" "?b \<noteq> indirect n" "?b \<noteq> double_indirect n" "\<forall>i<1023. second_level B n s i \<noteq> ?b"
      using l(1) by (auto simp: leaf_block_def Let_def list_all_iff)
    have sl: "second_level B n (write_block B ?b ?s) i = second_level B n s i" for i
      using other [OF index_okD(3) [OF ix(1)]] ix(3) by (simp add: second_level_def)
    have q: "(k - 1034) div 1024 < 1023" using l(2) by auto
    have "block_bytes B (indirect n) (write_block B ?b ?s) = block_bytes B (indirect n) s"
      using other [OF index_okD(2) [OF ix(1)]] ix(2) by simp
    moreover have "block_bytes B (second_level B n s ((k - 1034) div 1024)) (write_block B ?b ?s)
        = block_bytes B (second_level B n s ((k - 1034) div 1024)) s"
      using other [OF index_okD(5) [OF ix(1) q]] ix(4) q by simp
    ultimately show ?thesis by (simp add: file_block_def [of B n "write_block B ?b ?s"] sl) (simp add: file_block_def False)
  qed
qed

lemma file_block_cong:
  assumes "leaf_block B n s k" "k < 1048576" "\<And>c. data_block c \<Longrightarrow> block_bytes B c t = block_bytes B c s"
  shows "file_block B n t k = file_block B n s k"
proof (cases "k < 10")
  case True
  then show ?thesis by (simp add: file_block_def)
next
  case False
  then have ix: "index_ok B n s" using assms(1) by (auto simp: leaf_block_def Let_def)
  have "(k - 1034) div 1024 < 1023" using assms(2) by auto
  then show ?thesis using index_okD [OF ix] assms(3) by (simp add: file_block_def second_level_def)
qed

lemma file_block_size [simp]:
  "file_block B (n\<lparr>i_size := x\<rparr>) s k = file_block B n s k"
  "leaf_block B (n\<lparr>i_size := x\<rparr>) s k = leaf_block B n s k" "wf_inode (n\<lparr>i_size := x\<rparr>) = wf_inode n"
proof -
  have "second_level B (n\<lparr>i_size := x\<rparr>) s = second_level B n s" by (simp add: second_level_def fun_eq_iff)
  then show "file_block B (n\<lparr>i_size := x\<rparr>) s k = file_block B n s k"
    "leaf_block B (n\<lparr>i_size := x\<rparr>) s k = leaf_block B n s k" "wf_inode (n\<lparr>i_size := x\<rparr>) = wf_inode n"
    by (simp_all add: file_block_def leaf_block_def index_ok_def wf_inode_def)
qed

lemma leaf_block_set_fd [simp]: "leaf_block B n (set_fd fd f s) k = leaf_block B n s k"
proof -
  have "second_level B n (set_fd fd f s) = second_level B n s" by (simp add: second_level_def fun_eq_iff)
  then show ?thesis by (simp add: leaf_block_def index_ok_def)
qed

lemma write_inode_fields:
  assumes "write_inode B i n s = Some s'"
  shows "fdesc_array s' = fdesc_array s" "mounted s' = mounted s" "get_fd fd s' = get_fd fd s" "cwd s' = cwd s"
proof -
  obtain k bs where "s' = wr_sector B k bs s"
    using assms by (auto simp: write_inode_def Let_def split: bind_splits)
  then show "fdesc_array s' = fdesc_array s" "mounted s' = mounted s" "get_fd fd s' = get_fd fd s" "cwd s' = cwd s"
    by (simp_all add: get_fd_def)
qed

text \<open>A write of \<open>len\<close> bytes inside one allocated block, with the new size \<open>n1\<close> of the file.\<close>

lemma do_fwrite_one:
  fixes s :: "('d, 'a) fsys_scheme"
  assumes ok: "sd_card_ok B" and m: "mounted s" and f: "get_fd fd s = Some f" "fd_write f" "inum_ok (fd_inum f)"
    and n: "read_inode B (fd_inum f) s = Some n"
    and blk: "in_block (ucast (fd_offset f)) len" "nat len \<le> length buff"
    and leaf: "leaf_block B n s (unat (ucast (fd_offset f) :: u32) div 4096)"
  defines "off \<equiv> (ucast (fd_offset f) :: u32)"
  defines "n1 \<equiv> (if off + of_int len > i_size n then n\<lparr>i_size := off + of_int len\<rparr> else n)"
  defines "b \<equiv> file_block B n s (unat off div 4096)"
  shows "\<exists>s'. do_fwrite B fd buff len s = Some (0, s') \<and> read_inode B (fd_inum f) s' = Some n1 \<and>
    get_fd fd s' = Some (f\<lparr>fd_offset := ucast (off + of_int len)\<rparr>) \<and> mounted s' \<and>
    file_block B n1 s' (unat off div 4096) = b \<and> b \<noteq> 0 \<and> wf_inode n1 \<and>
    block_bytes B b s' = splice_at (unat off mod 4096) (take (nat len) buff) (block_bytes B b s)"
proof -
  let ?k = "unat off div 4096"
  let ?s1 = "set_fd fd (f\<lparr>fd_offset := ucast (off + of_int len)\<rparr>) s"
  let ?bs = "splice_at (unat off mod 4096) (take (nat len) buff) (block_bytes B b s)"
  let ?s2 = "write_block B b (?s1\<lparr>block_buf := ?bs\<rparr>)"
  have k: "?k < 1048576" by (rule blk_index(2))
  have wf: "wf_inode n" using n f(3) by (auto simp: read_inode_eq)
  have n1: "n1 = n \<or> n1 = n\<lparr>i_size := off + of_int len\<rparr>" by (simp add: n1_def)
  have wf1: "wf_inode n1" and fb1: "file_block B n1 t j = file_block B n t j" and lf1: "leaf_block B n1 t j = leaf_block B n t j"
    for t :: "('d, 'a) fsys_scheme" and j using n1 wf by auto
  have db: "data_block b" using leaf by (simp add: leaf_block_def Let_def b_def off_def)
  then have b0: "b \<noteq> 0" by (auto simp: data_block_def)
  have lb: "length ?bs = 4096" using in_block_nat [OF blk(1)] blk(2) ok by (simp add: off_def)
  have m2: "mounted (?s1\<lparr>block_buf := ?bs\<rparr>)" using m lb by (simp add: mounted_def)
  have loop: "fwrite_loop B n1 (fd_inum f) off len buff ?s1 = Some (0, n1, ?s2)"
    using fwrite_loop_one [OF ok wf1 blk(1) [folded off_def] blk(2), of ?s1 "fd_inum f"] b0
    by (simp add: fb1 flip: b_def)
  have "file_block B n1 ?s2 ?k = b"
    using leaf_block_write [OF ok, of ?s1 n1 ?k ?bs] m leaf k lb by (simp add: fb1 lf1 b_def off_def)
  have same: "block_bytes B b ?s2 = ?bs" using block_bytes_write_same [OF ok, of "?s1\<lparr>block_buf := ?bs\<rparr>"] lb by simp
  obtain s3 where s3: "write_inode B (fd_inum f) n1 ?s2 = Some s3" using write_inode_eq [OF f(3)] by blast
  have bb: "block_bytes B c s3 = block_bytes B c ?s2" if "data_block c" for c
    using write_inode_block_bytes [OF ok _ f(3) wf1 that s3] m2 by simp
  have g: "get_fd fd ?s2 = Some (f\<lparr>fd_offset := ucast (off + of_int len)\<rparr>)"
    using get_set_fd [OF f(1), of fd "f\<lparr>fd_offset := ucast (off + of_int len)\<rparr>"] by (auto simp: get_fd_def split: if_splits)
  have "file_block B n1 s3 ?k = b"
  proof (cases "?k < 10")
    case True
    then show ?thesis using n1 by (auto simp: file_block_def b_def)
  next
    case False
    have leaf1: "leaf_block B n1 s ?k" using leaf lf1 by (simp add: off_def)
    then have ix: "index_ok B n1 s" "b \<noteq> indirect n1" "b \<noteq> double_indirect n1" "\<forall>i<1023. second_level B n1 s i \<noteq> b"
      using False by (auto simp: leaf_block_def Let_def list_all_iff fb1 b_def)
    have o: "block_bytes B c s3 = block_bytes B c s" if "data_block c" "c \<noteq> b" for c
      using bb [OF that(1)] block_bytes_write_other [OF ok m2 that(1) db that(2)] by simp
    have "(?k - 1034) div 1024 < 1023" using k by auto
    then have "file_block B n1 s3 ?k = file_block B n1 s ?k"
      using index_okD [OF ix(1)] ix(2-4) o by (simp add: file_block_def second_level_def)
    then show ?thesis by (simp add: fb1 b_def)
  qed
  moreover have "do_fwrite B fd buff len s = Some (0, s3)"
    using f n loop s3 by (simp add: do_fwrite_def Let_def flip: off_def n1_def)
  moreover have "read_inode B (fd_inum f) s3 = Some n1" using read_write_inode_same [OF ok f(3) wf1 s3] .
  ultimately show ?thesis using write_inode_fields [OF s3] g m2 bb [OF db] same wf1 b0 by auto
qed

lemma uint_write_end:
  assumes "uint (x::u64) + len < 2147483648" "0 \<le> len"
  shows "uint ((ucast x :: u32) + of_int len) = uint x + len" "uint (ucast ((ucast x :: u32) + of_int len) :: u64) = uint x + len"
proof -
  have pos: "0 \<le> uint x" by simp
  have b: "uint x < 4294967296" "len < 4294967296" "uint x + len < 4294967296" using assms pos by linarith+
  have u: "uint (ucast x :: u32) = uint x"
    using b(1) take_bit_int_eq_self [of "uint x" 32] by (simp add: unsigned_ucast_eq)
  have l: "uint (of_int len :: u32) = len"
    using b(2) assms(2) take_bit_int_eq_self [of len 32] by (simp add: uint_word_of_int_eq)
  show e: "uint ((ucast x :: u32) + of_int len) = uint x + len"
    unfolding uint_word_ariths(1) u l using assms(2) b(3) by simp
  show "uint (ucast ((ucast x :: u32) + of_int len) :: u64) = uint x + len"
    unfolding unsigned_ucast_eq e using assms(2) b(3) take_bit_int_eq_self [of "uint x + len" 64] by simp
qed

text \<open>
  C29: What is written to a file is read back. Let a descriptor be open for reading and writing, its
  position inside a block of the file that is allocated, and \<open>len\<close> bytes from there still in that
  block. Then \<^verbatim>\<open>do_fwrite\<close> of \<open>len\<close> bytes, \<^verbatim>\<open>do_lseek\<close> back to the old position and \<^verbatim>\<open>do_fread\<close> of \<open>len\<close>
  bytes deliver exactly the bytes written, whether the block is direct or reached through index blocks.
\<close>

theorem fwrite_fread_round_trip:
  fixes s :: "('d, 'a) fsys_scheme"
  assumes "sd_card_ok B" "mounted s" "get_fd fd s = Some f" "fd_write f" "fd_read f" "inum_ok (fd_inum f)"
    "read_inode B (fd_inum f) s = Some n"
    "in_block (ucast (fd_offset f)) len" "nat len \<le> length buff" "nat len \<le> length buff2"
    "leaf_block B n s (unat (ucast (fd_offset f) :: u32) div 4096)"
    "uint (fd_offset f) + len < 2147483648" "uint (i_size n) < 2147483648"
  shows "\<exists>s1 s2 s3. do_fwrite B fd buff len s = Some (0, s1) \<and>
    do_lseek B fd (uint (fd_offset f)) SEEK_SET s1 = Some (uint (fd_offset f), s2) \<and>
    do_fread B fd buff2 len s2 = Some (len, take (nat len) buff @ drop (nat len) buff2, s3)"
proof -
  let ?off = "ucast (fd_offset f) :: u32" and ?o = "uint (fd_offset f)"
  let ?n = "if ?off + of_int len > i_size n then n\<lparr>i_size := ?off + of_int len\<rparr> else n"
  let ?b = "file_block B n s (unat ?off div 4096)"
  let ?f1 = "f\<lparr>fd_offset := ucast (?off + of_int len)\<rparr>"
  obtain s1 where s1: "do_fwrite B fd buff len s = Some (0, s1)" "read_inode B (fd_inum f) s1 = Some ?n"
    "get_fd fd s1 = Some ?f1" "mounted s1" "file_block B ?n s1 (unat ?off div 4096) = ?b" "?b \<noteq> 0" "wf_inode ?n"
    "block_bytes B ?b s1 = splice_at (unat ?off mod 4096) (take (nat len) buff) (block_bytes B ?b s)"
    using do_fwrite_one [OF assms(1-4,6-9,11)] by blast
  have len: "0 < len" "int (unat ?off mod 4096) + len \<le> 4096" using assms(8) by (auto simp: in_block_def)
  note e = uint_write_end [OF assms(12)] and pos = unsigned_greater_eq [of "fd_offset f", where ?'a = int]
  have sz: "?o + len \<le> uint (i_size ?n)" "uint (i_size ?n) < 2147483648"
    using e(1) len assms(12,13) by (auto simp: word_less_def)
  let ?s2 = "set_fd fd (?f1\<lparr>fd_offset := of_int ?o\<rparr>) s1"
  have "do_lseek B fd ?o SEEK_SET s1 = Some (max 0 (min (uint (i_size ?n)) (0 + ?o)),
      set_fd fd (?f1\<lparr>fd_offset := of_int (max 0 (min (uint (i_size ?n)) (0 + ?o)))\<rparr>) s1)"
    using do_lseek_spec [OF s1(3), of B ?n ?o SEEK_SET] s1(2) sz e(2) len pos assms(12)
    by (simp add: seek_base_def SEEK_SET_def SEEK_CUR_def)
  moreover have "max 0 (min (uint (i_size ?n)) (0 + ?o)) = ?o" using sz len pos by simp
  ultimately have seek: "do_lseek B fd ?o SEEK_SET s1 = Some (?o, ?s2)" by (simp only:)
  have g2: "get_fd fd ?s2 = Some (f\<lparr>fd_offset := fd_offset f\<rparr>)" using get_set_fd [OF s1(3), of fd] by simp
  obtain t where t: "fread_loop B ?n ?off len 0 buff2 ?s2 =
    Some (len, slice (unat ?off mod 4096) (nat len) (block_bytes B ?b s1) @ drop (nat len) buff2, ?s2\<lparr>block_buf := t\<rparr>)"
    using fread_loop_one [OF assms(1) s1(7) assms(8,10), of ?s2] s1(5,6) by auto
  have "slice (unat ?off mod 4096) (nat len) (block_bytes B ?b s1) = take (nat len) buff"
    unfolding s1(8) using in_block_nat [OF assms(8)] assms(1,9) by (intro slice_splice_same) auto
  then have "\<exists>s3. do_fread B fd buff2 len ?s2 = Some (len, take (nat len) buff @ drop (nat len) buff2, s3)"
    using g2 t s1(2) assms(5) by (simp add: do_fread_def)
  then show ?thesis using s1(1) seek by blast
qed

section \<open>Instances\<close>

text \<open>A card with one file, inode 1, open as descriptor 0.\<close>

definition file_fd :: fdesc_t where
  "file_fd = \<lparr>fd_inum = 1, fd_read = True, fd_write = True, fd_offset = 0\<rparr>"

definition open_state :: "inode_t \<Rightarrow> (u32 \<Rightarrow> u8 list) fsys" where
  "open_state n = the (write_inode ram_card 1 n
     ((fs_boot (\<lambda>_. []))\<lparr>fdesc_array := (replicate 16 zero_fdesc)[0 := file_fd]\<rparr>))"

lemma open_state:
  assumes "wf_inode n"
  shows "mounted (open_state n)" "read_inode ram_card 1 (open_state n) = Some n" "get_fd 0 (open_state n) = Some file_fd"
proof -
  let ?s = "(fs_boot (\<lambda>_. []))\<lparr>fdesc_array := (replicate 16 zero_fdesc)[0 := file_fd]\<rparr>"
  have i: "inum_ok 1" by (simp add: inum_ok_def)
  then have w: "write_inode ram_card 1 n ?s = Some (open_state n)"
    unfolding open_state_def write_inode_eq [OF i] by simp
  have "mounted ?s" by (simp add: mounted_def NUM_FDESCS_def)
  then show "mounted (open_state n)" using write_inode_fields(2) [OF w] by simp
  show "read_inode ram_card 1 (open_state n) = Some n"
    by (rule read_write_inode_same [OF _ i assms w]) simp
  show "get_fd 0 (open_state n) = Some file_fd" using write_inode_fields(3) [OF w, of 0] by (simp add: get_fd_def)
qed

definition small_file :: inode_t where
  "small_file = zero_inode\<lparr>i_type := T_FILE, i_size := 10, direct := 100 # replicate 9 0\<rparr>"

lemma small_file: "wf_inode small_file" "leaf_block B small_file s 0" "uint (i_size small_file) = 10"
  by (simp_all add: small_file_def wf_inode_def NDIRECT_BLOCKS_def leaf_block_def file_block_def data_block_def)

theorem offset_to_blk_in_bounds_witness:
  "\<exists>r. offset_to_blk ram_card 0xffffffff zero_inode (fs_boot (\<lambda>_. [])) = Some r"
  using offset_to_blk_in_bounds [where off = "0xffffffff" and s = "fs_boot (\<lambda>_. [])", OF sd_card_ok_ram_card wf_zero_inode] by auto

theorem do_lseek_clamps_witness:
  "\<exists>s'. do_lseek ram_card 0 25 SEEK_CUR (open_state small_file) = Some (10, s')"
  using do_lseek_clamps [of 0 "open_state small_file" file_fd ram_card small_file 25 SEEK_CUR] open_state [OF small_file(1)]
  by (auto simp: file_fd_def seek_base_def SEEK_SET_def SEEK_CUR_def small_file_def)

theorem fwrite_fread_round_trip_witness:
  "\<exists>s1 s2 s3. do_fwrite ram_card 0 [1, 2, 3] 3 (open_state small_file) = Some (0, s1) \<and>
     do_lseek ram_card 0 0 SEEK_SET s1 = Some (0, s2) \<and> do_fread ram_card 0 [0, 0, 0, 9] 3 s2 = Some (3, [1, 2, 3, 9], s3)"
  using fwrite_fread_round_trip [of ram_card "open_state small_file" 0 file_fd small_file 3 "[1, 2, 3]" "[0, 0, 0, 9]"]
    open_state [OF small_file(1)] small_file(2) [of ram_card "open_state small_file"] small_file(3)
  by (simp add: file_fd_def inum_ok_def in_block_def)

theorem open_mode_enforced_witness:
  "\<exists>s2 s3. do_fopen ram_card [0] O_RDONLY (set_cwd 1 (fs_boot (\<lambda>_. []))) = Some (0, s2) \<and>
     do_fwrite ram_card 0 [7] 1 s2 = Some (-1, s3)"
proof -
  define s where "s = set_cwd 1 (fs_boot (\<lambda>_. []) :: (u32 \<Rightarrow> u8 list) fsys)"
  have p: "parse_path ram_card [0] (cwd s) s = Some (1, s)"
    by (simp add: s_def parse_path.simps cwd_def set_cwd_def upd_pcb_def)
  have "fdesc_array s = replicate 16 zero_fdesc" by (simp add: s_def set_cwd_def upd_pcb_def)
  then have "find_index (\<lambda>f. fd_inum f = 0) (fdesc_array s) = Some 0" by (simp add: zero_fdesc_def numeral_eq_Suc)
  then have "\<exists>s2. do_fopen ram_card [0] O_RDONLY s = Some (0, s2)" by (simp add: do_fopen_def p)
  then obtain s2 where s2: "do_fopen ram_card [0] O_RDONLY s = Some (0, s2)" by blast
  then show ?thesis using open_mode_enforced [OF p _ s2] by (auto simp: s_def)
qed

theorem unallocated_indirect_witness:
  "\<exists>t. offset_to_blk ram_card 40960 zero_inode
     (wr_sector ram_card FS_START_SECTOR (superblock_bytes mkfs_superblock @ replicate 480 0) (fs_boot (\<lambda>_. [])))
     = Some (SUPERBLOCK_MAGIC, t)"
  by (rule unallocated_indirect_reads_superblock)
    (simp_all add: rd_wr_sector zero_inode_def wf_inode_def NDIRECT_BLOCKS_def superblock_bytes_def)

text \<open>The index blocks of the test file that \<^verbatim>\<open>init_bigfile\<close> makes, with a full second level.\<close>

definition tree_file :: inode_t where
  "tree_file = zero_inode\<lparr>indirect := 82, double_indirect := 1107\<rparr>"

definition tree_words :: "u32 list" where
  "tree_words = map (\<lambda>i. of_nat (1108 + i)) [0..<1024]"

lemma tree_words: "length tree_words = 1024" "i < 1024 \<Longrightarrow> tree_words ! i = of_nat (1108 + i)"
  unfolding tree_words_def by (simp only: length_map length_upt) (simp only: nth_map length_upt nth_upt add_0 diff_zero)

definition tree_state :: "(u32 \<Rightarrow> u8 list) fsys" where
  "tree_state = write_block ram_card 1107 ((fs_boot (\<lambda>_. []))\<lparr>block_buf := put_array 4 tree_words\<rparr>)"

lemma tree_state_level:
  assumes "i < 1024" shows "second_level ram_card tree_file tree_state i = of_nat (1108 + i)"
proof -
  have "block_bytes ram_card 1107 tree_state = put_array 4 tree_words"
    unfolding tree_state_def by (subst block_bytes_write_same) (simp_all add: tree_words)
  then show ?thesis using assms tree_words
    by (simp add: second_level_def tree_file_def word_at_def slice_put_array le_get_put del: of_nat_add)
qed

lemma unat_level: "i < 1024 \<Longrightarrow> unat (of_nat (1108 + i) :: u32) = 1108 + i"
  by (subst unat_of_nat) simp

lemma tree_state_ok: "index_ok ram_card tree_file tree_state"
proof -
  have "inj_on (second_level ram_card tree_file tree_state) {0..<1023}"
  proof (rule inj_onI)
    fix i j assume a: "i \<in> {0..<1023}" "j \<in> {0..<1023}"
      "second_level ram_card tree_file tree_state i = second_level ram_card tree_file tree_state j"
    then have e: "(of_nat (1108 + i) :: u32) = of_nat (1108 + j)" by (simp add: tree_state_level)
    have "i < 1024" "j < 1024" using a(1,2) by auto
    then have "1108 + i = 1108 + j" using e unat_level [of i] unat_level [of j] by metis
    then show "i = j" by simp
  qed
  moreover have "data_block (second_level ram_card tree_file tree_state i) \<and>
      second_level ram_card tree_file tree_state i \<noteq> indirect tree_file \<and>
      second_level ram_card tree_file tree_state i \<noteq> double_indirect tree_file" if "i < 1023" for i
  proof -
    let ?x = "second_level ram_card tree_file tree_state i"
    have u: "unat ?x = 1108 + i" using that tree_state_level [of i] unat_level [of i] by simp
    have "unat (82::u32) = 82" "unat (1107::u32) = 1107" by simp_all
    then have "?x \<noteq> 82" "?x \<noteq> 1107" using u by auto
    then show ?thesis using u that by (simp add: data_block_def tree_file_def)
  qed
  ultimately show ?thesis
    by (auto simp: index_ok_def list_all_iff distinct_map tree_file_def wf_inode_def NDIRECT_BLOCKS_def
        zero_inode_def data_block_def)
qed


end
