(* ===== verification/FS_Dirs.thy ===== *)
theory FS_Dirs
  imports FS_Access
begin

text \<open>
  Directories as lists of named entries: a file that \<^verbatim>\<open>do_touch\<close> creates is found by \<^verbatim>\<open>parse_path\<close>,
  and the error paths of the directory operations change nothing on the card.
\<close>

section \<open>Entries of a block\<close>

lemma strcmp_prefix:
  assumes "chars name" "take (length name + 1) xs = take (length name + 1) ys"
    "length name < length xs" "length name < length ys"
  shows "strcmp xs (name @ 0 # r) = strcmp ys (name @ 0 # r)"
  using assms
proof (induction name arbitrary: xs ys)
  case Nil
  then show ?case by (cases xs; cases ys) auto
next
  case (Cons c name)
  obtain x xs' y ys' where xy: "xs = x # xs'" "ys = y # ys'" using Cons.prems(3,4) by (metis list.size(3) not_less_zero neq_Nil_conv)
  then have "strcmp xs' (name @ 0 # r) = strcmp ys' (name @ 0 # r)" "x = y"
    using Cons.prems by (auto intro: Cons.IH)
  then show ?case by (simp add: xy)
qed

lemma take_eq_mono: "m \<le> n \<Longrightarrow> take n xs = take n ys \<Longrightarrow> take m xs = take m ys"
  by (metis min.absorb1 take_take)

lemma slice_take: "off + n \<le> m \<Longrightarrow> slice off n (take m xs) = slice off n xs"
  by (simp add: slice_def drop_take min_def)

text \<open>An entry is determined by its 36 bytes.\<close>

lemma match_entry_cong:
  assumes c: "chars name" "length name \<le> 26" and t: "take (36 * i + 36) a = take (36 * i + 36) b"
    and l: "36 * i + 36 \<le> length a" "36 * i + 36 \<le> length b"
  shows "match_entry (name @ 0 # r) i a = match_entry (name @ 0 # r) i b"
proof -
  have v: "a ! (36 * i) = b ! (36 * i)" using t by (metis less_add_same_cancel1 nth_take zero_less_numeral)
  have n: "slice (36 * i + 4) 4 a = slice (36 * i + 4) 4 b" using t slice_take [of "36 * i + 4" 4 "36 * i + 36" a] slice_take [of "36 * i + 4" 4 "36 * i + 36" b] by simp
  have "take (length name + 1) (d_name i a) = slice (36 * i + 8) (length name + 1) (take (36 * i + 36) a)"
    "take (length name + 1) (d_name i b) = slice (36 * i + 8) (length name + 1) (take (36 * i + 36) b)"
    using c(2) by (simp_all add: d_name_def slice_def drop_take min_def)
  then have e1: "strcmp (d_name i a) (name @ 0 # r) = strcmp (d_name i b) (name @ 0 # r)"
    using c l t by (intro strcmp_prefix) (auto simp: d_name_def)
  have e2: "d_valid i a = d_valid i b" "d_inum i a = d_inum i b" using l v n by (simp_all add: d_valid_def d_inum_def)
  show ?thesis unfolding match_entry_def e1 e2 by (rule refl)
qed

lemma scan_dentries_append:
  "(\<And>i. i \<in> set is \<Longrightarrow> f i buf = Some Continue) \<Longrightarrow> scan_dentries f (is @ js) buf = scan_dentries f js buf"
  by (induction "is") auto

lemma scan_dentries_StopD:
  assumes "scan_dentries f [m..<n] buf = Some (Stop r)"
  shows "\<exists>j\<ge>m. j < n \<and> f j buf = Some (Stop r) \<and> (\<forall>i. m \<le> i \<and> i < j \<longrightarrow> f i buf = Some Continue)"
  using assms
proof (induction "n - m" arbitrary: m)
  case 0
  then show ?case by simp
next
  case (Suc x)
  then have u: "[m..<n] = m # [Suc m..<n]" by (simp add: upt_conv_Cons)
  show ?case
  proof (cases "f m buf = Some (Stop r)")
    case True
    then show ?thesis using Suc(2) by (intro exI [of _ m]) auto
  next
    case False
    then have c: "f m buf = Some Continue" "scan_dentries f [Suc m..<n] buf = Some (Stop r)"
      using Suc(3) by (auto simp: u split: option.splits scan.splits)
    obtain j where j: "Suc m \<le> j" "j < n" "f j buf = Some (Stop r)" "\<forall>i. Suc m \<le> i \<and> i < j \<longrightarrow> f i buf = Some Continue"
      using Suc(1) [OF _ c(2)] Suc(2) by (metis Suc_diff_Suc Suc_inject diff_Suc_Suc zero_less_Suc zero_less_diff)
    have "f i buf = Some Continue" if "m \<le> i" "i < j" for i
      using c(1) j(4) that by (cases "i = m") auto
    then show ?thesis using j(1-3) by (intro exI [of _ j]) auto
  qed
qed

lemma scan_dentries_found:
  assumes "j < n" "f j buf = Some (Stop r)" "\<And>i. i < j \<Longrightarrow> f i buf = Some Continue"
  shows "scan_dentries f [0..<n] buf = Some (Stop r)"
proof -
  have "[0..<n] = [0..<j] @ j # [Suc j..<n]" using assms(1) upt_add_eq_append [of 0 j "n - j"] by (simp add: upt_conv_Cons)
  then show ?thesis using assms(2) scan_dentries_append [of "[0..<j]" f buf "j # [Suc j..<n]"] assms(3) by simp
qed

lemma first_free_eqI:
  assumes "d_inum j buf = Some 0" "\<And>i. m \<le> i \<Longrightarrow> i < j \<Longrightarrow> \<exists>x. d_inum i buf = Some x \<and> x \<noteq> 0" "m \<le> j"
  shows "first_free m buf = Some j"
  using assms
proof (induction "j - m" arbitrary: m)
  case 0
  then show ?case by (subst first_free.simps) simp
next
  case (Suc x)
  obtain y where "d_inum m buf = Some y" "y \<noteq> 0" using Suc(2) Suc(4) [of m] by (metis le_refl zero_less_Suc zero_less_diff)
  moreover have "first_free (Suc m) buf = Some j" using Suc(2-5) by (intro Suc(1)) auto
  ultimately show ?case by (subst first_free.simps) simp
qed

lemma match_entry_Continue: "match_entry name i buf = Some Continue \<Longrightarrow> \<exists>x. d_inum i buf = Some x \<and> x \<noteq> 0"
  by (auto simp: match_entry_def split: bind_splits if_splits)

lemma match_entry_Stop_None: "match_entry name i buf = Some (Stop None) \<Longrightarrow> d_inum i buf = Some 0"
  by (auto simp: match_entry_def split: bind_splits if_splits)

text \<open>Filling entry \<open>j\<close> with a number and a name, in the order of \<^verbatim>\<open>do_mkdir\<close> and \<^verbatim>\<open>do_touch\<close>.\<close>

lemma fill_entry:
  assumes len: "length buf = 4096" and j: "36 * j + 8 \<le> 4096" and c: "chars name" "length name \<le> 14"
  obtains b1 b2 b3 where "set_d_inum j v buf = Some b1" "set_d_valid j 1 b1 = Some b2" "set_d_name j (name @ 0 # r) b2 = Some b3"
    "length b3 = 4096" "take (36 * j) b3 = take (36 * j) buf" "match_entry (name @ 0 # r) j b3 = Some (Stop (Some j))"
    "d_inum j b3 = Some v"
proof -
  define b1 where "b1 = splice_at (36 * j + 4) (le_put 4 v) buf"
  define b2 where "b2 = b1[36 * j := 1]"
  define b3 where "b3 = take (36 * j + 8) b2 @ name @ 0 # drop (Suc (length name)) (drop (36 * j + 8) b2)"
  have jj: "36 * j + 8 + 14 < 4096" using j by presburger
  have l: "length b1 = 4096" "length b2 = 4096" "length b3 = 4096" using len j jj c by (simp_all add: b1_def b2_def b3_def)
  have s1: "set_d_inum j v buf = Some b1" using j len by (simp add: set_d_inum_def b1_def)
  have s2: "set_d_valid j 1 b1 = Some b2" using j l by (simp add: set_d_valid_def b2_def)
  have "strcpy (drop (36 * j + 8) b2) (name @ 0 # r) = Some (name @ 0 # drop (Suc (length name)) (drop (36 * j + 8) b2))"
    using c l jj by (intro strcpy_fits) auto
  then have s3: "set_d_name j (name @ 0 # r) b2 = Some b3" by (simp add: set_d_name_def b3_def)
  have t: "take (36 * j) b3 = take (36 * j) buf"
    using j len by (simp add: b3_def b2_def b1_def splice_at_def min_def)
  have dn: "d_name j b3 = name @ 0 # drop (Suc (length name)) (drop (36 * j + 8) b2)" using l j by (simp add: d_name_def b3_def)
  have dv: "d_valid j b3 = Some True" using l j by (simp add: d_valid_def b3_def b2_def nth_append)
  have di: "d_inum j b3 = Some v"
  proof -
    have "slice (36 * j + 4) 4 b3 = slice (36 * j + 4) 4 b1"
      using l j by (simp add: slice_def b3_def b2_def drop_take drop_update_swap)
    also have "\<dots> = le_put 4 v" unfolding b1_def using len j by (intro slice_splice_same) auto
    finally show ?thesis using l j by (simp add: d_inum_def le_get_put)
  qed
  have "strcmp (d_name j b3) (name @ 0 # r) = Some 0" using c(1) unfolding dn by simp
  then have "match_entry (name @ 0 # r) j b3 = Some (Stop (Some j))" by (simp add: match_entry_def dv)
  then show thesis using that s1 s2 s3 l(3) t di by blast
qed

text \<open>Looking a name up in a directory whose first block holds it.\<close>

lemma scan_blocks_first:
  assumes "b \<noteq> 0" "scan_dentries (f 0) [0..<NDENTRIES_PER_BLOCK] (block_bytes B b s) = Some (Stop r)"
  shows "scan_blocks B f 0 (b # bs) bn s = Some (Stop r, b, read_block B b s)"
  using assms by (simp add: Let_def)

lemma parse_path_last: "p \<noteq> [] \<Longrightarrow> hd p = 0 \<Longrightarrow> parse_path B p i s = Some (i, s)"
  by (simp add: parse_path.simps)

lemma next_part_name:
  assumes "chars name" "0x2f \<notin> set name" "length name \<le> 14"
  obtains copy where "strcpy (replicate 16 0) (name @ 0 # r) = Some copy"
    "next_part copy = Some (replicate (15 - length name) 0)"
proof -
  let ?copy = "name @ 0 # replicate (15 - length name) (0::u8)"
  have c: "strcpy (replicate 16 0) (name @ 0 # r) = Some ?copy" using assms by (simp add: strcpy_fits Suc_diff_le)
  have "find_index (\<lambda>c. c = 0x2f \<or> c = 0) ?copy = Some (length name)"
    using assms nth_mem by (intro find_index_eqI) (fastforce simp: nth_append)+
  then have "next_part ?copy = Some (replicate (15 - length name) 0)" by (simp add: next_part_def)
  then show thesis using that c by blast
qed

section \<open>Creating a file\<close>

lemma read_inode_cong:
  "superblock t = superblock s \<Longrightarrow> rd_sector B (inode_sector i s) t = rd_sector B (inode_sector i s) s \<Longrightarrow>
   read_inode B i t = read_inode B i s"
  by (simp add: read_inode_def inode_sector_def)

lemma imap_sector_mounted: "mounted s \<Longrightarrow> imap_sector s = 0x100021"
  by (simp add: imap_sector_def mounted_def mkfs_superblock_def FS_START_SECTOR_def)

lemma read_inode_wr_imap:
  assumes "sd_card_ok B" "mounted s" "inum_ok i" "length ws = 64"
  shows "read_inode B i (wr_words B (imap_sector s) ws s) = read_inode B i s"
proof (rule read_inode_cong)
  have "unat (imap_sector s) \<noteq> unat (inode_sector i s)"
    using unat_inode_sector [OF assms(2,3)] imap_sector_mounted [OF assms(2)] by simp
  then have "inode_sector i s \<noteq> imap_sector s" by auto
  then show "rd_sector B (inode_sector i s) (wr_words B (imap_sector s) ws s) = rd_sector B (inode_sector i s) s"
    using assms(1,4) by (simp add: wr_words_def rd_wr_sector)
qed simp

lemma read_inode_write_data:
  assumes "sd_card_ok B" "mounted s" "data_block b" "inum_ok i"
  shows "read_inode B i (write_block B b s) = read_inode B i s"
  using rd_sector_write_meta [OF assms(1-3) inode_meta_sector [OF assms(2,4)]] by (intro read_inode_cong) simp_all

lemma get_ticks_fs [simp]:
  fixes s :: "('d, 'a) fsys_scheme"
  shows "superblock (snd (get_ticks s)) = superblock s" "block_buf (snd (get_ticks s)) = block_buf s"
    "sd (snd (get_ticks s)) = sd s" "cwd (snd (get_ticks s)) = cwd s" "fdesc_array (snd (get_ticks s)) = fdesc_array s"
  by (simp_all add: get_ticks_def Let_def cwd_def)

lemma same_disk:
  fixes s t :: "('d, 'a) fsys_scheme"
  assumes "sd t = sd s" "superblock t = superblock s"
  shows "read_inode B i t = read_inode B i s" "block_bytes B b t = block_bytes B b s" "imap_bit B t j = imap_bit B s j"
  using assms by (simp_all add: read_inode_def rd_sector_def inode_sector_def block_bytes_def block_sector_def
      imap_bit_def imap_sector_def rd_words_def)

text \<open>The entry \<^verbatim>\<open>append_dentry\<close> adds is the one the next search stops at.\<close>

lemma append_dentry_spec:
  fixes s :: "('d, 'a) fsys_scheme"
  assumes ok: "sd_card_ok B" and m: "mounted s" and b: "data_block b" and c: "chars name" "length name \<le> 14"
    and sc: "scan_dentries (match_entry (name @ 0 # r)) [0..<NDENTRIES_PER_BLOCK] (block_bytes B b s) = Some (Stop None)"
  obtains s' j where "append_dentry B b i (name @ 0 # r) s = Some s'" "mounted s'" "cwd s' = cwd s"
    "\<And>k. inum_ok k \<Longrightarrow> read_inode B k s' = read_inode B k s"
    "scan_dentries (match_entry (name @ 0 # r)) [0..<NDENTRIES_PER_BLOCK] (block_bytes B b s') = Some (Stop (Some j))"
    "d_inum j (block_bytes B b s') = Some (of_int i)"
proof -
  let ?buf = "block_bytes B b s" and ?p = "name @ 0 # r"
  obtain j where j: "j < NDENTRIES_PER_BLOCK" "match_entry ?p j ?buf = Some (Stop None)"
    "\<And>k. k < j \<Longrightarrow> match_entry ?p k ?buf = Some Continue"
    using scan_dentries_StopD [OF sc] by auto
  have d0: "d_inum j ?buf = Some 0" using match_entry_Stop_None [OF j(2)] .
  have len: "length ?buf = 4096" using ok by simp
  have j8: "36 * j + 8 \<le> 4096" using d0 len by (auto simp: d_inum_def split: if_splits)
  obtain b1 b2 b3 where b3: "set_d_inum j (of_int i) ?buf = Some b1" "set_d_valid j 1 b1 = Some b2" "set_d_name j ?p b2 = Some b3"
    "length b3 = 4096" "take (36 * j) b3 = take (36 * j) ?buf" "match_entry ?p j b3 = Some (Stop (Some j))"
    "d_inum j b3 = Some (of_int i)"
    using fill_entry [OF len j8 c] by blast
  have ff: "first_free 0 ?buf = Some j"
  proof (rule first_free_eqI [OF d0])
    show "\<exists>x. d_inum k ?buf = Some x \<and> x \<noteq> 0" if "0 \<le> k" "k < j" for k
      using match_entry_Continue [OF j(3) [OF that(2)]] .
  qed simp
  let ?s1 = "(read_block B b s)\<lparr>block_buf := b3\<rparr>"
  have m1: "mounted ?s1" using m b3(4) by (simp add: mounted_def)
  have a: "append_dentry B b i ?p s = Some (write_block B b ?s1)"
    using ff b3 by (simp add: append_dentry_def Let_def)
  have bb: "block_bytes B b (write_block B b ?s1) = b3" using block_bytes_write_same [OF ok, of ?s1] b3(4) by simp
  have "match_entry ?p k b3 = Some Continue" if "k < j" for k
  proof -
    have "36 * k + 36 \<le> 36 * j" using slice_array_bound [OF that, of 36] by simp
    then have "take (36 * k + 36) b3 = take (36 * k + 36) ?buf" using b3(5) by (rule take_eq_mono)
    then have "match_entry ?p k b3 = match_entry ?p k ?buf"
      using c len b3(4) j8 \<open>36 * k + 36 \<le> 36 * j\<close> by (intro match_entry_cong) auto
    then show ?thesis using j(3) [OF that] by simp
  qed
  then have "scan_dentries (match_entry ?p) [0..<NDENTRIES_PER_BLOCK] b3 = Some (Stop (Some j))"
    using j(1) b3(6) by (intro scan_dentries_found) auto
  moreover have "read_inode B k (write_block B b ?s1) = read_inode B k s" if "inum_ok k" for k
    using read_inode_write_data [OF ok m1 b that] same_disk(1) [of ?s1 s B k] by simp
  moreover have "cwd (write_block B b ?s1) = cwd s" by (simp add: cwd_def)
  ultimately show thesis using that [OF a] m1 bb b3(7) by simp
qed

text \<open>What \<^verbatim>\<open>do_touch\<close> writes into the new inode.\<close>

definition new_file :: "u32 \<Rightarrow> inode_t" where
  "new_file t = zero_inode\<lparr>i_type := T_FILE, i_size := 0, time_created := t, i_permission := 0x1ed, i_ref := 1\<rparr>"

lemma wf_new_file [simp]: "wf_inode (new_file t)"
  using wf_zero_inode by (simp add: wf_inode_def new_file_def)

lemma new_inode_steps:
  fixes s :: "('d, 'a) fsys_scheme"
  assumes ok: "sd_card_ok B" and m: "mounted s"
    and free: "\<forall>i<b. imap_bit B s i" "\<not> imap_bit B s b" "b < 4096"
  obtains s2 t s3 s4 where "alloc_inode B s = (int b + 1, s2)" "get_ticks s2 = (t, s3)"
    "write_inode B (int b + 1) (new_file (ucast t)) s3 = Some s4" "mounted s4" "cwd s4 = cwd s"
    "read_inode B (int b + 1) s4 = Some (new_file (ucast t))"
    "\<And>i. inum_ok i \<Longrightarrow> i \<noteq> int b + 1 \<Longrightarrow> read_inode B i s4 = read_inode B i s"
    "\<And>c. data_block c \<Longrightarrow> block_bytes B c s4 = block_bytes B c s"
proof -
  define ws where "ws = (rd_words B (imap_sector s) s)[b div 64 := rd_words B (imap_sector s) s ! (b div 64) OR set_mask (b mod 64)]"
  define s2 where "s2 = wr_words B (imap_sector s) ws s"
  define t where "t = fst (get_ticks s2)"
  define s3 where "s3 = snd (get_ticks s2)"
  have lw: "length ws = 64" by (simp add: ws_def)
  have a: "alloc_inode B s = (int b + 1, s2)" using alloc_inode_eq [OF free] by (simp add: s2_def ws_def)
  have i: "inum_ok (int b + 1)" using free(3) by (simp add: inum_ok_def)
  have m2: "mounted s2" using m by (simp add: s2_def wr_words_def)
  have m3: "mounted s3" using m2 by (simp add: s3_def mounted_def)
  obtain s4 where s4: "write_inode B (int b + 1) (new_file (ucast t)) s3 = Some s4" using write_inode_eq [OF i] by blast
  have c2: "cwd s2 = cwd s" by (simp add: s2_def wr_words_def)
  have meta: "meta_sector (imap_sector s)" by (simp add: imap_sector_mounted [OF m] meta_sector_def)
  have d3: "sd s3 = sd s2" "superblock s3 = superblock s2" by (simp_all add: s3_def)
  have "read_inode B k s4 = read_inode B k s" if "inum_ok k" "k \<noteq> int b + 1" for k
    using read_write_inode_other [OF ok m3 i that(1) wf_new_file _ s4] that(2) same_disk(1) [OF d3]
      read_inode_wr_imap [OF ok m that(1) lw] by (simp add: s2_def)
  moreover have "block_bytes B c s4 = block_bytes B c s" if "data_block c" for c
    using write_inode_block_bytes [OF ok m3 i wf_new_file that s4] same_disk(2) [OF d3]
      block_bytes_wr_meta [OF ok m that meta, of "put_array 8 ws"] lw by (simp add: s2_def wr_words_def)
  moreover have "cwd s4 = cwd s" using write_inode_fields(4) [OF s4] c2 by (simp add: s3_def)
  moreover have "mounted s4" using write_inode_fields(2) [OF s4] m3 by simp
  ultimately show thesis
    using that [OF a, of t s3 s4] s4 read_write_inode_same [OF ok i wf_new_file s4] by (simp add: t_def s3_def)
qed

text \<open>
  C30: A file that \<^verbatim>\<open>do_touch\<close> creates can be found. Let the name (1 to 14 characters, no slash) not
  occur in the first block of the current directory, which has a free entry, and let inode \<open>b + 1\<close> be
  the first free one. Then \<^verbatim>\<open>do_touch\<close> succeeds, \<^verbatim>\<open>parse_path\<close> of the same name from the same directory
  returns \<open>b + 1\<close>, and that inode is an empty regular file with one link.
\<close>

theorem touch_then_parse_path:
  fixes s :: "('d, 'a) fsys_scheme"
  assumes ok: "sd_card_ok B" and m: "mounted s" and cw: "inum_ok (cwd s)" "cwd s \<noteq> int b + 1"
    and dir: "read_inode B (cwd s) s = Some n" "direct n = d # ds" "data_block d"
    and name: "chars name" "0x2f \<notin> set name" "name \<noteq> []" "length name \<le> 14"
    and absent: "scan_dentries (match_entry (name @ 0 # r)) [0..<NDENTRIES_PER_BLOCK] (block_bytes B d s) = Some (Stop None)"
    and free: "\<forall>i<b. imap_bit B s i" "\<not> imap_bit B s b" "b < 4096"
  shows "\<exists>s' s'' t. do_touch B (name @ 0 # r) s = Some (0, s') \<and>
    parse_path B (name @ 0 # r) (cwd s') s' = Some (int b + 1, s'') \<and> read_inode B (int b + 1) s' = Some (new_file t)"
proof -
  let ?p = "name @ 0 # r" and ?s1 = "read_block B d s"
  have d0: "d \<noteq> 0" using dir(3) by (auto simp: data_block_def)
  have m1: "mounted ?s1" using m ok by (simp add: mounted_def)
  have e1: "read_inode B i ?s1 = read_inode B i s" "imap_bit B ?s1 k = imap_bit B s k" "block_bytes B c ?s1 = block_bytes B c s" for i k c
    by (simp_all add: same_disk [of ?s1 s])
  obtain s2 t s3 s4 where s4: "alloc_inode B ?s1 = (int b + 1, s2)" "get_ticks s2 = (t, s3)"
    "write_inode B (int b + 1) (new_file (ucast t)) s3 = Some s4" "mounted s4" "cwd s4 = cwd ?s1"
    "read_inode B (int b + 1) s4 = Some (new_file (ucast t))"
    "\<And>i. inum_ok i \<Longrightarrow> i \<noteq> int b + 1 \<Longrightarrow> read_inode B i s4 = read_inode B i ?s1"
    "\<And>c. data_block c \<Longrightarrow> block_bytes B c s4 = block_bytes B c ?s1"
    using new_inode_steps [OF ok m1, of b] free e1(2) by metis
  have b4: "block_bytes B d s4 = block_bytes B d s" using s4(8) [OF dir(3)] e1(3) by simp
  obtain s5 j where s5: "append_dentry B d (int b + 1) ?p s4 = Some s5" "mounted s5" "cwd s5 = cwd s4"
    "\<And>k. inum_ok k \<Longrightarrow> read_inode B k s5 = read_inode B k s4"
    "scan_dentries (match_entry ?p) [0..<NDENTRIES_PER_BLOCK] (block_bytes B d s5) = Some (Stop (Some j))"
    "d_inum j (block_bytes B d s5) = Some (of_int (int b + 1))"
    using append_dentry_spec [OF ok s4(4) dir(3) name(1,4)] absent b4 by metis
  have touch: "do_touch B ?p s = Some (0, s5)"
    using dir name absent d0 s4(1-3) s5(1)
    by (simp add: do_touch_def DENTRY_NAME_LEN_def Let_def new_file_def)
  have dirn: "read_inode B (cwd s5) s5 = Some n" "cwd s5 = cwd s"
    using s5(3,4) s4(5,7) cw dir(1) e1(1) by simp_all
  obtain copy where copy: "strcpy (replicate 16 0) ?p = Some copy" "next_part copy = Some (replicate (15 - length name) 0)"
    using next_part_name [OF name(1,2,4)] by blast
  have u: "uint (of_int (int b + 1) :: u32) = int b + 1" unfolding uint_word_of_int using free(3) by simp
  have "sint (of_int (int b + 1) :: u32) = int b + 1"
    using free(3) sint_small [of "of_int (int b + 1)", unfolded u] by simp
  moreover have "hd name \<noteq> 0" using name(1,3) by (metis hd_in_set)
  ultimately have "\<exists>s''. parse_path B ?p (cwd s5) s5 = Some (int b + 1, s'')"
    using name copy dirn dir(2) d0 s5(5,6)
    by (subst parse_path.simps) (simp add: parse_path_last hd_append)
  then show ?thesis using touch s5(4) s4(6) free(3) by (auto simp: inum_ok_def)
qed

section \<open>An instance\<close>

text \<open>A card with one empty directory, inode 2, which is the current one.\<close>

definition dir_node :: inode_t where
  "dir_node = zero_inode\<lparr>i_type := T_DIRECTORY, direct := 100 # replicate 9 0\<rparr>"

definition dir_state :: "(u32 \<Rightarrow> u8 list) fsys" where
  "dir_state = set_cwd 2 (the (write_inode ram_card 2 dir_node (fs_boot (\<lambda>_. []))))"

lemma blank_block: "length (block_bytes ram_card b (fs_boot (\<lambda>_. []))) = 4096"
  "x \<in> set (block_bytes ram_card b (fs_boot (\<lambda>_. []))) \<Longrightarrow> x = 0"
proof -
  show "length (block_bytes ram_card b (fs_boot (\<lambda>_. []))) = 4096" by simp
  show "x \<in> set (block_bytes ram_card b (fs_boot (\<lambda>_. []))) \<Longrightarrow> x = 0"
    by (auto simp: block_bytes_concat rd_sector_blank)
qed

lemma scan_blank:
  assumes "length buf = 4096" "\<And>x. x \<in> set buf \<Longrightarrow> x = 0"
  shows "scan_dentries (match_entry p) [0..<NDENTRIES_PER_BLOCK] buf = Some (Stop None)"
proof (rule scan_dentries_found)
  have "slice 4 4 buf = replicate 4 0"
    using assms by (intro replicate_eqI) (auto simp: slice_def dest!: in_set_takeD in_set_dropD)
  moreover have "buf ! 0 = 0" using assms by (simp add: nth_mem)
  ultimately show "match_entry p 0 buf = Some (Stop None)"
    using assms(1) by (simp add: match_entry_def d_valid_def d_inum_def numeral_eq_Suc)
qed (simp_all add: NDENTRIES_PER_BLOCK_def)

lemma dir_state:
  "mounted dir_state" "cwd dir_state = 2" "read_inode ram_card 2 dir_state = Some dir_node"
  "data_block b \<Longrightarrow> block_bytes ram_card b dir_state = block_bytes ram_card b (fs_boot (\<lambda>_. []))"
  "\<not> imap_bit ram_card dir_state 0"
proof -
  let ?s = "fs_boot (\<lambda>_. []) :: (u32 \<Rightarrow> u8 list) fsys"
  have i: "inum_ok 2" and wf: "wf_inode dir_node" by (simp_all add: inum_ok_def wf_inode_def dir_node_def NDIRECT_BLOCKS_def)
  define s1 where "s1 = the (write_inode ram_card 2 dir_node ?s)"
  have w: "write_inode ram_card 2 dir_node ?s = Some s1" unfolding s1_def write_inode_eq [OF i] by simp
  have d: "dir_state = set_cwd 2 s1" by (simp add: dir_state_def s1_def)
  have e: "sd dir_state = sd s1" "superblock dir_state = superblock s1" by (simp_all add: d set_cwd_def upd_pcb_def)
  have "mounted s1" using write_inode_fields(2) [OF w] mounted_fs_boot by metis
  then show "mounted dir_state" by (simp add: d mounted_def set_cwd_def upd_pcb_def)
  show "cwd dir_state = 2" by (simp add: d cwd_def set_cwd_def upd_pcb_def)
  show "read_inode ram_card 2 dir_state = Some dir_node"
    using read_write_inode_same [OF _ i wf w] by (simp add: same_disk(1) [OF e])
  show "data_block b \<Longrightarrow> block_bytes ram_card b dir_state = block_bytes ram_card b (fs_boot (\<lambda>_. []))"
    using write_inode_block_bytes [OF _ _ i wf _ w, of b] by (simp add: same_disk(2) [OF e])
  have m: "mounted ?s" by simp
  have "unat (imap_sector ?s) \<noteq> unat (inode_sector 2 ?s)"
    using unat_inode_sector [OF m i] imap_sector_mounted [OF m] by simp
  then have n: "imap_sector ?s \<noteq> inode_sector 2 ?s" by metis
  have "rd_sector ram_card (imap_sector ?s) s1 = rd_sector ram_card (imap_sector ?s) ?s"
    using w n slot_bound [of 2] wf by (auto simp: write_inode_eq [OF i] rd_wr_sector length_inode_bytes)
  moreover have "imap_sector s1 = imap_sector ?s" using w by (auto simp: write_inode_eq [OF i] imap_sector_def)
  ultimately have "imap_bit ram_card s1 0 = imap_bit ram_card ?s 0" by (simp add: imap_bit_def rd_words_def)
  then show "\<not> imap_bit ram_card dir_state 0" using blank_bits(1) [of 0] same_disk(3) [OF e] by simp
qed

theorem touch_then_parse_path_witness:
  "\<exists>s' s''. do_touch ram_card [0x61, 0x62, 0] dir_state = Some (0, s') \<and>
     parse_path ram_card [0x61, 0x62, 0] (cwd s') s' = Some (1, s'')"
  using touch_then_parse_path [of ram_card dir_state 0 dir_node 100 "replicate 9 0" "[0x61, 0x62]" "[]"]
    dir_state scan_blank [OF blank_block, where p = "[0x61, 0x62, 0]"]
  by (auto simp: inum_ok_def data_block_def dir_node_def)

end
