(* ===== verification/System.thy ===== *)
theory System
  imports Process FS_Laws
begin

text \<open>
  The kernel as a state machine. A step is a timer interrupt on one of the two harts, a hart entering
  the kernel, or one of the system calls that block or wake processes, made by the process that runs
  on that hart; \<open>reachable\<close> are the states of any interleaving of such steps from boot.
\<close>

inductive kernel_step :: "'d sdcard \<Rightarrow> 'd kernel \<Rightarrow> 'd kernel \<Rightarrow> bool" for B :: "'d sdcard" where
  Tick: "c < 2 \<Longrightarrow> timer_tick B c s = Some s' \<Longrightarrow> kernel_step B s s'"
| Enter: "c < 2 \<Longrightarrow> kernel_step B s (s\<lparr>cpu := c, current_running := runnings s ! c\<rparr>)"
| Yield: "do_scheduler B s = Some s' \<Longrightarrow> kernel_step B s s'"
| Sleep: "current_running s = Pcb p \<Longrightarrow> do_sleep B t s = Some s' \<Longrightarrow> kernel_step B s s'"
| Mutex_acquire: "current_running s = Pcb p \<Longrightarrow> do_mutex_lock_acquire B i s = Some (r, s') \<Longrightarrow> kernel_step B s s'"
| Mutex_release: "do_mutex_lock_release i s = Some s' \<Longrightarrow> kernel_step B s s'"
| Barrier_wait: "current_running s = Pcb p \<Longrightarrow> do_barrier_wait B i s = Some (b, s') \<Longrightarrow> kernel_step B s s'"
| Condition_wait: "current_running s = Pcb p \<Longrightarrow> do_condition_wait B i j s = Some s' \<Longrightarrow> kernel_step B s s'"
| Condition_signal: "do_condition_signal i s = Some s' \<Longrightarrow> kernel_step B s s'"
| Condition_broadcast: "do_condition_broadcast i s = Some s' \<Longrightarrow> kernel_step B s s'"
| Waitpid: "current_running s = Pcb p \<Longrightarrow> do_waitpid B pd s = Some (w, s') \<Longrightarrow> kernel_step B s s'"

inductive reachable :: "'d sdcard \<Rightarrow> 'd kernel \<Rightarrow> bool" for B :: "'d sdcard" where
  Boot: "0 < n \<Longrightarrow> n \<le> NUM_MAX_TASK \<Longrightarrow> reachable B (kernel_boot n d)"
| Step: "reachable B s \<Longrightarrow> kernel_step B s s' \<Longrightarrow> reachable B s'"

inductive_cases kernel_stepE: "kernel_step B s s'"

section \<open>The invariant of single operations\<close>

definition consistent :: "('d, 'a) kernel_scheme \<Rightarrow> bool" where
  "consistent s \<longleftrightarrow> (\<exists>Q. sched_inv kernel_heads Q s)"

definition wait_head :: "node \<Rightarrow> bool" where
  "wait_head h \<longleftrightarrow> h \<in> kernel_heads \<and> h \<notin> page_heads \<and> h \<noteq> Ready_queue"

lemma wait_heads [simp]:
  "wait_head Sleep_queue" "wait_head (Mutex_queue i)" "wait_head (Barrier_list i)" "wait_head (Cond_list i)"
  "wait_head (Wait_list p)"
  by (auto simp: wait_head_def kernel_heads_def)

lemma consistent_cong:
  assumes "lnk s' = lnk s" "pages s' = pages s" "page_id s' = page_id s" "present_pages_num s' = present_pages_num s"
    "\<And>r. status (pcb s' r) = status (pcb s r)" "runnings s' = runnings s" "cpu s' = cpu s"
    "current_running s' = current_running s"
  shows "consistent s' = consistent s"
  unfolding consistent_def sched_inv_cong [OF assms] ..

lemma block_consistent:
  assumes "consistent s" "current_running s = Pcb p" "wait_head g"
  shows "\<exists>s'. do_block B (Pcb_list (Pcb p)) g s = Some s' \<and> consistent s'"
  using assms do_block_facts [OF _ assms(2)] unfolding consistent_def wait_head_def by blast

lemma wake_first_consistent:
  fixes s :: "('d, 'a) kernel_scheme"
  assumes c: "consistent s" and h: "wait_head h" and ne: "\<not> is_queue_empty h (lnk s)"
  shows "\<exists>i. nxt (lnk s) h = Pcb_list (Pcb i) \<and> (\<forall>t :: ('d, 'a) kernel_scheme. lnk t = lnk s \<longrightarrow> consistent t \<longrightarrow>
    (\<exists>s'. do_unblock (Pcb_list (Pcb i)) t = Some s' \<and> consistent s'))"
proof -
  have first: "\<exists>i ps. Q h = Pcb_list (Pcb i) # ps \<and> nxt (lnk s) h = Pcb_list (Pcb i)"
    if t: "sched_inv kernel_heads Q t" "lnk t = lnk s" for Q and t :: "('d, 'a) kernel_scheme"
  proof -
    have k: "kq kernel_heads Q t" and H: "h \<in> kernel_heads" "h \<notin> page_heads"
      using sched_invD(1) [OF t(1)] h by (auto simp: wait_head_def)
    obtain ps where ps: "Q h = pcb_nodes ps" using kq_pcb [OF k H] by blast
    moreover have "Q h \<noteq> []" using klist.rep_empty [OF kqD(1) [OF k] H(1)] ne t(2) by simp
    ultimately obtain i js where "ps = i # js" "Q h = Pcb_list (Pcb i) # pcb_nodes js" by (cases ps) auto
    then show ?thesis using klist.rep_first [OF kqD(1) [OF k] H(1)] t(2) by auto
  qed
  obtain i where i: "nxt (lnk s) h = Pcb_list (Pcb i)" using first [of _ s] c unfolding consistent_def by blast
  have "\<exists>s'. do_unblock (Pcb_list (Pcb i)) t = Some s' \<and> consistent s'" if t: "lnk t = lnk s" "consistent t" for t :: "('d, 'a) kernel_scheme"
  proof -
    obtain Q where Q: "sched_inv kernel_heads Q t" using t(2) by (auto simp: consistent_def)
    then have "Pcb_list (Pcb i) \<in> set (Q h)" using first [OF Q t(1)] i by auto
    then show ?thesis using do_unblock_inv [OF Q] h unfolding consistent_def wait_head_def by blast
  qed
  then show ?thesis using i by blast
qed

lemma wake_all_consistent:
  assumes "consistent s" "wait_head h"
  shows "\<exists>s'. unblock_all h s = Some s' \<and> consistent s'"
proof -
  obtain Q where Q: "sched_inv kernel_heads Q s" using assms(1) by (auto simp: consistent_def)
  have H: "h \<in> kernel_heads" "h \<notin> page_heads" "h \<noteq> Ready_queue" using assms(2) by (auto simp: wait_head_def)
  obtain ps where "Q h = pcb_nodes ps" using kq_pcb [OF sched_invD(1) [OF Q] H(1,2)] by blast
  then show ?thesis using unblock_all_spec(1) [OF Q H] unfolding consistent_def by blast
qed

lemma scheduler_consistent:
  assumes "consistent s"
  shows "\<exists>s'. do_scheduler B s = Some s' \<and> consistent s'"
proof -
  obtain Q where Q: "sched_inv kernel_heads Q s" using assms by (auto simp: consistent_def)
  note k = sched_invD(1) [OF Q]
  obtain ps where ps: "Q Ready_queue = pcb_nodes ps" using kq_pcb [OF k kqD(2) [OF k]] by auto
  obtain sl where sl: "Q Sleep_queue = pcb_nodes sl" using kq_pcb [OF k kqD(3) [OF k]] by auto
  obtain sn where sn: "Q Send_block_queue = pcb_nodes sn" using kq_pcb [OF k kqD(4) [OF k]] by auto
  obtain rc where rc: "Q Recv_block_queue = pcb_nodes rc" using kq_pcb [OF k kqD(5) [OF k]] by auto
  show ?thesis using do_scheduler_spec [OF Q ps sl sn rc, of B] unfolding consistent_def by blast
qed

lemma tick_consistent:
  assumes "consistent s" "c < 2"
  shows "\<exists>s'. timer_tick B c s = Some s' \<and> consistent s'"
proof -
  obtain Q where Q: "sched_inv kernel_heads Q s" using assms by (auto simp: consistent_def)
  obtain ps where "Q Ready_queue = pcb_nodes ps"
    using kq_pcb [OF sched_invD(1) [OF Q] kqD(2) [OF sched_invD(1) [OF Q]]] by auto
  then show ?thesis using tick_queue [OF Q assms(2), of ps B] unfolding consistent_def by blast
qed

lemma enter_consistent:
  assumes "consistent s" "c < 2"
  shows "consistent (s\<lparr>cpu := c, current_running := runnings s ! c\<rparr>)"
proof -
  let ?s = "s\<lparr>cpu := c, current_running := runnings s ! c\<rparr>"
  obtain Q where Q: "sched_inv kernel_heads Q s" using assms by (auto simp: consistent_def)
  have k: "kq kernel_heads Q ?s" using sched_invD(1) [OF Q] kq_cong [of ?s s] by simp
  have "hart_ok Q ?s h = hart_ok Q s h" "status_ok kernel_heads Q ?s = status_ok kernel_heads Q s" for h
    by (simp_all add: hart_ok_def status_ok_def split: pcb_ref.splits)
  then have "sched_inv kernel_heads Q ?s"
    using assms(2) sched_invD [OF Q] by (intro sched_invI [OF k]) simp_all
  then show ?thesis by (auto simp: consistent_def)
qed

lemma mutex_acquire_consistent:
  fixes s :: "('d, 'a) kernel_scheme"
  assumes "consistent s" "current_running s = Pcb p" "0 \<le> i" "nat i < LOCK_NUM"
  shows "\<exists>r s'. do_mutex_lock_acquire B i s = Some (r, s') \<and> consistent s'"
proof -
  have up: "consistent (s\<lparr>mlocks := ms\<rparr>)" for ms using assms(1) consistent_cong [of "s\<lparr>mlocks := ms\<rparr>" s] by simp
  let ?o = "spin_lock_try_acquire (mlock (mlocks s ! nat i))"
  let ?s1 = "s\<lparr>mlocks := (mlocks s)[nat i := (mlocks s ! nat i)\<lparr>mlock := snd ?o\<rparr>]\<rparr>"
  obtain s2 where s2: "do_block B (Pcb_list (Pcb p)) (Mutex_queue (nat i)) ?s1 = Some s2" "consistent s2"
    using block_consistent [OF up, of _ p "Mutex_queue (nat i)" B] assms(2) by auto
  show ?thesis
  proof (cases "fst ?o = UNLOCKED")
    case True
    then show ?thesis using assms(3,4) up
      by (auto simp: do_mutex_lock_acquire_def c_index_def Let_def case_prod_beta)
  next
    case False
    then have "do_mutex_lock_acquire B i s = Some (False, s2)"
      using assms(2-4) s2(1) by (simp add: do_mutex_lock_acquire_def c_index_def Let_def case_prod_beta)
    then show ?thesis using s2(2) by blast
  qed
qed

lemma mutex_release_consistent:
  fixes s :: "('d, 'a) kernel_scheme"
  assumes "consistent s" "0 \<le> i" "nat i < LOCK_NUM"
  shows "\<exists>s'. do_mutex_lock_release i s = Some s' \<and> consistent s' \<and> current_running s' = current_running s"
proof -
  have up: "consistent (s\<lparr>mlocks := ms\<rparr>)" for ms using assms(1) consistent_cong [of "s\<lparr>mlocks := ms\<rparr>" s] by simp
  show ?thesis
  proof (cases "is_queue_empty (Mutex_queue (nat i)) (lnk s)")
    case True
    then show ?thesis using up assms by (simp add: do_mutex_lock_release_def c_index_def)
  next
    case False
    obtain j where j: "nxt (lnk s) (Mutex_queue (nat i)) = Pcb_list (Pcb j)"
      "\<And>t :: ('d, 'a) kernel_scheme. lnk t = lnk s \<Longrightarrow> consistent t \<Longrightarrow> \<exists>s'. do_unblock (Pcb_list (Pcb j)) t = Some s' \<and> consistent s'"
      using wake_first_consistent [OF assms(1) _ False] by auto
    let ?s1 = "s\<lparr>mlocks := (mlocks s)[nat i := (mlocks s ! nat i)\<lparr>mpid := pid (pcb s (Pcb j))\<rparr>]\<rparr>"
    obtain s' where s': "do_unblock (Pcb_list (Pcb j)) ?s1 = Some s'" "consistent s'"
      using j(2) [of ?s1] up by auto
    then have "do_mutex_lock_release i s = Some s'" using False assms(2,3) j(1)
      by (simp add: do_mutex_lock_release_def c_index_def)
    moreover have "current_running s' = current_running s" using s'(1) by (auto simp: do_unblock_def upd_pcb_def Let_def)
    ultimately show ?thesis using s'(2) by blast
  qed
qed

lemma barrier_wait_consistent:
  fixes s :: "('d, 'a) kernel_scheme"
  assumes "consistent s" "current_running s = Pcb p" "0 \<le> i" "nat i < BARRIER_NUM"
  shows "\<exists>r s'. do_barrier_wait B i s = Some (r, s') \<and> consistent s'"
proof -
  have up: "consistent (t\<lparr>barriers := bs\<rparr>) = consistent t" for bs and t :: "('d, 'a) kernel_scheme"
    using consistent_cong [of "t\<lparr>barriers := bs\<rparr>" t] by simp
  have "\<exists>s'. do_block B (Pcb_list (Pcb p)) (Barrier_list (nat i)) (s\<lparr>barriers := bs\<rparr>) = Some s' \<and> consistent s'"
    "\<exists>s'. unblock_all (Barrier_list (nat i)) (s\<lparr>barriers := bs\<rparr>) = Some s' \<and> consistent s'" for bs
    using block_consistent [of "s\<lparr>barriers := bs\<rparr>" p "Barrier_list (nat i)" B]
      wake_all_consistent [of "s\<lparr>barriers := bs\<rparr>" "Barrier_list (nat i)"] assms by (simp_all add: up)
  note step = this
  let ?b = "(barriers s ! nat i)\<lparr>bcurrent := bcurrent (barriers s ! nat i) + 1\<rparr>"
  let ?s1 = "s\<lparr>barriers := (barriers s)[nat i := ?b]\<rparr>"
  show ?thesis
  proof (cases "bcurrent ?b < goal ?b")
    case True
    obtain s2 where s2: "do_block B (Pcb_list (Pcb p)) (Barrier_list (nat i)) ?s1 = Some s2" "consistent s2" using step(1) by blast
    then have "do_barrier_wait B i s = Some (False, s2)"
      using assms(2-4) True by (simp add: do_barrier_wait_def c_index_def Let_def)
    then show ?thesis using s2(2) by blast
  next
    case False
    obtain s2 where s2: "unblock_all (Barrier_list (nat i)) ?s1 = Some s2" "consistent s2" using step(2) by blast
    then have "do_barrier_wait B i s = Some (True, s2\<lparr>barriers := (barriers s2)[nat i := (barriers s2 ! nat i)\<lparr>bcurrent := 0\<rparr>]\<rparr>)"
      using assms(3,4) False by (simp add: do_barrier_wait_def c_index_def Let_def nat_less_iff)
    then show ?thesis using s2(2) up by blast
  qed
qed

lemma condition_wait_consistent:
  assumes "consistent s" "current_running s = Pcb p" "0 \<le> i" "nat i < CONDITION_NUM" "0 \<le> j" "nat j < LOCK_NUM"
  shows "\<exists>s'. do_condition_wait B i j s = Some s' \<and> consistent s'"
proof -
  obtain s1 where s1: "do_mutex_lock_release j s = Some s1" "consistent s1" "current_running s1 = Pcb p"
    using mutex_release_consistent [OF assms(1,5,6)] assms(2) by auto
  then show ?thesis using block_consistent [OF s1(2,3), of "Cond_list (nat i)" B] assms(3,4)
    by (simp add: do_condition_wait_def c_index_def)
qed

lemma condition_signal_consistent:
  assumes "consistent s" "0 \<le> i" "nat i < CONDITION_NUM"
  shows "\<exists>s'. do_condition_signal i s = Some s' \<and> consistent s'"
  using assms wake_first_consistent [OF assms(1), of "Cond_list (nat i)"]
  by (auto simp: do_condition_signal_def c_index_def)

lemma sleep_consistent:
  assumes "consistent s" "current_running s = Pcb p"
  shows "\<exists>s'. do_sleep B t s = Some s' \<and> consistent s'"
proof -
  let ?s = "upd_pcb (Pcb p) (\<lambda>q. q\<lparr>wakeup_time := fst (get_timer s) + ucast t\<rparr>) (snd (get_timer s))"
  have "consistent ?s = consistent s"
    by (rule consistent_cong) (simp_all add: upd_pcb_def get_timer_def get_ticks_def Let_def)
  moreover have "current_running ?s = Pcb p" using assms(2) by (simp add: upd_pcb_def get_timer_def get_ticks_def Let_def)
  ultimately show ?thesis using block_consistent [of ?s p Sleep_queue B] assms
    by (simp add: do_sleep_def case_prod_beta Let_def)
qed

lemma waitpid_consistent:
  fixes s :: "('d, 'a) kernel_scheme"
  assumes "consistent s" "current_running s = Pcb p"
  shows "\<exists>r s'. do_waitpid B pd s = Some (r, s') \<and> consistent s'"
proof (cases "find_pid pd s")
  case None
  then show ?thesis using assms(1) by (simp add: do_waitpid_def)
next
  case (Some w)
  obtain s' where "do_block B (Pcb_list (Pcb p)) (Wait_list w) s = Some s'" "consistent s'"
    using block_consistent [OF assms, of "Wait_list w" B] by auto
  then show ?thesis using Some assms(2) by (simp add: do_waitpid_def)
qed

section \<open>All reachable states\<close>

lemma c_index_Some: "c_index i n = Some k \<Longrightarrow> 0 \<le> i \<and> nat i < n"
  by (auto simp: c_index_def split: if_splits)

lemma kernel_step_consistent:
  assumes "kernel_step B s s'" "consistent s"
  shows "consistent s'"
  using assms
proof cases
  case (Mutex_acquire p i r)
  then have "0 \<le> i \<and> nat i < LOCK_NUM" by (auto simp: do_mutex_lock_acquire_def dest!: c_index_Some split: bind_splits)
  then show ?thesis using mutex_acquire_consistent [OF assms(2) Mutex_acquire(1), of i B] Mutex_acquire(2) by auto
next
  case (Mutex_release i)
  then have "0 \<le> i \<and> nat i < LOCK_NUM" by (auto simp: do_mutex_lock_release_def dest!: c_index_Some split: bind_splits)
  then show ?thesis using mutex_release_consistent [OF assms(2), of i] Mutex_release by auto
next
  case (Barrier_wait p i b)
  then have "0 \<le> i \<and> nat i < BARRIER_NUM" by (auto simp: do_barrier_wait_def dest!: c_index_Some split: bind_splits)
  then show ?thesis using barrier_wait_consistent [OF assms(2) Barrier_wait(1), of i B] Barrier_wait(2) by auto
next
  case (Condition_wait p i j)
  then have "0 \<le> i \<and> nat i < CONDITION_NUM" "0 \<le> j \<and> nat j < LOCK_NUM"
    by (auto simp: do_condition_wait_def do_mutex_lock_release_def dest!: c_index_Some split: bind_splits)
  then show ?thesis using condition_wait_consistent [OF assms(2) Condition_wait(1), of i j B] Condition_wait(2) by auto
next
  case (Condition_signal i)
  then have "0 \<le> i \<and> nat i < CONDITION_NUM" by (auto simp: do_condition_signal_def dest!: c_index_Some split: bind_splits)
  then show ?thesis using condition_signal_consistent [OF assms(2), of i] Condition_signal by auto
next
  case (Condition_broadcast i)
  then obtain k where "unblock_all (Cond_list k) s = Some s'" by (auto simp: do_condition_broadcast_def split: bind_splits)
  then show ?thesis using wake_all_consistent [OF assms(2), of "Cond_list k"] by auto
next
  case (Tick c)
  then show ?thesis using tick_consistent [OF assms(2), of c B] by auto
next
  case (Enter c)
  then show ?thesis using enter_consistent [OF assms(2)] by simp
next
  case Yield
  then show ?thesis using scheduler_consistent [OF assms(2), of B] by auto
next
  case (Sleep p t)
  then show ?thesis using sleep_consistent [OF assms(2) Sleep(1), of B t] by auto
next
  case (Waitpid p pd w)
  then show ?thesis using waitpid_consistent [OF assms(2) Waitpid(1), of B pd] by auto
qed

lemma reachable_consistent: "reachable B s \<Longrightarrow> consistent s"
proof (induction rule: reachable.induct)
  case (Boot n d)
  then show ?case using kernel_boot_inv [of n d] by (auto simp: consistent_def)
next
  case (Step s s')
  then show ?case using kernel_step_consistent by blast
qed



lemma boot_reachable: "reachable ram_card (kernel_boot 3 (\<lambda>_. []))"
  by (rule reachable.Boot) (simp_all add: NUM_MAX_TASK_def)



end
