(* ===== verification/Printk.thy ===== *)
theory Printk
  imports CString
begin

text \<open>
  Formatted output: \<open>src/libs/printk.c\<close> and its copy for user programs, \<open>src/tiny_libc/printf.c\<close>,
  which differs in the digit loop of \<^verbatim>\<open>mini_itoa\<close>. A variable argument is an 8-byte value or a
  pointer to a string; asking for the other kind, reading behind the last argument and writing
  outside a buffer have no result (\<open>None\<close>). Positions in a buffer are indices.
\<close>

section \<open>Numbers\<close>

definition put_byte :: "u8 list \<Rightarrow> nat \<Rightarrow> u8 \<Rightarrow> (nat \<times> u8 list) option" where
  "put_byte buffer p c = (if p < length buffer then Some (p + 1, buffer[p := c]) else None)"

definition digit_char :: "bool \<Rightarrow> int \<Rightarrow> u8" where
  "digit_char uppercase digit =
     (if digit < 10 then 48 + of_int digit else (if uppercase then 65 else 97) + of_int digit - 10)"

text \<open>
  One iteration of the loop that builds the number back to front. \<^verbatim>\<open>value\<close> is a \<^verbatim>\<open>long\<close>, given by its
  64 bits; a signed operation reads them as signed.
\<close>

definition itoa_digit :: "bool \<Rightarrow> int \<Rightarrow> u64 \<Rightarrow> int" where
  "itoa_digit unsig radix val = (if unsig then uint val mod radix else sint val smod radix)"

definition itoa_next :: "bool \<Rightarrow> int \<Rightarrow> u64 \<Rightarrow> u64" where
  "itoa_next unsig radix val = of_int (if unsig then uint val div radix else sint val sdiv radix)"

function itoa_digits :: "u64 \<Rightarrow> int \<Rightarrow> bool \<Rightarrow> bool \<Rightarrow> u8 list \<Rightarrow> nat \<Rightarrow> (nat \<times> u8 list) option" where
  "itoa_digits val radix uppercase unsig buffer p =
     (if p < length buffer
      then let buffer1 = buffer[p := digit_char uppercase (itoa_digit unsig radix val)];
               val1 = itoa_next unsig radix val
           in if val1 \<noteq> 0 then itoa_digits val1 radix uppercase unsig buffer1 (p + 1) else Some (p + 1, buffer1)
      else None)"
  by pat_completeness auto
termination
  by (relation "measure (\<lambda>(val, radix, uppercase, unsig, buffer, p). length buffer - p)") auto

declare itoa_digits.simps [simp del]

function itoa_pad :: "u8 list \<Rightarrow> nat \<Rightarrow> nat \<Rightarrow> (nat \<times> u8 list) option" where
  "itoa_pad buffer p zero_pad =
     (if p < zero_pad
      then if p < length buffer then itoa_pad (buffer[p := 48]) (p + 1) zero_pad else None
      else Some (p, buffer))"
  by pat_completeness auto
termination
  by (relation "measure (\<lambda>(buffer, p, zero_pad). zero_pad - p)") auto

declare itoa_pad.simps [simp del]

function itoa_reverse :: "u8 list \<Rightarrow> nat \<Rightarrow> nat \<Rightarrow> u8 list" where
  "itoa_reverse buffer i len =
     (if i < len div 2
      then itoa_reverse (buffer[i := buffer ! (len - i - 1), len - i - 1 := buffer ! i]) (i + 1) len
      else buffer)"
  by pat_completeness auto
termination
  by (relation "measure (\<lambda>(buffer, i, len). len div 2 - i)") auto

declare itoa_reverse.simps [simp del]

text \<open>What follows the digit loop: padding, sign, terminator and the reversal.\<close>

definition itoa_finish :: "bool \<Rightarrow> nat \<Rightarrow> nat \<times> u8 list \<Rightarrow> (nat \<times> u8 list) option" where
  "itoa_finish negative zero_pad r = do {
     let (p, b) = r;
     (p1, b1) \<leftarrow> itoa_pad b p zero_pad;
     (p2, b2) \<leftarrow> (if negative then put_byte b1 p1 45 else Some (p1, b1));
     (_, b3) \<leftarrow> put_byte b2 p2 0;
     Some (p2, itoa_reverse b3 0 p2)
   }"

definition mini_itoa :: "u64 \<Rightarrow> int \<Rightarrow> bool \<Rightarrow> bool \<Rightarrow> u8 list \<Rightarrow> nat \<Rightarrow> (nat \<times> u8 list) option" where
  "mini_itoa val radix uppercase unsig buffer zero_pad =
     (if radix > 16 then Some (0, buffer)
      else if radix = 0 then None
      else let negative = (sint val < 0 \<and> \<not> unsig)
           in do { r \<leftarrow> itoa_digits (if negative then - val else val) radix uppercase unsig buffer 0;
                   itoa_finish negative zero_pad r })"

text \<open>The digit loop of the user library divides as signed numbers and stops at values below 1.\<close>

function itoa_digits_libc :: "u64 \<Rightarrow> int \<Rightarrow> bool \<Rightarrow> u8 list \<Rightarrow> nat \<Rightarrow> (nat \<times> u8 list) option" where
  "itoa_digits_libc val radix uppercase buffer p =
     (if p < length buffer
      then let buffer1 = buffer[p := digit_char uppercase (itoa_digit False radix val)];
               val1 = itoa_next False radix val
           in if sint val1 > 0 then itoa_digits_libc val1 radix uppercase buffer1 (p + 1) else Some (p + 1, buffer1)
      else None)"
  by pat_completeness auto
termination
  by (relation "measure (\<lambda>(val, radix, uppercase, buffer, p). length buffer - p)") auto

declare itoa_digits_libc.simps [simp del]

definition mini_itoa_libc :: "u64 \<Rightarrow> int \<Rightarrow> bool \<Rightarrow> bool \<Rightarrow> u8 list \<Rightarrow> nat \<Rightarrow> (nat \<times> u8 list) option" where
  "mini_itoa_libc val radix uppercase unsig buffer zero_pad =
     (if radix > 16 then Some (0, buffer)
      else if radix = 0 then None
      else let negative = (sint val < 0 \<and> \<not> unsig)
           in do { r \<leftarrow> itoa_digits_libc (if negative then - val else val) radix uppercase buffer 0;
                   itoa_finish negative zero_pad r })"

section \<open>Buffers\<close>

text \<open>\<^verbatim>\<open>struct mini_buff\<close>: the buffer, the write position and the length the caller gave.\<close>

record mini_buff =
  buffer :: "u8 list"
  pbuffer :: nat
  buffer_len :: nat

definition putc :: "u8 \<Rightarrow> mini_buff \<Rightarrow> mini_buff option" where
  "putc ch b =
     (if pbuffer b + 1 \<ge> buffer_len b then Some b
      else do { (p1, b1) \<leftarrow> put_byte (buffer b) (pbuffer b) ch;
                (_, b2) \<leftarrow> put_byte b1 p1 0;
                Some (b\<lparr>buffer := b2, pbuffer := p1\<rparr>) })"

fun put_bytes :: "u8 list \<Rightarrow> nat \<Rightarrow> nat \<times> u8 list \<Rightarrow> (nat \<times> u8 list) option" where
  "put_bytes s 0 r = Some r"
| "put_bytes [] (Suc len) r = None"
| "put_bytes (c # s) (Suc len) (p, b) = do { r \<leftarrow> put_byte b p c; put_bytes s len r }"

definition puts :: "u8 list \<Rightarrow> nat \<Rightarrow> mini_buff \<Rightarrow> mini_buff option" where
  "puts s len b = do {
     let room = int (buffer_len b) - int (pbuffer b) - 1;
     let len1 = (if room < int len then room else int len);
     (if len1 < 0 then None
      else do { (p1, b1) \<leftarrow> put_bytes s (nat len1) (pbuffer b, buffer b);
                (_, b2) \<leftarrow> put_byte b1 p1 0;
                Some (b\<lparr>buffer := b2, pbuffer := p1\<rparr>) })
   }"

section \<open>Format strings\<close>

datatype va_arg = Val u64 | Ptr "u8 list"

text \<open>A directive behind \<^verbatim>\<open>%\<close>: zero padding, the long flag, the conversion, and the rest of the format.\<close>

fun read_pad :: "u8 list \<Rightarrow> u8 \<Rightarrow> (u8 \<times> u8 \<times> u8 list) option" where
  "read_pad [] zero_pad = None"
| "read_pad (ch # fmt) zero_pad =
     (if ch \<noteq> 0 \<and> 48 \<le> ch \<and> ch \<le> 57 then read_pad fmt (zero_pad * 10 + ch - 48) else Some (zero_pad, ch, fmt))"

definition read_spec :: "u8 list \<Rightarrow> (u8 \<times> bool \<times> u8 \<times> u8 list) option" where
  "read_spec fmt = (case fmt of [] \<Rightarrow> None
     | ch # fmt1 \<Rightarrow> do {
         (zero_pad, ch1, fmt2) \<leftarrow> (if ch = 48 then read_pad fmt1 0 else Some (0, ch, fmt1));
         (if ch1 = 108
          then (case fmt2 of [] \<Rightarrow> None | ch2 # fmt3 \<Rightarrow> Some (zero_pad, True, ch2, fmt3))
          else Some (zero_pad, False, ch1, fmt2))
       })"

text \<open>
  \<^verbatim>\<open>va_arg(va, unsigned int)\<close> reads the low 32 bits of the argument and extends them with zeros;
  \<^verbatim>\<open>bf\<close> is the local array of 24 bytes. The conversion function for numbers is an argument, since
  the kernel and the user library have one each.
\<close>

type_synonym itoa_fun = "u64 \<Rightarrow> int \<Rightarrow> bool \<Rightarrow> bool \<Rightarrow> u8 list \<Rightarrow> nat \<Rightarrow> (nat \<times> u8 list) option"

definition number_arg :: "bool \<Rightarrow> u64 \<Rightarrow> u64" where
  "number_arg longflag w = (if longflag then w else ucast (ucast w :: u32))"

definition put_number :: "itoa_fun \<Rightarrow> bool \<Rightarrow> u8 \<Rightarrow> u64 \<Rightarrow> int \<Rightarrow> bool \<Rightarrow> bool \<Rightarrow> mini_buff \<Rightarrow> mini_buff option" where
  "put_number itoa longflag zero_pad w radix uppercase unsig b = do {
     (len, bf) \<leftarrow> itoa (number_arg longflag w) radix uppercase unsig (replicate 24 0) (unat zero_pad);
     puts bf len b
   }"

definition convert :: "itoa_fun \<Rightarrow> u8 \<Rightarrow> bool \<Rightarrow> u8 \<Rightarrow> va_arg list \<Rightarrow> mini_buff \<Rightarrow> (va_arg list \<times> mini_buff) option" where
  "convert itoa zero_pad longflag ch va b =
     (if ch = 108 then Some (va, b)
      else if ch = 117 \<or> ch = 100
      then (case va of Val w # va1 \<Rightarrow> do { b1 \<leftarrow> put_number itoa longflag zero_pad w 10 False (ch = 117) b; Some (va1, b1) }
            | _ \<Rightarrow> None)
      else if ch = 120 \<or> ch = 88
      then (case va of Val w # va1 \<Rightarrow> do { b1 \<leftarrow> put_number itoa longflag zero_pad w 16 (ch = 88) True b; Some (va1, b1) }
            | _ \<Rightarrow> None)
      else if ch = 99
      then (case va of Val w # va1 \<Rightarrow> do { b1 \<leftarrow> putc (ucast w) b; Some (va1, b1) } | _ \<Rightarrow> None)
      else if ch = 115
      then (case va of Ptr s # va1 \<Rightarrow> do { n \<leftarrow> strlen s; b1 \<leftarrow> puts s n b; Some (va1, b1) } | _ \<Rightarrow> None)
      else do { b1 \<leftarrow> putc ch b; Some (va, b1) })"

lemma read_pad_shorter: "read_pad fmt z = Some (z', ch, rest) \<Longrightarrow> length rest < length fmt"
  by (induction fmt z rule: read_pad.induct) (auto split: if_splits)

lemma read_spec_shorter: "read_spec fmt = Some (z, l, ch, rest) \<Longrightarrow> length rest < length fmt"
  by (auto simp: read_spec_def split: list.splits if_splits Option.bind_splits dest!: read_pad_shorter)

function vsn_loop :: "itoa_fun \<Rightarrow> u8 list \<Rightarrow> va_arg list \<Rightarrow> mini_buff \<Rightarrow> mini_buff option" where
  "vsn_loop itoa fmt va b = (case fmt of [] \<Rightarrow> None
     | ch # fmt1 \<Rightarrow>
       (if ch = 0 \<or> pbuffer b + 1 \<ge> buffer_len b then Some b
        else if ch \<noteq> 37 then (case putc ch b of None \<Rightarrow> None | Some b1 \<Rightarrow> vsn_loop itoa fmt1 va b1)
        else (case read_spec fmt1 of None \<Rightarrow> None
              | Some (zero_pad, longflag, ch1, fmt2) \<Rightarrow>
                  if ch1 = 0 then Some b
                  else (case convert itoa zero_pad longflag ch1 va b of None \<Rightarrow> None
                        | Some (va1, b1) \<Rightarrow> vsn_loop itoa fmt2 va1 b1))))"
  by pat_completeness auto
termination
  by (relation "measure (\<lambda>(itoa, fmt, va, b). length fmt)") (auto dest!: read_spec_shorter)

declare vsn_loop.simps [simp del]

definition mini_vsnprintf :: "itoa_fun \<Rightarrow> u8 list \<Rightarrow> nat \<Rightarrow> u8 list \<Rightarrow> va_arg list \<Rightarrow> (nat \<times> u8 list) option" where
  "mini_vsnprintf itoa buf len fmt va =
     map_option (\<lambda>b. (pbuffer b, buffer b)) (vsn_loop itoa fmt va \<lparr>buffer = buf, pbuffer = 0, buffer_len = len\<rparr>)"

text \<open>
  \<open>_vprint\<close> formats into a local buffer of 256 bytes and hands it to an output function; the result
  is the return value with the buffer that is output.
\<close>

definition vprint :: "itoa_fun \<Rightarrow> u8 list \<Rightarrow> va_arg list \<Rightarrow> (nat \<times> u8 list) option" where
  "vprint itoa fmt va = do {
     (ret, buff) \<leftarrow> mini_vsnprintf itoa (replicate 256 0) 256 fmt va;
     (if ret < length buff then Some (ret, buff[ret := 0]) else None)
   }"

end
