(* ===== verification/Printk_Laws.thy ===== *)
theory Printk_Laws
  imports Printk
begin

text \<open>
  What formatted output writes: numbers are rendered as their digits in the given radix, and no
  format and no argument makes the formatter leave its buffer.
\<close>

section \<open>Digits\<close>

text \<open>The digits of a number, least significant first, and the number they denote.\<close>

function digits :: "nat \<Rightarrow> nat \<Rightarrow> nat list" where
  "digits r n = n mod r # (if r < 2 \<or> n div r = 0 then [] else digits r (n div r))"
  by pat_completeness auto
termination
  by (relation "measure (\<lambda>(r, n). n)") (auto intro!: div_less_dividend Nat.gr0I)

declare digits.simps [simp del]

definition number_of :: "nat \<Rightarrow> nat list \<Rightarrow> nat" where
  "number_of r ds = foldr (\<lambda>d a. d + r * a) ds 0"

lemma number_of_digits: "2 \<le> r \<Longrightarrow> number_of r (digits r n) = n"
proof (induction r n rule: digits.induct)
  case (1 r n)
  then show ?case
    by (subst digits.simps) (auto simp: number_of_def div_eq_0_iff)
qed

lemma digits_less: "0 < r \<Longrightarrow> d \<in> set (digits r n) \<Longrightarrow> d < r"
proof (induction r n rule: digits.induct)
  case (1 r n)
  then show ?case by (subst (asm) (2) digits.simps) (auto split: if_splits)
qed

lemma digits_length: "2 \<le> r \<Longrightarrow> n < r ^ k \<Longrightarrow> 0 < k \<Longrightarrow> length (digits r n) \<le> k"
proof (induction k arbitrary: n)
  case 0
  then show ?case by simp
next
  case (Suc k)
  show ?case
  proof (cases "n div r = 0")
    case True
    then show ?thesis by (subst digits.simps) simp
  next
    case False
    have "n div r < r ^ k" using Suc.prems by (simp add: less_mult_imp_div_less mult.commute)
    moreover have "0 < k" using calculation False by (cases k) auto
    ultimately show ?thesis using Suc False by (subst digits.simps) simp
  qed
qed

lemma digits_nonempty [simp]: "digits r n \<noteq> []" "0 < length (digits r n)"
  by (subst digits.simps, simp)+

section \<open>The conversion loops\<close>

lemma sint_eq_uint_nonneg: "0 \<le> sint (v::u64) \<Longrightarrow> sint v = uint v"
proof -
  assume nn: "0 \<le> sint v"
  have "uint v = take_bit 64 (sint v)" by (simp add: uint_sint)
  also have "\<dots> = sint v" using nn sint_lt [of v] by (simp add: take_bit_int_eq_self_iff)
  finally show ?thesis by simp
qed

lemma itoa_digit_nat:
  assumes "unsig \<or> 0 \<le> sint (v::u64)" "0 < radix"
  shows "itoa_digit unsig radix v = int (unat v mod nat radix)"
    "itoa_next unsig radix v = of_nat (unat v div nat radix)"
proof -
  note s = sint_eq_uint_nonneg [of v]
  have m: "uint v smod radix = uint v mod radix" "uint v sdiv radix = uint v div radix"
    using assms(2) by (cases "v = 0"; simp add: signed_modulo_int_def signed_divide_int_def)+
  have n: "int (unat v mod nat radix) = uint v mod radix" "int (unat v div nat radix) = uint v div radix"
    using assms(2) by (simp_all add: zmod_int zdiv_int)
  show "itoa_digit unsig radix v = int (unat v mod nat radix)"
    using assms s m n by (auto simp: itoa_digit_def)
  have "itoa_next unsig radix v = of_int (uint v div radix)" using assms s m by (auto simp: itoa_next_def)
  also have "\<dots> = of_nat (unat v div nat radix)" unfolding n(2) [symmetric] by simp
  finally show "itoa_next unsig radix v = of_nat (unat v div nat radix)" .
qed

lemma list_update_splice:
  "p < length b \<Longrightarrow> splice_at (p + 1) xs (b[p := x]) = splice_at p (x # xs) b"
  by (simp add: splice_at_def take_Suc_conv_app_nth drop_update_swap take_update_swap upd_conv_take_nth_drop
      add.commute)

lemma splice_single: "p < length b \<Longrightarrow> b[p := x] = splice_at p [x] b"
  by (simp add: splice_at_def upd_conv_take_nth_drop)

lemma itoa_digits_spec:
  assumes "2 \<le> radix" "unsig \<or> 0 \<le> sint (v::u64)" "p + length (digits (nat radix) (unat v)) \<le> length b"
  shows "itoa_digits v radix up unsig b p =
    Some (p + length (digits (nat radix) (unat v)), splice_at p (map (digit_char up \<circ> int) (digits (nat radix) (unat v))) b)"
  using assms
proof (induction v radix up unsig b p rule: itoa_digits.induct)
  case (1 v radix up unsig b p)
  let ?r = "nat radix"
  have r: "2 \<le> ?r" using "1.prems"(1) by simp
  have p: "p < length b" using "1.prems"(3) digits_nonempty(2) [of ?r "unat v"] by linarith
  note st = itoa_digit_nat [of unsig v radix]
  have step: "itoa_digit unsig radix v = int (unat v mod ?r)" "itoa_next unsig radix v = of_nat (unat v div ?r)"
    using st "1.prems" by simp_all
  have un: "unat (of_nat (unat v div ?r) :: u64) = unat v div ?r"
    using le_less_trans [OF div_le_dividend [of "unat v" ?r] unat64_less [of v]] by (subst unat_of_nat) simp
  have D: "digits ?r (unat v) = unat v mod ?r # (if unat v div ?r = 0 then [] else digits ?r (unat v div ?r))"
    using r by (subst digits.simps) simp
  show ?case
  proof (cases "unat v div ?r = 0")
    case True
    then have z: "(of_nat (unat v div ?r) :: u64) = 0" by simp
    show ?thesis unfolding itoa_digits.simps [of v] Let_def step z D using p True by (simp add: splice_single)
  next
    case False
    then have nz: "(of_nat (unat v div ?r) :: u64) \<noteq> 0" using un by (metis unat_0)
    have sg: "unsig \<or> 0 \<le> sint (of_nat (unat v div ?r) :: u64)"
    proof (cases unsig)
      case False
      then have "sint v = int (unat v)" using "1.prems"(2) by (simp add: sint_eq_uint_nonneg)
      then have "int (unat v) < int (2 ^ 63)" using sint_lt [of v] by simp
      then have "unat v < 2 ^ 63" by (simp only: of_nat_less_iff)
      then have lt: "unat v div ?r < 2 ^ 63" using le_less_trans div_le_dividend by blast
      have "sint (of_nat (unat v div ?r) :: u64) = int (unat v div ?r)"
        using lt by (simp add: signed_of_nat signed_take_bit_int_eq_self_iff del: of_nat_div)
      then show ?thesis by simp
    qed simp
    have "itoa_digits (of_nat (unat v div ?r)) radix up unsig (b[p := digit_char up (int (unat v mod ?r))]) (p + 1) =
      Some (p + 1 + length (digits ?r (unat v div ?r)),
        splice_at (p + 1) (map (digit_char up \<circ> int) (digits ?r (unat v div ?r))) (b[p := digit_char up (int (unat v mod ?r))]))"
      using "1.IH" [OF p refl refl] "1.prems" nz sg D False un unfolding step by (simp add: o_def)
    then show ?thesis unfolding itoa_digits.simps [of v] Let_def step D
      using p nz False by (simp add: list_update_splice [simplified] o_def)
  qed
qed

lemma itoa_pad_spec:
  "zero_pad \<le> length b \<Longrightarrow> p \<le> length b \<Longrightarrow>
   itoa_pad b p zero_pad = Some (max p zero_pad, splice_at p (replicate (zero_pad - p) 48) b)"
proof (induction b p zero_pad rule: itoa_pad.induct)
  case (1 b p zero_pad)
  show ?case
  proof (cases "p < zero_pad")
    case True
    then have e: "replicate (zero_pad - p) (48::u8) = 48 # replicate (zero_pad - (p + 1)) 48"
      by (simp add: Suc_diff_Suc flip: replicate_Suc)
    show ?thesis using True 1 unfolding itoa_pad.simps [of b p] e
      by (simp add: list_update_splice [simplified])
  next
    case False
    then show ?thesis using 1 by (simp add: itoa_pad.simps splice_at_def)
  qed
qed

lemma itoa_reverse_swaps: "i \<le> len \<Longrightarrow> itoa_reverse b i len = strrev_loop b (int i) (int len - int i - 1)"
proof (induction b i len rule: itoa_reverse.induct)
  case (1 b i len)
  have c: "i < len div 2 \<longleftrightarrow> int i < int len - int i - 1" by auto
  show ?case
  proof (cases "i < len div 2")
    case True
    then have n: "nat (int len - int i - 1) = len - i - 1" "int (i + 1) = int i + 1"
      "int len - int (i + 1) - 1 = int len - int i - 1 - 1" by auto
    show ?thesis using "1.IH" [OF True] True c
      unfolding itoa_reverse.simps [of b i] strrev_loop.simps [of b "int i"] n by simp
  next
    case False
    then show ?thesis using c unfolding itoa_reverse.simps [of b i] strrev_loop.simps [of b "int i"] by simp
  qed
qed

lemma itoa_reverse_spec: "len \<le> length b \<Longrightarrow> itoa_reverse b 0 len = rev (take len b) @ drop len b"
  using strrev_loop_swaps [of 0 "int len - 1" b] by (simp add: itoa_reverse_swaps slice_def)

section \<open>Numbers as text\<close>

lemma splice_append: "splice_at (length xs) ys (xs @ zs) = xs @ ys @ drop (length ys) zs"
  by (simp add: splice_at_def)

lemma put_byte_append: "zs \<noteq> [] \<Longrightarrow> put_byte (xs @ zs) (length xs) c = Some (length xs + 1, (xs @ [c]) @ drop 1 zs)"
  by (cases zs) (simp_all add: put_byte_def list_update_append)

definition sign_text :: "bool \<Rightarrow> u8 list" where
  "sign_text negative = (if negative then [45] else [])"

definition number_text :: "bool \<Rightarrow> bool \<Rightarrow> nat \<Rightarrow> nat list \<Rightarrow> u8 list" where
  "number_text up negative zero_pad ds =
     sign_text negative @ replicate (zero_pad - length ds) 48 @ rev (map (digit_char up \<circ> int) ds)"

lemma length_number_text: "length (number_text up negative zero_pad ds) = (if negative then 1 else 0) + max (length ds) zero_pad"
  by (auto simp: number_text_def sign_text_def)

lemma itoa_finish_spec:
  fixes xs :: "u8 list" and negative :: bool and zero_pad :: nat
  defines "T \<equiv> sign_text negative @ replicate (zero_pad - length xs) 48 @ rev xs"
  assumes fit: "length T < length b"
  shows "itoa_finish negative zero_pad (length xs, splice_at 0 xs b) = Some (length T, T @ 0 # drop (length T + 1) b)"
proof -
  let ?T = T
  define zs where "zs = replicate (zero_pad - length xs) (48::u8)"
  define b1 where "b1 = drop (length xs + length zs) b"
  have T: "rev ?T = (xs @ zs) @ sign_text negative"
    by (simp add: T_def zs_def sign_text_def)
  have lT: "length ?T = length (xs @ zs) + length (sign_text negative)" using T by (metis length_append length_rev)
  have room: "length (xs @ zs) + length (sign_text negative) < length b" using fit lT by simp
  have m: "max (length xs) zero_pad = length (xs @ zs)" by (simp add: zs_def)
  have pad: "itoa_pad (splice_at 0 xs b) (length xs) zero_pad = Some (length (xs @ zs), (xs @ zs) @ b1)"
    using room m by (subst itoa_pad_spec) (auto simp: splice_at_def b1_def zs_def max_def add.commute)
  have b1: "b1 \<noteq> []" "drop (length (sign_text negative)) b1 \<noteq> []" using room by (auto simp: b1_def)
  have sg: "(if negative then put_byte ((xs @ zs) @ b1) (length (xs @ zs)) 45 else Some (length (xs @ zs), (xs @ zs) @ b1)) =
      Some (length (rev ?T), rev ?T @ drop (length (sign_text negative)) b1)"
    using put_byte_append [OF b1(1), of "xs @ zs" 45] unfolding T by (simp add: sign_text_def)
  have nul: "put_byte (rev ?T @ drop (length (sign_text negative)) b1) (length (rev ?T)) 0 =
      Some (length ?T + 1, (rev ?T @ [0]) @ drop (length ?T + 1) b)"
    using put_byte_append [OF b1(2), of "rev ?T" 0] lT by (simp add: b1_def add_ac)
  have "itoa_reverse ((rev ?T @ [0]) @ drop (length ?T + 1) b) 0 (length (rev ?T)) = ?T @ 0 # drop (length ?T + 1) b"
    by (subst itoa_reverse_spec) simp_all
  then show ?thesis unfolding itoa_finish_def Let_def prod.case pad bind.bind_lunit
    using sg nul by simp
qed

text \<open>
  A signed number has the digits of its absolute value behind its sign; the smallest \<^verbatim>\<open>long\<close> has
  none, since \<^verbatim>\<open>-value\<close> overflows.
\<close>

lemma mini_itoa_spec:
  assumes r: "2 \<le> radix" "radix \<le> 16" and ok: "unsig \<or> sint (v::u64) \<noteq> - (2 ^ 63)"
    and neg: "negative = (sint v < 0 \<and> \<not> unsig)"
    and T: "T = number_text up negative zero_pad (digits (nat radix) (unat (if negative then - v else v)))"
    and room: "length T < length b"
  shows "mini_itoa v radix up unsig b zero_pad = Some (length T, T @ 0 # drop (length T + 1) b)"
proof -
  let ?v = "if negative then - v else v"
  let ?ds = "digits (nat radix) (unat ?v)"
  have nn: "unsig \<or> 0 \<le> sint ?v"
  proof (cases unsig)
    case False
    have "sint (- v) = - sint v" if "sint v < 0" using ok False that sint_ge [of v]
      by (simp add: sint_word_ariths signed_take_bit_int_eq_self_iff)
    then show ?thesis using neg False by (cases "sint v < 0") auto
  qed simp
  have "length ?ds \<le> length b" using room unfolding T length_number_text by simp
  then have "itoa_digits ?v radix up unsig b 0 = Some (length ?ds, splice_at 0 (map (digit_char up \<circ> int) ?ds) b)"
    using itoa_digits_spec [OF r(1) nn, of 0] by simp
  then show ?thesis
    using itoa_finish_spec [of negative zero_pad "map (digit_char up \<circ> int) ?ds" b] room r
    by (simp add: T number_text_def mini_itoa_def neg [symmetric] Let_def)
qed

section \<open>Buffers are not overrun\<close>

text \<open>The value the digit loop works on, read as the loop reads it.\<close>

definition itoa_val :: "bool \<Rightarrow> u64 \<Rightarrow> int" where
  "itoa_val unsig v = (if unsig then uint v else sint v)"

lemma int_div_less: "0 < r \<Longrightarrow> x < r * y \<Longrightarrow> x div r < (y::int)"
proof -
  assume r: "0 < r" and x: "x < r * y"
  have "r * (x div r) \<le> x" using r by (simp add: mult.commute minus_mod_eq_mult_div [symmetric])
  then have "r * (x div r) < r * y" using x by (rule le_less_trans)
  then show ?thesis using r by simp
qed

lemma abs_sdiv_less:
  assumes "2 \<le> r" "\<bar>x\<bar> < r ^ Suc k"
  shows "\<bar>x sdiv r\<bar> < (r::int) ^ k" "2 * \<bar>x sdiv r\<bar> \<le> \<bar>x\<bar>"
proof -
  have e: "\<bar>x sdiv r\<bar> = \<bar>x\<bar> div r" using assms(1)
    by (cases "x = 0") (simp_all add: signed_divide_int_def abs_mult abs_sgn_eq pos_imp_zdiv_nonneg_iff)
  show "\<bar>x sdiv r\<bar> < r ^ k" unfolding e using assms by (simp add: int_div_less)
  show "2 * \<bar>x sdiv r\<bar> \<le> \<bar>x\<bar>" unfolding e using assms(1) zdiv_mono2 [of "\<bar>x\<bar>" 2 r] by simp
qed

lemma itoa_val_next:
  assumes "2 \<le> r" "\<bar>itoa_val unsig v\<bar> < r ^ Suc k"
  shows "\<bar>itoa_val unsig (itoa_next unsig r v)\<bar> < r ^ k"
proof (cases unsig)
  case True
  have "uint v div r \<le> uint v" "0 \<le> uint v div r" using assms(1) zdiv_mono2 [of "uint v" 1 r] by (auto simp: pos_imp_zdiv_nonneg_iff)
  then have "uint (of_int (uint v div r) :: u64) = uint v div r"
    using uint_lt2p [of v] by (simp add: unsigned_of_int take_bit_int_eq_self_iff)
  moreover have "uint v div r < r ^ k" using assms True by (simp add: itoa_val_def int_div_less)
  ultimately show ?thesis using True \<open>0 \<le> uint v div r\<close> by (simp add: itoa_val_def itoa_next_def)
next
  case False
  have b: "\<bar>sint v sdiv r\<bar> < r ^ k" "2 * \<bar>sint v sdiv r\<bar> \<le> \<bar>sint v\<bar>"
    using abs_sdiv_less [OF assms(1), of "sint v" k] assms(2) False by (simp_all add: itoa_val_def)
  have "\<bar>sint v\<bar> \<le> 2 ^ 63" using sint_lt [of v] sint_ge [of v] by simp
  then have "2 * \<bar>sint v sdiv r\<bar> \<le> 2 ^ 63" using b(2) by (rule order_trans [rotated])
  then have "- (2 ^ 63) \<le> sint v sdiv r" "sint v sdiv r < 2 ^ 63" by simp_all
  then have "sint (of_int (sint v sdiv r) :: u64) = sint v sdiv r"
    by (simp add: signed_of_int signed_take_bit_int_eq_self_iff)
  then show ?thesis using b(1) False by (simp add: itoa_val_def itoa_next_def)
qed

lemma itoa_digits_bound:
  assumes "2 \<le> r" "\<bar>itoa_val unsig v\<bar> < r ^ k" "0 < k" "p + k \<le> length b"
  shows "\<exists>q b'. itoa_digits v r up unsig b p = Some (q, b') \<and> q \<le> p + k \<and> length b' = length b"
  using assms
proof (induction k arbitrary: v p b)
  case 0
  then show ?case by simp
next
  case (Suc k)
  let ?n = "itoa_next unsig r v" and ?b = "b[p := digit_char up (itoa_digit unsig r v)]"
  have n: "\<bar>itoa_val unsig ?n\<bar> < r ^ k" using itoa_val_next [OF Suc.prems(1,2)] .
  show ?case
  proof (cases "?n = 0")
    case True
    then show ?thesis using Suc.prems by (subst itoa_digits.simps) simp
  next
    case False
    then have "itoa_val unsig ?n \<noteq> 0" by (auto simp: itoa_val_def unsigned_eq_0_iff signed_eq_0_iff)
    then have "0 < k" using n by (cases k) auto
    then show ?thesis using Suc.IH [OF Suc.prems(1) n, of "p + 1" ?b] Suc.prems(4) False
      by (subst itoa_digits.simps) (auto simp: Let_def)
  qed
qed

lemma itoa_finish_bound:
  assumes "p \<le> length b" "max p zero_pad + 1 < length b"
  shows "\<exists>q b'. itoa_finish negative zero_pad (p, b) = Some (q, b') \<and> q \<le> max p zero_pad + 1 \<and> length b' = length b"
proof -
  have "splice_at 0 (take p b) b = b" "length (take p b) = p" using assms(1) by (simp_all add: splice_at_def min_def)
  then show ?thesis using itoa_finish_spec [of negative zero_pad "take p b" b] assms
    by (cases negative; cases "zero_pad \<le> p") (auto simp: sign_text_def)
qed

lemma mini_itoa_bound:
  assumes r: "r = 10 \<or> r = 16" and zp: "zero_pad \<le> 22" and b: "length b = 24"
  shows "\<exists>len b'. mini_itoa v r up unsig b zero_pad = Some (len, b') \<and> len < 24 \<and> length b' = 24"
proof -
  define w where "w = (if sint v < 0 \<and> \<not> unsig then - v else v)"
  have "\<bar>itoa_val unsig w\<bar> < 2 ^ 64"
    using uint_lt2p [of w] sint_lt [of w] sint_ge [of w] by (auto simp: itoa_val_def)
  also have "(2::int) ^ 64 \<le> r ^ 20" using r by auto
  finally obtain q b1 where d: "itoa_digits w r up unsig b 0 = Some (q, b1)" "q \<le> 20" "length b1 = 24"
    using itoa_digits_bound [of r unsig w 20 0 b up] r b by auto
  obtain len b' where "itoa_finish (sint v < 0 \<and> \<not> unsig) zero_pad (q, b1) = Some (len, b')"
      "len \<le> max q zero_pad + 1" "length b' = 24"
    using itoa_finish_bound [of q b1 zero_pad "sint v < 0 \<and> \<not> unsig"] d zp by auto
  then show ?thesis using r d zp by (auto simp: mini_itoa_def Let_def w_def split: if_splits)
qed

text \<open>\<open>inside b0 b\<close>: writing from \<open>b0\<close> to \<open>b\<close> stayed in the part of the buffer the caller gave.\<close>

definition inside :: "mini_buff \<Rightarrow> mini_buff \<Rightarrow> bool" where
  "inside b0 b \<longleftrightarrow> pbuffer b < buffer_len b \<and> buffer_len b \<le> length (buffer b) \<and> buffer_len b = buffer_len b0 \<and>
     length (buffer b) = length (buffer b0) \<and> drop (buffer_len b) (buffer b) = drop (buffer_len b) (buffer b0) \<and>
     (pbuffer b = 0 \<or> buffer b ! pbuffer b = 0)"

lemma putc_inside:
  assumes "inside b0 b"
  shows "\<exists>b'. putc ch b = Some b' \<and> inside b0 b'"
  using assms by (auto simp: putc_def put_byte_def inside_def nth_list_update)

lemma put_bytes_spec:
  "n \<le> length s \<Longrightarrow> p + n \<le> length b \<Longrightarrow> put_bytes s n (p, b) = Some (p + n, splice_at p (take n s) b)"
proof (induction s n "(p, b)" arbitrary: p b rule: put_bytes.induct)
  case (3 c s len p b)
  then have "put_bytes s len (p + 1, b[p := c]) = Some (p + 1 + len, splice_at (p + 1) (take len s) (b[p := c]))"
    by (auto simp: put_byte_def)
  then show ?case using 3 by (simp add: put_byte_def list_update_splice [simplified])
qed (simp_all add: splice_at_def)

lemma puts_inside:
  assumes i: "inside b0 b" and n: "n \<le> length s"
  shows "\<exists>b'. puts s n b = Some b' \<and> inside b0 b'"
proof -
  define m where "m = min n (buffer_len b - pbuffer b - 1)"
  define b1 where "b1 = splice_at (pbuffer b) (take m s) (buffer b)"
  have pb: "pbuffer b + m < buffer_len b" "buffer_len b \<le> length (buffer b)" "m \<le> length s"
    using i n by (auto simp: inside_def m_def)
  then have l: "length b1 = length (buffer b)" unfolding b1_def by (subst length_splice_at) auto
  have dr: "drop (buffer_len b) b1 = drop (buffer_len b) (buffer b)"
    using pb by (simp add: b1_def splice_at_def)
  have len1: "(if int (buffer_len b) - int (pbuffer b) - 1 < int n then int (buffer_len b) - int (pbuffer b) - 1 else int n) = int m"
    using i by (auto simp: m_def inside_def)
  have "put_bytes s m (pbuffer b, buffer b) = Some (pbuffer b + m, b1)"
    using pb unfolding b1_def by (intro put_bytes_spec) auto
  then have "puts s n b = Some (b\<lparr>buffer := b1[pbuffer b + m := 0], pbuffer := pbuffer b + m\<rparr>)"
    unfolding puts_def Let_def len1 using pb l by (simp add: put_byte_def)
  moreover have "inside b0 (b\<lparr>buffer := b1[pbuffer b + m := 0], pbuffer := pbuffer b + m\<rparr>)"
    using i pb l dr by (auto simp: inside_def)
  ultimately show ?thesis by blast
qed

text \<open>
  A format string and the arguments for it: every directive finds an argument of its kind, strings are
  terminated, and a requested zero padding is at most 22.
\<close>

definition spec_ok :: "u8 \<Rightarrow> u8 \<Rightarrow> va_arg list \<Rightarrow> va_arg list option" where
  "spec_ok zero_pad ch va =
     (if ch \<in> {117, 100, 120, 88}
      then (case va of Val w # va1 \<Rightarrow> if unat zero_pad \<le> 22 then Some va1 else None | _ \<Rightarrow> None)
      else if ch = 99 then (case va of Val w # va1 \<Rightarrow> Some va1 | _ \<Rightarrow> None)
      else if ch = 115 then (case va of Ptr s # va1 \<Rightarrow> if strlen s = None then None else Some va1 | _ \<Rightarrow> None)
      else Some va)"

function fmt_ok :: "u8 list \<Rightarrow> va_arg list \<Rightarrow> bool" where
  "fmt_ok fmt va = (case fmt of [] \<Rightarrow> False
     | ch # fmt1 \<Rightarrow>
        if ch = 0 then True
        else if ch \<noteq> 37 then fmt_ok fmt1 va
        else (case read_spec fmt1 of None \<Rightarrow> False
              | Some (zero_pad, longflag, ch1, fmt2) \<Rightarrow>
                  if ch1 = 0 then True
                  else (case spec_ok zero_pad ch1 va of None \<Rightarrow> False | Some va1 \<Rightarrow> fmt_ok fmt2 va1)))"
  by pat_completeness auto
termination
  by (relation "measure (\<lambda>(fmt, va). length fmt)") (auto dest!: read_spec_shorter)

declare fmt_ok.simps [simp del]

lemma put_number_inside:
  assumes "inside b0 b" "unat zero_pad \<le> 22" "r = 10 \<or> r = 16"
  shows "\<exists>b'. put_number mini_itoa longflag zero_pad w r up unsig b = Some b' \<and> inside b0 b'"
proof -
  obtain len bf where bf: "mini_itoa (number_arg longflag w) r up unsig (replicate 24 0) (unat zero_pad) = Some (len, bf)"
    "len < 24" "length bf = 24" using mini_itoa_bound [OF assms(3,2), of "replicate 24 0" "number_arg longflag w" up unsig] by auto
  then show ?thesis using puts_inside [OF assms(1), of len bf] by (simp add: put_number_def)
qed

lemma convert_inside:
  assumes i: "inside b0 b" and ok: "spec_ok zero_pad ch va = Some va1"
  shows "\<exists>b'. convert mini_itoa zero_pad longflag ch va b = Some (va1, b') \<and> inside b0 b'"
proof (cases "ch \<in> {117, 100, 120, 88}")
  case True
  then obtain w where va: "va = Val w # va1" "unat zero_pad \<le> 22"
    using ok by (auto simp: spec_ok_def split: list.splits va_arg.splits if_splits)
  obtain b1 b2 where "put_number mini_itoa longflag zero_pad w 10 False (ch = 117) b = Some b1" "inside b0 b1"
      "put_number mini_itoa longflag zero_pad w 16 (ch = 88) True b = Some b2" "inside b0 b2"
    using put_number_inside [OF i va(2), of 10] put_number_inside [OF i va(2), of 16] by blast
  moreover from True have "ch = 117 \<or> ch = 100 \<or> ch = 120 \<or> ch = 88" by simp
  ultimately show ?thesis using va(1) by (elim disjE) (simp_all add: convert_def)
next
  case False
  consider "ch = 99" | "ch = 115" | "ch = 108" | "ch \<notin> {99, 115, 108}" by blast
  then show ?thesis
  proof cases
    case 1
    then obtain w where "va = Val w # va1" using ok by (auto simp: spec_ok_def split: list.splits va_arg.splits)
    then show ?thesis using putc_inside [OF i, of "ucast w"] 1 by (auto simp: convert_def)
  next
    case 2
    then obtain s n where va: "va = Ptr s # va1" "strlen s = Some n"
      using ok by (auto simp: spec_ok_def split: list.splits va_arg.splits if_splits)
    then have "n \<le> length s" using strlen_SomeD by fastforce
    then obtain b1 where "puts s n b = Some b1" "inside b0 b1" using puts_inside [OF i] by blast
    then show ?thesis using va 2 by (simp add: convert_def)
  next
    case 3
    then show ?thesis using ok i by (auto simp: convert_def spec_ok_def)
  next
    case 4
    then show ?thesis using ok False putc_inside [OF i, of ch] by (auto simp: convert_def spec_ok_def)
  qed
qed

lemma vsn_loop_inside:
  "inside b0 b \<Longrightarrow> fmt_ok fmt va \<Longrightarrow> \<exists>b'. vsn_loop mini_itoa fmt va b = Some b' \<and> inside b0 b'"
proof (induction fmt va arbitrary: b rule: fmt_ok.induct)
  case (1 fmt va)
  obtain ch fmt1 where f: "fmt = ch # fmt1" using 1(4) by (cases fmt) (auto simp: fmt_ok.simps)
  show ?case
  proof (cases "ch = 0 \<or> pbuffer b + 1 \<ge> buffer_len b")
    case True
    then show ?thesis using 1(3) f by (auto simp: vsn_loop.simps)
  next
    case False
    show ?thesis
    proof (cases "ch = 37")
      case False
      obtain b1 where b1: "putc ch b = Some b1" "inside b0 b1" using putc_inside [OF 1(3)] by blast
      then show ?thesis using 1(1) [OF f _ False b1(2)] 1(4) f False \<open>\<not> (ch = 0 \<or> _)\<close>
        by (subst vsn_loop.simps) (auto simp: fmt_ok.simps [of "ch # fmt1"])
    next
      case True
      obtain zp l ch1 fmt2 where sp: "read_spec fmt1 = Some (zp, l, ch1, fmt2)"
        using 1(4) f True by (subst (asm) fmt_ok.simps) (auto split: option.splits)
      show ?thesis
      proof (cases "ch1 = 0")
        case True
        then show ?thesis using sp f 1(3) \<open>ch = 37\<close> by (subst vsn_loop.simps) auto
      next
        case False
        then obtain va1 where va1: "spec_ok zp ch1 va = Some va1" "fmt_ok fmt2 va1"
          using 1(4) f True sp by (subst (asm) fmt_ok.simps) (auto split: option.splits)
        obtain b1 where b1: "convert mini_itoa zp l ch1 va b = Some (va1, b1)" "inside b0 b1"
          using convert_inside [OF 1(3) va1(1)] by blast
        have "\<exists>b'. vsn_loop mini_itoa fmt2 va1 b1 = Some b' \<and> inside b0 b'"
          using 1(2) [OF f _ _ sp refl refl refl False va1(1) b1(2) va1(2)] True \<open>\<not> (ch = 0 \<or> _)\<close> by simp
        then show ?thesis using sp f False True b1(1) \<open>\<not> (ch = 0 \<or> _)\<close> by (subst vsn_loop.simps) auto
      qed
    qed
  qed
qed

text \<open>
  C38: Formatted kernel output never overruns a buffer. For every format string whose directives match
  the arguments and ask for at most 22 digits of zero padding, \<^verbatim>\<open>mini_vsnprintf\<close> returns a length
  below the buffer length, ends the text with a zero byte if it wrote any, and leaves everything behind
  the buffer length unchanged.
\<close>

theorem mini_vsnprintf_in_bounds:
  assumes "fmt_ok fmt va" "0 < len" "len \<le> length buf"
  shows "\<exists>n buf'. mini_vsnprintf mini_itoa buf len fmt va = Some (n, buf') \<and> n < len \<and> length buf' = length buf \<and>
    (n = 0 \<or> buf' ! n = 0) \<and> drop len buf' = drop len buf"
proof -
  let ?b = "\<lparr>buffer = buf, pbuffer = 0, buffer_len = len\<rparr>"
  have "inside ?b ?b" using assms(2,3) by (simp add: inside_def)
  then obtain b where "vsn_loop mini_itoa fmt va ?b = Some b" "inside ?b b" using vsn_loop_inside [OF _ assms(1)] by blast
  then show ?thesis by (auto simp: mini_vsnprintf_def inside_def)
qed

theorem mini_vsnprintf_in_bounds_witness:
  "\<exists>n buf'. mini_vsnprintf mini_itoa (replicate 8 7) 6 (cstr ''%s: %016lx'') [Ptr (cstr ''ra''), Val 0xffffffc050203000] = Some (n, buf') \<and>
     n < 6 \<and> length buf' = 8 \<and> (n = 0 \<or> buf' ! n = 0) \<and> drop 6 buf' = [7, 7]"
proof -
  have "fmt_ok (cstr ''%s: %016lx'') [Ptr (cstr ''ra''), Val 0xffffffc050203000]"
    by (simp add: cstr_def fmt_ok.simps read_spec_def spec_ok_def)
  then show ?thesis using mini_vsnprintf_in_bounds [of _ _ 6 "replicate 8 7"] by (simp add: numeral_eq_Suc)
qed

end
