(* ===== verification/Libc.thy ===== *)
theory Libc
  imports Printk_Laws
begin

text \<open>
  Conversions and helpers of the user library: \<open>src/tiny_libc/atoi.c\<close>, \<open>itoa.c\<close>, \<open>rand.c\<close> and
  \<open>mailbox.c\<close>, with the character classes of \<open>include/ctype.h\<close>. A \<^verbatim>\<open>long\<close> is given by its 64 bits.
\<close>

section \<open>Character classes\<close>

definition isdigit :: "u8 \<Rightarrow> bool" where
  "isdigit ch \<longleftrightarrow> 48 \<le> ch \<and> ch \<le> 57"

definition isspace :: "u8 \<Rightarrow> bool" where
  "isspace ch \<longleftrightarrow> ch = 32 \<or> ch = 9 \<or> ch = 10 \<or> ch = 11 \<or> ch = 12 \<or> ch = 13"

section \<open>Reading numbers\<close>

text \<open>
  The loop \<^verbatim>\<open>while (isspace( *str)) { ; }\<close> has an empty body: at a blank it never ends.
\<close>

partial_function (option) skip_blanks :: "u8 list \<Rightarrow> u8 list option" where
  "skip_blanks str = (case str of [] \<Rightarrow> None | c # _ \<Rightarrow> if isspace c then skip_blanks str else Some str)"

fun atol_loop :: "bool \<Rightarrow> u64 \<Rightarrow> u8 list \<Rightarrow> u64 option option" where
  "atol_loop hex ret [] = None"
| "atol_loop hex ret (c # str) =
     (if c = 0 then Some (Some ret)
      else if isdigit c then atol_loop hex (ret * (if hex then 16 else 10) + (ucast c - 48)) str
      else if hex
      then if 97 \<le> c \<and> c \<le> 102 then atol_loop hex (ret * 16 + (ucast c - 97 + 10)) str
           else if 65 \<le> c \<and> c \<le> 70 then atol_loop hex (ret * 16 + (ucast c - 65 + 10)) str
           else Some None
      else Some None)"

text \<open>
  The pointer may be \<^verbatim>\<open>NULL\<close>. \<open>has_0x\<close> looks at the second character only when the first is \<^verbatim>\<open>0\<close>.
\<close>

definition has_0x :: "u8 list \<Rightarrow> bool option" where
  "has_0x str = (case str of [] \<Rightarrow> None
     | c # str1 \<Rightarrow> if c \<noteq> 48 then Some False
                  else (case str1 of [] \<Rightarrow> None | d # _ \<Rightarrow> Some (d = 120 \<or> d = 88)))"

definition atol_number :: "bool \<Rightarrow> u8 list \<Rightarrow> u64 option" where
  "atol_number negative str = do {
     hex \<leftarrow> has_0x str;
     r \<leftarrow> atol_loop hex 0 (if hex then drop 2 str else str);
     Some (case r of None \<Rightarrow> 0 | Some ret \<Rightarrow> if negative then - ret else ret)
   }"

definition atol :: "u8 list option \<Rightarrow> u64 option" where
  "atol ptr = (case ptr of None \<Rightarrow> Some 0
     | Some str0 \<Rightarrow> do {
         str \<leftarrow> skip_blanks str0;
         (case str of [] \<Rightarrow> None
          | c # str1 \<Rightarrow>
              if c = 43 then atol_number False str1
              else if c = 45 then atol_number True str1
              else if isdigit c then atol_number False str
              else Some 0)
       })"

definition atoi :: "u8 list option \<Rightarrow> u32 option" where
  "atoi ptr = map_option ucast (atol ptr)"

section \<open>Writing numbers\<close>

text \<open>
  \<^verbatim>\<open>itoa\<close>: a call is given the buffer \<open>str\<close> and its length \<open>len\<close>; the result is the return value and the
  buffer. The digit of a negative number is negative.
\<close>

function itoa_loop :: "int \<Rightarrow> int \<Rightarrow> int \<Rightarrow> u8 list \<Rightarrow> nat \<Rightarrow> (int \<times> nat \<times> u8 list) option" where
  "itoa_loop num_base sm len str i =
     (if i < length str
      then let digit = sm smod num_base;
               str1 = str[i := (if digit < 10 then 48 + of_int digit else 65 + of_int digit - 10)];
               sm1 = sm sdiv num_base
           in if sm1 \<noteq> 0 \<and> int (i + 1) < len - 1 then itoa_loop num_base sm1 len str1 (i + 1)
              else Some (sm1, i + 1, str1)
      else None)"
  by pat_completeness auto
termination
  by (relation "measure (\<lambda>(num_base, sm, len, str, i). length str - i)") auto

declare itoa_loop.simps [simp del]

definition itoa :: "int \<Rightarrow> u8 list \<Rightarrow> int \<Rightarrow> int \<Rightarrow> (int \<times> u8 list) option" where
  "itoa num str len num_base =
     (if len = 0 then Some (- 1, str)
      else if num_base = 0 then None
      else do {
        (sm, i, str1) \<leftarrow> itoa_loop num_base num len str 0;
        (if int i = len - 1 \<and> sm \<noteq> 0 then Some (- 1, str1)
         else do { (_, str2) \<leftarrow> put_byte str1 i 0; str3 \<leftarrow> strrev str2; Some (0, str3) })
      })"

section \<open>Random numbers and checksums\<close>

text \<open>
  \<^verbatim>\<open>rand\<close>: the product of a \<^verbatim>\<open>long long\<close> constant and the state \<open>x\<close>, which is an \<^verbatim>\<open>int\<close>.
\<close>

definition srand :: "u32 \<Rightarrow> u32" where
  "srand seed = seed"

definition rand :: "u32 \<Rightarrow> u32" where
  "rand x = ucast ((0x5deece66d * scast x + 0xb :: u64) AND 0x7fffffff)"

definition MOD_ADLER :: u32 where "MOD_ADLER = 65521"

fun adler32_loop :: "u8 list \<Rightarrow> nat \<Rightarrow> u32 \<Rightarrow> u32 \<Rightarrow> (u32 \<times> u32) option" where
  "adler32_loop dat 0 a b = Some (a, b)"
| "adler32_loop [] (Suc n) a b = None"
| "adler32_loop (d # dat) (Suc n) a b =
     (let a1 = (a + ucast d) mod MOD_ADLER in adler32_loop dat n a1 ((b + a1) mod MOD_ADLER))"

definition adler32 :: "u8 list \<Rightarrow> nat \<Rightarrow> u32 option" where
  "adler32 dat len = do { (a, b) \<leftarrow> adler32_loop dat len 1 0; Some (push_bit 16 b OR a) }"

text \<open>
  \<^verbatim>\<open>generateRandomString\<close>: the buffer is filled from its end with characters of \<^verbatim>\<open>alpha\<close>, whose
  terminator counts as one of them; the state of \<^verbatim>\<open>rand\<close> is threaded.
\<close>

definition alpha :: "u8 list" where
  "alpha = cstr ''abcdefghijklmnopqrstuvwxyzABCDEFGHIJKLMNOPQRSTUVWXYZ0123456789-={};|[],./<>?!@#$%^&*''"

fun random_loop :: "nat \<Rightarrow> u8 list \<Rightarrow> u32 \<Rightarrow> u8 list \<times> u32" where
  "random_loop 0 buf x = (buf, x)"
| "random_loop (Suc i) buf x =
     (let x1 = rand x in random_loop i (buf[i := alpha ! nat (sint x1 smod int (length alpha))]) x1)"

definition generateRandomString :: "u8 list \<Rightarrow> int \<Rightarrow> u32 \<Rightarrow> (u8 list \<times> u32) option" where
  "generateRandomString buf len x =
     (if 1 \<le> len \<and> nat len \<le> length buf then Some (random_loop (nat (len - 1)) (buf[nat (len - 1) := 0]) x) else None)"

section \<open>Printing and reading back\<close>

lemma digit_char_range:
  assumes "d < 10"
  shows "isdigit (digit_char up (int d))" "digit_char up (int d) \<noteq> 0" "ucast (digit_char up (int d)) - 48 = (of_nat d :: u64)"
    "\<not> isspace (digit_char up (int d))" "digit_char up (int d) \<noteq> 43" "digit_char up (int d) \<noteq> 45"
    "digit_char up (int d) \<noteq> 120" "digit_char up (int d) \<noteq> 88"
proof -
  have "d = 0 \<or> d = 1 \<or> d = 2 \<or> d = 3 \<or> d = 4 \<or> d = 5 \<or> d = 6 \<or> d = 7 \<or> d = 8 \<or> d = 9" using assms by arith
  then show "isdigit (digit_char up (int d))" "digit_char up (int d) \<noteq> 0" "ucast (digit_char up (int d)) - 48 = (of_nat d :: u64)"
    "\<not> isspace (digit_char up (int d))" "digit_char up (int d) \<noteq> 43" "digit_char up (int d) \<noteq> 45"
    "digit_char up (int d) \<noteq> 120" "digit_char up (int d) \<noteq> 88"
    by (elim disjE; simp add: digit_char_def isdigit_def isspace_def)+
qed

lemma atol_loop_digits:
  "\<forall>d\<in>set ds. d < 10 \<Longrightarrow>
   atol_loop False ret (map (digit_char up \<circ> int) ds @ rest) = atol_loop False (foldl (\<lambda>a d. a * 10 + of_nat d) ret ds) rest"
  by (induction ds arbitrary: ret) (simp_all add: digit_char_range)

lemma foldl_number: "foldl (\<lambda>a d. a * 10 + of_nat d) 0 (rev ds) = (of_nat (number_of 10 ds) :: u64)"
  by (induction ds) (simp_all add: number_of_def algebra_simps)

lemma has_0x_digits:
  "\<forall>d\<in>set ds. d < 10 \<Longrightarrow> ds \<noteq> [] \<Longrightarrow> has_0x (map (digit_char up \<circ> int) ds @ 0 # rest) = Some False"
  by (cases ds; cases "tl ds") (auto simp: has_0x_def digit_char_range)

lemma atol_number_digits:
  assumes "\<forall>d\<in>set ds. d < 10" "ds \<noteq> []"
  shows "atol_number negative (rev (map (digit_char up \<circ> int) ds) @ 0 # rest) =
    Some (if negative then - of_nat (number_of 10 ds) else of_nat (number_of 10 ds))"
proof -
  have r: "rev (map (digit_char up \<circ> int) ds) = map (digit_char up \<circ> int) (rev ds)" by (simp add: rev_map)
  have "has_0x (map (digit_char up \<circ> int) (rev ds) @ 0 # rest) = Some False"
    using assms by (intro has_0x_digits) auto
  moreover have "atol_loop False 0 (map (digit_char up \<circ> int) (rev ds) @ 0 # rest) = Some (Some (of_nat (number_of 10 ds)))"
    using assms by (subst atol_loop_digits) (simp_all add: foldl_number del: o_apply)
  ultimately show ?thesis unfolding r atol_number_def by simp
qed

lemma skip_blanks_nonblank: "\<not> isspace c \<Longrightarrow> skip_blanks (c # str) = Some (c # str)"
  by (subst skip_blanks.simps) simp

text \<open>
  C37: What the kernel prints, user programs read back. For every \<^verbatim>\<open>long\<close> but the smallest one and every
  buffer of at least 22 bytes, the decimal conversion \<^verbatim>\<open>mini_itoa\<close> succeeds, and \<^verbatim>\<open>atol\<close> of the
  resulting buffer returns and gives the same number.
\<close>

theorem atol_mini_itoa:
  assumes v: "sint (v::u64) \<noteq> - (2 ^ 63)" and b: "22 \<le> length b"
  shows "\<exists>len b'. mini_itoa v 10 up False b 0 = Some (len, b') \<and> atol (Some b') = Some v"
proof -
  define negative where "negative = (sint v < 0 \<and> \<not> False)"
  let ?v = "if negative then - v else v"
  define ds where "ds = digits 10 (unat ?v)"
  define T where "T = number_text up negative 0 ds"
  have "unat ?v < 10 ^ 20" using unat64_less [of ?v] by simp
  then have "length ds \<le> 20" unfolding ds_def by (intro digits_length) auto
  then have len: "length T < length b" unfolding T_def length_number_text using b by simp
  have it: "mini_itoa v 10 up False b 0 = Some (length T, T @ 0 # drop (length T + 1) b)"
    using v len by (intro mini_itoa_spec [OF _ _ _ negative_def]) (auto simp: T_def ds_def)
  have ds: "\<forall>d\<in>set ds. d < 10" "ds \<noteq> []" using digits_less [of 10] by (auto simp: ds_def)
  have n: "of_nat (number_of 10 ds) = ?v" by (simp add: ds_def number_of_digits)
  let ?r = "0 # drop (length T + 1) b" and ?D = "rev (map (digit_char up \<circ> int) ds)"
  have "atol (Some (T @ ?r)) = Some v"
  proof (cases negative)
    case True
    then have "T @ ?r = 45 # ?D @ ?r" by (simp add: T_def number_text_def sign_text_def)
    then show ?thesis using atol_number_digits [OF ds, of True] n True
      by (simp add: atol_def skip_blanks_nonblank isspace_def)
  next
    case False
    then have T': "T = ?D" by (simp add: T_def number_text_def sign_text_def)
    obtain e es where e: "rev ds = e # es" using ds(2) by (cases "rev ds") auto
    then have "e < 10" using ds(1) by (metis list.set_intros(1) set_rev)
    moreover have D: "?D = digit_char up (int e) # map (digit_char up \<circ> int) es" using e by (simp add: rev_map)
    moreover have "atol_number False (?D @ ?r) = Some v" using atol_number_digits [OF ds, of False] n False by simp
    ultimately show ?thesis unfolding T' D by (simp add: atol_def skip_blanks_nonblank digit_char_range)
  qed
  then show ?thesis using it by blast
qed

theorem atol_mini_itoa_witness:
  "\<exists>len b'. mini_itoa (- 4711) 10 False False (replicate 24 0) 0 = Some (len, b') \<and> atol (Some b') = Some (- 4711)"
  by (rule atol_mini_itoa) simp_all

section \<open>Which strings atol reads\<close>

lemma skip_blanks_blank: "isspace c \<Longrightarrow> skip_blanks (c # str) = None"
proof (rule ccontr)
  assume c: "isspace c" and n: "skip_blanks (c # str) \<noteq> None"
  then obtain r where r: "skip_blanks (c # str) = Some r" by auto
  have "\<not> isspace (hd (c # str))"
    by (rule skip_blanks.raw_induct [OF _ r]) (fastforce split: list.splits if_splits)
  then show False using c by simp
qed

lemma atol_loop_returns: "strlen str \<noteq> None \<Longrightarrow> atol_loop hex ret str \<noteq> None"
  by (induction hex ret str rule: atol_loop.induct) auto

lemma strlen_drop: "strlen (c # str) \<noteq> None \<Longrightarrow> c \<noteq> 0 \<Longrightarrow> strlen str \<noteq> None"
  by auto

lemma atol_number_returns:
  assumes "strlen str \<noteq> None"
  shows "atol_number negative str \<noteq> None"
proof -
  obtain c str1 where c: "str = c # str1" using assms by (cases str) auto
  show ?thesis
  proof (cases "c = 48")
    case False
    then show ?thesis using c atol_loop_returns [OF assms, of False 0] by (auto simp: atol_number_def has_0x_def)
  next
    case True
    then have s1: "strlen str1 \<noteq> None" using assms c by auto
    then obtain d str2 where d: "str1 = d # str2" by (cases str1) auto
    show ?thesis
    proof (cases "d = 120 \<or> d = 88")
      case True
      then have "strlen str2 \<noteq> None" using s1 d by auto
      then show ?thesis using True c d \<open>c = 48\<close> atol_loop_returns [of str2 True 0] by (auto simp: atol_number_def has_0x_def)
    next
      case False
      then show ?thesis using c d \<open>c = 48\<close> atol_loop_returns [OF assms, of False 0] by (auto simp: atol_number_def has_0x_def)
    qed
  qed
qed

text \<open>
  C39: \<^verbatim>\<open>atol\<close> returns on every C string that does not begin with a blank, and for a string that does it
  never returns: the loop that should skip blanks does not advance.
\<close>

theorem atol_returns_iff:
  assumes "strlen (c # str) \<noteq> None"
  shows "(\<exists>r. atol (Some (c # str)) = Some r) \<longleftrightarrow> \<not> isspace c"
proof (cases "isspace c")
  case True
  then show ?thesis by (simp add: atol_def skip_blanks_blank)
next
  case False
  have z: "strlen str \<noteq> None" if "c = 43 \<or> c = 45" using that assms by auto
  have "atol (Some (c # str)) \<noteq> None"
    using False atol_number_returns [OF assms] atol_number_returns [OF z] by (auto simp: atol_def skip_blanks_nonblank)
  then show ?thesis using False by auto
qed

theorem atol_returns_iff_witness:
  "((\<exists>r. atol (Some (cstr ''12'')) = Some r) \<longleftrightarrow> True) \<and> ((\<exists>r. atol (Some (cstr '' 12'')) = Some r) \<longleftrightarrow> False)"
  using atol_returns_iff [of 49 "[50, 0]"] atol_returns_iff [of 32 "[49, 50, 0]"] by (simp add: cstr_def isspace_def)

section \<open>Printing an int\<close>

text \<open>
  \<^verbatim>\<open>%d\<close> takes its argument as an \<^verbatim>\<open>unsigned int\<close>: whatever \<^verbatim>\<open>int\<close> is passed, the text is the decimal
  number of its 32 bits read as unsigned, so -1 is printed as 4294967295.
\<close>

lemma put_number_text:
  assumes "T = number_text False False 0 (digits 10 (unat w))" "length T < 24" "\<not> 2 ^ 63 \<le> unat w" "w = number_arg longflag v"
    "pbuffer b + length T < buffer_len b" "buffer_len b \<le> length (buffer b)"
  shows "put_number mini_itoa longflag 0 v 10 False False b =
    Some (b\<lparr>buffer := (splice_at (pbuffer b) T (buffer b))[pbuffer b + length T := 0], pbuffer := pbuffer b + length T\<rparr>)"
proof -
  have "int (unat w) < int (2 ^ 63)" using assms(3) by (simp only: of_nat_less_iff)
  then have lt: "uint w < 2 ^ 63" by simp
  have nn: "0 \<le> uint w" by simp
  then have sg: "sint w = uint w" using lt order_trans [of "- (2 ^ 63)" 0 "uint w"]
    by (simp add: sint_uint signed_take_bit_int_eq_self_iff)
  have "0 \<le> sint w" unfolding sg by (rule nn)
  then have nm: "sint w \<noteq> - (2 ^ 63)" by auto
  have it: "mini_itoa w 10 False False (replicate 24 0) 0 = Some (length T, T @ 0 # drop (length T + 1) (replicate 24 0))"
    using assms(1,2) sg nm by (intro mini_itoa_spec [where negative = False]) auto
  have "put_bytes (T @ 0 # drop (length T + 1) (replicate 24 0)) (length T) (pbuffer b, buffer b) =
      Some (pbuffer b + length T, splice_at (pbuffer b) T (buffer b))"
    using assms(5,6) by (subst put_bytes_spec) auto
  then show ?thesis unfolding put_number_def assms(4) [symmetric] using it assms(5,6)
    by (simp add: puts_def put_byte_def Let_def)
qed

lemma vprint_int:
  fixes v :: u64
  defines "T \<equiv> number_text False False 0 (digits 10 (unat (ucast v :: u32)))"
  shows "\<exists>buff. vprint mini_itoa (cstr ''%d'') [Val v] = Some (length T, buff) \<and> take (length T) buff = T \<and> buff ! length T = 0"
proof -
  let ?w = "number_arg False v" and ?b = "\<lparr>buffer = replicate 256 0, pbuffer = 0, buffer_len = 256\<rparr>"
  have small: "unat (ucast v :: u32) < 2 ^ 32" using unsigned_less [of "ucast v :: u32", where ?'a = nat] by simp
  then have w: "unat ?w = unat (ucast v :: u32)"
    by (simp add: number_arg_def unsigned_ucast_eq [of "ucast v :: u32"] take_bit_nat_eq_self_iff)
  have "length (digits 10 (unat (ucast v :: u32))) \<le> 10" using small by (intro digits_length) auto
  then have l: "length T \<le> 10" by (simp add: T_def length_number_text)
  have "put_number mini_itoa False 0 v 10 False False ?b =
      Some (?b\<lparr>buffer := (splice_at 0 T (replicate 256 0))[length T := 0], pbuffer := length T\<rparr>)"
    using put_number_text [of T ?w False v ?b] l small w by (simp add: T_def)
  then have "vsn_loop mini_itoa (cstr ''%d'') [Val v] ?b =
      Some (?b\<lparr>buffer := (splice_at 0 T (replicate 256 0))[length T := 0], pbuffer := length T\<rparr>)"
    by (simp add: cstr_def vsn_loop.simps read_spec_def convert_def)
  then show ?thesis using l by (simp add: vprint_def mini_vsnprintf_def splice_at_def)
qed

lemma vprint_minus_one: "\<exists>buff. vprint mini_itoa (cstr ''%d'') [Val (- 1)] = Some (10, buff) \<and> take 10 buff = map of_char ''4294967295''"
proof -
  have T: "number_text False False 0 (digits 10 (unat (ucast (- 1 :: u64) :: u32))) = map of_char ''4294967295''"
  proof -
    have "unat (ucast (- 1 :: u64) :: u32) = 4294967295" by (simp add: unsigned_ucast_eq unsigned_minus_1_eq_mask mask_eq_exp_minus_1 take_bit_minus_one_eq_mask flip: take_bit_nat_def)
    moreover have "digits 10 4294967295 = [5, 9, 2, 7, 6, 9, 4, 9, 2, 4]" by (simp add: digits.simps)
    ultimately show ?thesis by (simp add: number_text_def sign_text_def digit_char_def)
  qed
  show ?thesis using vprint_int [of "- 1"] unfolding T by (auto simp: numeral_eq_Suc)
qed

end
