(* ===== verification/Screen.thy ===== *)
theory Screen
  imports Process Libc
begin

text \<open>
  The screen driver \<open>src/drivers/screen.c\<close> and the output functions at the end of
  \<open>src/libs/printk.c\<close>. The two screen buffers are lists of 4000 characters. \<open>port\<close> records what is
  handed to the BIOS: strings (\<^verbatim>\<open>bios_putstr\<close>, up to their terminator) and characters
  (\<^verbatim>\<open>bios_putchar\<close>). What a VT100 terminal shows for that output is specified separately, so that the
  refresh can be proved against it.
\<close>

section \<open>State and output\<close>

definition SCREEN_WIDTH :: nat where "SCREEN_WIDTH = 80"
definition SCREEN_HEIGHT :: nat where "SCREEN_HEIGHT = 50"

definition SCREEN_LOC :: "int \<Rightarrow> int \<Rightarrow> int" where
  "SCREEN_LOC x y = y * int SCREEN_WIDTH + x"

datatype port_out = Putstr "u8 list" | Putchar u8

record 'd screen = "'d kernel" +
  new_screen :: "u8 list"
  old_screen :: "u8 list"
  port :: "port_out list"

definition emit :: "port_out \<Rightarrow> ('d, 'a) screen_scheme \<Rightarrow> ('d, 'a) screen_scheme" where
  "emit e s = s\<lparr>port := port s @ [e]\<rparr>"

definition printv :: "string \<Rightarrow> va_arg list \<Rightarrow> ('d, 'a) screen_scheme \<Rightarrow> ('d, 'a) screen_scheme option" where
  "printv fmt va s = do {
     (ret, buff) \<leftarrow> vprint mini_itoa (cstr fmt) va;
     Some (emit (Putstr (takeWhile (\<lambda>c. c \<noteq> 0) buff)) s)
   }"

section \<open>The driver\<close>

text \<open>The escape sequences start with the character 27, written \<^verbatim>\<open>%c[\<close> in the format.\<close>

definition vt100_move_cursor :: "int \<Rightarrow> int \<Rightarrow> ('d, 'a) screen_scheme \<Rightarrow> ('d, 'a) screen_scheme option" where
  "vt100_move_cursor x y s = printv ''%c[%d;%dH'' [Val 27, Val (of_int y), Val (of_int x)] s"

definition vt100_clear :: "('d, 'a) screen_scheme \<Rightarrow> ('d, 'a) screen_scheme option" where
  "vt100_clear s = printv ''%c[2J'' [Val 27] s"

definition vt100_hidden_cursor :: "('d, 'a) screen_scheme \<Rightarrow> ('d, 'a) screen_scheme option" where
  "vt100_hidden_cursor s = printv ''%c[?25l'' [Val 27] s"

text \<open>An assignment to \<^verbatim>\<open>new_screen\<close>, which has 4000 elements.\<close>

definition set_new :: "int \<Rightarrow> u8 \<Rightarrow> ('d, 'a) screen_scheme \<Rightarrow> ('d, 'a) screen_scheme option" where
  "set_new loc ch s =
     (if 0 \<le> loc \<and> nat loc < length (new_screen s) then Some (s\<lparr>new_screen := (new_screen s)[nat loc := ch]\<rparr>) else None)"

definition screen_write_ch :: "u8 \<Rightarrow> ('d, 'a) screen_scheme \<Rightarrow> ('d, 'a) screen_scheme option" where
  "screen_write_ch ch s =
     (let p = current_running s; q = pcb s p in
      if ch = 10
      then Some (upd_pcb p (\<lambda>q. q\<lparr>cursor_x := 0, cursor_y := s32 (cursor_y q + 1)\<rparr>) s)
      else do { s1 \<leftarrow> set_new (SCREEN_LOC (cursor_x q) (cursor_y q)) ch s;
                Some (upd_pcb p (\<lambda>q. q\<lparr>cursor_x := s32 (cursor_x q + 1)\<rparr>) s1) })"

text \<open>One cell of the refresh loop: column \<open>j\<close> of line \<open>i\<close>.\<close>

definition reflush_cell :: "nat \<Rightarrow> nat \<Rightarrow> ('d, 'a) screen_scheme \<Rightarrow> ('d, 'a) screen_scheme option" where
  "reflush_cell i j s =
     (let l = nat (SCREEN_LOC (int j) (int i)) in
      if l < length (new_screen s) \<and> l < length (old_screen s)
      then if new_screen s ! l \<noteq> old_screen s ! l
           then do { s1 \<leftarrow> vt100_move_cursor (int j + 1) (int i + 1) s;
                     let s2 = emit (Putchar (new_screen s1 ! l)) s1;
                     Some (s2\<lparr>old_screen := (old_screen s2)[l := new_screen s2 ! l]\<rparr>) }
           else Some s
      else None)"

definition screen_reflush :: "('d, 'a) screen_scheme \<Rightarrow> ('d, 'a) screen_scheme option" where
  "screen_reflush s = do {
     s1 \<leftarrow> foldM (\<lambda>i. foldM (reflush_cell i) [0..<SCREEN_WIDTH]) [0..<SCREEN_HEIGHT] s;
     let q = pcb s1 (current_running s1);
     vt100_move_cursor (cursor_x q) (cursor_y q) s1
   }"

definition screen_clear :: "('d, 'a) screen_scheme \<Rightarrow> ('d, 'a) screen_scheme option" where
  "screen_clear s = do {
     s1 \<leftarrow> foldM (\<lambda>i. foldM (\<lambda>j. set_new (SCREEN_LOC (int j) (int i)) 32) [0..<SCREEN_WIDTH]) [0..<SCREEN_HEIGHT] s;
     screen_reflush (upd_pcb (current_running s1) (\<lambda>q. q\<lparr>cursor_x := 0, cursor_y := 0\<rparr>) s1)
   }"

definition init_screen :: "('d, 'a) screen_scheme \<Rightarrow> ('d, 'a) screen_scheme option" where
  "init_screen s = do { s1 \<leftarrow> vt100_hidden_cursor s; s2 \<leftarrow> vt100_clear s1; screen_clear s2 }"

definition screen_move_cursor :: "int \<Rightarrow> int \<Rightarrow> ('d, 'a) screen_scheme \<Rightarrow> ('d, 'a) screen_scheme option" where
  "screen_move_cursor x y s =
     vt100_move_cursor x y (upd_pcb (current_running s) (\<lambda>q. q\<lparr>cursor_x := x, cursor_y := y\<rparr>) s)"

definition screen_write :: "u8 list \<Rightarrow> ('d, 'a) screen_scheme \<Rightarrow> ('d, 'a) screen_scheme option" where
  "screen_write buff s = do { l \<leftarrow> strlen buff; foldM screen_write_ch (take l buff) s }"

definition screen_backspace :: "int \<Rightarrow> ('d, 'a) screen_scheme \<Rightarrow> ('d, 'a) screen_scheme option" where
  "screen_backspace prompt_len s =
     (let p = current_running s; q = pcb s p in
      if cursor_x q > prompt_len
      then do { let s1 = upd_pcb p (\<lambda>q. q\<lparr>cursor_x := s32 (cursor_x q - 1)\<rparr>) s;
                set_new (SCREEN_LOC (cursor_x (pcb s1 p)) (cursor_y (pcb s1 p))) 32 s1 }
      else Some s)"

section \<open>Printing\<close>

definition output_wrapper :: "u8 list \<Rightarrow> ('d, 'a) screen_scheme \<Rightarrow> ('d, 'a) screen_scheme option" where
  "output_wrapper buff s = do { s1 \<leftarrow> screen_write buff s; screen_reflush s1 }"

definition printk :: "string \<Rightarrow> va_arg list \<Rightarrow> ('d, 'a) screen_scheme \<Rightarrow> (nat \<times> ('d, 'a) screen_scheme) option" where
  "printk fmt va s = do {
     (ret, buff) \<leftarrow> vprint mini_itoa (cstr fmt) va;
     s1 \<leftarrow> output_wrapper buff s;
     Some (ret, s1)
   }"

section \<open>A terminal\<close>

text \<open>
  The part of a VT100 that the driver uses: \<^verbatim>\<open>ESC [ row ; column H\<close> moves the cursor, a character is
  shown at the cursor and moves it right.
\<close>

record terminal =
  cells :: "nat \<Rightarrow> nat \<Rightarrow> u8"
  trow :: nat
  tcol :: nat

definition read_nat :: "u8 list \<Rightarrow> nat" where
  "read_nat cs = foldl (\<lambda>n c. 10 * n + unat (c - 48)) 0 cs"

definition cursor_seq :: "u8 list \<Rightarrow> (nat \<times> nat) option" where
  "cursor_seq bs =
     (let r = takeWhile isdigit (drop 2 bs); rest = dropWhile isdigit (drop 2 bs);
          c = takeWhile isdigit (drop 1 rest)
      in if take 2 bs = [27, 91] \<and> take 1 rest = [59] \<and> dropWhile isdigit (drop 1 rest) = [72]
         then Some (read_nat r, read_nat c) else None)"

fun term_step :: "port_out \<Rightarrow> terminal \<Rightarrow> terminal" where
  "term_step (Putchar c) t = t\<lparr>cells := (cells t)(trow t := (cells t (trow t))(tcol t := c)), tcol := tcol t + 1\<rparr>"
| "term_step (Putstr bs) t = (case cursor_seq bs of Some (r, c) \<Rightarrow> t\<lparr>trow := r, tcol := c\<rparr> | None \<Rightarrow> t)"

definition shows_screen :: "terminal \<Rightarrow> u8 list \<Rightarrow> bool" where
  "shows_screen t scr \<longleftrightarrow> (\<forall>i<SCREEN_HEIGHT. \<forall>j<SCREEN_WIDTH. cells t (i + 1) (j + 1) = scr ! (i * SCREEN_WIDTH + j))"

end
