(* ===== verification/Screen_Laws.thy ===== *)
theory Screen_Laws
  imports Screen
begin

text \<open>
  The refresh makes a terminal show the screen buffer: the escape sequences that \<^verbatim>\<open>printv\<close> formats move
  the terminal's cursor to the cells that changed.
\<close>

section \<open>Formatting an escape sequence\<close>

definition num_text :: "nat \<Rightarrow> u8 list" where
  "num_text n = number_text False False 0 (digits 10 n)"

lemma num_text_digits: "num_text n = map (digit_char False \<circ> int) (rev (digits 10 n))"
  by (simp add: num_text_def number_text_def sign_text_def rev_map)

lemma num_text_isdigit: "c \<in> set (num_text n) \<Longrightarrow> isdigit c \<and> c \<noteq> 0"
  using digits_less [of 10 _ n] digit_char_range by (auto simp: num_text_digits)

lemma num_text_length: "n < 2 ^ 31 \<Longrightarrow> length (num_text n) \<le> 10"
  using digits_length [of 10 n 10] by (simp add: num_text_digits)

lemma read_nat_num_text: "read_nat (num_text n) = n"
proof -
  have d: "unat (digit_char False (int d) - 48) = d" if "d < 10" for d
  proof -
    have "digit_char False (int d) - 48 = (of_nat d :: u8)" using that by (simp add: digit_char_def)
    then show ?thesis using that by (simp add: unat_of_nat)
  qed
  have "\<forall>d\<in>set ds. d < 10 \<Longrightarrow> read_nat (map (digit_char False \<circ> int) (rev ds)) = number_of 10 ds" for ds
    by (induction ds) (simp_all add: read_nat_def number_of_def d)
  then show ?thesis using digits_less [of 10 _ n] by (simp add: num_text_digits number_of_digits)
qed

lemma cursor_seq_text: "cursor_seq ([27, 91] @ num_text r @ [59] @ num_text c @ [72]) = Some (r, c)"
proof -
  have d: "\<forall>x\<in>set (num_text n). isdigit x" for n using num_text_isdigit by blast
  have n: "\<not> isdigit 59" "\<not> isdigit 72" by (simp_all add: isdigit_def)
  show ?thesis using d [of r] d [of c] n
    by (simp add: cursor_seq_def Let_def takeWhile_append2 dropWhile_append2 read_nat_num_text)
qed

text \<open>\<open>holds T b\<close>: the buffer of 256 bytes that \<open>vprint\<close> uses holds the text \<open>T\<close> so far.\<close>

definition holds :: "u8 list \<Rightarrow> mini_buff \<Rightarrow> bool" where
  "holds T b \<longleftrightarrow> buffer_len b = 256 \<and> length (buffer b) = 256 \<and> pbuffer b = length T \<and> take (length T) (buffer b) = T"

lemma holds_putc:
  assumes "holds T b" "length T + 1 < 256"
  shows "\<exists>b'. putc c b = Some b' \<and> holds (T @ [c]) b'"
  using assms by (auto simp: holds_def putc_def put_byte_def take_Suc_conv_app_nth)

lemma holds_number:
  assumes "holds T b" "length T + 11 < 256" "n < 2 ^ 31"
  shows "\<exists>b'. put_number mini_itoa False 0 (of_nat n) 10 False False b = Some b' \<and> holds (T @ num_text n) b'"
proof -
  have n: "number_arg False (of_nat n) = of_nat n"
    unfolding number_arg_def using assms(3)
    by (intro iffD2 [OF word_unat_eq_iff]) (simp add: unsigned_ucast_eq unsigned_take_bit_eq unat_of_nat take_bit_nat_eq_self_iff)
  have u: "unat (of_nat n :: u64) = n" using assms(3) by (simp add: unat_of_nat)
  have l: "length (num_text n) \<le> 10" using num_text_length [OF assms(3)] .
  let ?b = "b\<lparr>buffer := (splice_at (pbuffer b) (num_text n) (buffer b))[pbuffer b + length (num_text n) := 0],
     pbuffer := pbuffer b + length (num_text n)\<rparr>"
  have "put_number mini_itoa False 0 (of_nat n) 10 False False b = Some ?b"
    using assms u l n by (intro put_number_text [of _ "of_nat n"]) (auto simp: num_text_def holds_def)
  moreover have "holds (T @ num_text n) ?b"
    using assms(1,2) l by (auto simp: holds_def splice_at_def)
  ultimately show ?thesis by blast
qed

lemma takeWhile_text: "\<forall>c\<in>set T. c \<noteq> (0::u8) \<Longrightarrow> takeWhile (\<lambda>c. c \<noteq> 0) (T @ 0 # r) = T"
  by (simp add: takeWhile_append2)

lemma vprint_cursor:
  assumes "x < 2 ^ 31" "y < 2 ^ 31"
  shows "\<exists>ret buff. vprint mini_itoa (cstr ''%c[%d;%dH'') [Val 27, Val (of_nat y), Val (of_nat x)] = Some (ret, buff) \<and>
    takeWhile (\<lambda>c. c \<noteq> 0) buff = [27, 91] @ num_text y @ [59] @ num_text x @ [72]"
proof -
  let ?b = "\<lparr>buffer = replicate 256 0, pbuffer = 0, buffer_len = 256\<rparr>" and ?T = "[27, 91] @ num_text y @ [59] @ num_text x @ [72]"
  note l = num_text_length [OF assms(1)] num_text_length [OF assms(2)]
  have h0: "holds [] ?b" by (simp add: holds_def)
  obtain b1 where b1: "putc 27 ?b = Some b1" "holds [27] b1" using holds_putc [OF h0, of 27] by auto
  obtain b2 where b2: "putc 91 b1 = Some b2" "holds [27, 91] b2" using holds_putc [OF b1(2), of 91] by auto
  obtain b3 where b3: "put_number mini_itoa False 0 (of_nat y) 10 False False b2 = Some b3" "holds ([27, 91] @ num_text y) b3"
    using holds_number [OF b2(2) _ assms(2)] by auto
  obtain b4 where b4: "putc 59 b3 = Some b4" "holds (([27, 91] @ num_text y) @ [59]) b4" using holds_putc [OF b3(2), of 59] l by auto
  obtain b5 where b5: "put_number mini_itoa False 0 (of_nat x) 10 False False b4 = Some b5"
      "holds ((([27, 91] @ num_text y) @ [59]) @ num_text x) b5"
    using holds_number [OF b4(2) _ assms(1)] l by auto
  obtain b6 where b6: "putc 72 b5 = Some b6" "holds ?T b6" using holds_putc [OF b5(2), of 72] l by auto
  have room: "\<not> buffer_len b \<le> pbuffer b + 1" if "holds T b" "length T < 250" for T b using that by (simp add: holds_def)
  have rooms: "\<not> buffer_len b1 \<le> pbuffer b1 + 1" "\<not> buffer_len b2 \<le> pbuffer b2 + 1" "\<not> buffer_len b3 \<le> pbuffer b3 + 1"
    "\<not> buffer_len b4 \<le> pbuffer b4 + 1" "\<not> buffer_len b5 \<le> pbuffer b5 + 1"
    using room [OF b1(2)] room [OF b2(2)] room [OF b3(2)] room [OF b4(2)] room [OF b5(2)] l by auto
  have "vsn_loop mini_itoa (cstr ''%c[%d;%dH'') [Val 27, Val (of_nat y), Val (of_nat x)] ?b = Some b6"
    using b1(1) b2(1) b3(1) b4(1) b5(1) b6(1) rooms
    by (simp add: cstr_def vsn_loop.simps read_spec_def convert_def)
  moreover have t: "\<forall>c\<in>set ?T. c \<noteq> 0" using num_text_isdigit by auto
  moreover have b6': "length ?T < length (buffer b6)" "take (length ?T) (buffer b6) = ?T" "pbuffer b6 = length ?T"
    using b6(2) l by (auto simp: holds_def)
  moreover have "takeWhile (\<lambda>c. c \<noteq> 0) ((buffer b6)[length ?T := 0]) = ?T"
  proof -
    have "(buffer b6)[length ?T := 0] = ?T @ 0 # drop (Suc (length ?T)) (buffer b6)"
      using b6'(1,2) upd_conv_take_nth_drop [OF b6'(1), of 0] by simp
    then show ?thesis using takeWhile_text [OF t] by metis
  qed
  ultimately show ?thesis by (simp add: vprint_def mini_vsnprintf_def)
qed

lemma vt100_move_cursor_spec:
  fixes s :: "('d, 'a) screen_scheme"
  assumes "0 \<le> x" "x < 2 ^ 31" "0 \<le> y" "y < 2 ^ 31"
  shows "\<exists>bs. vt100_move_cursor x y s = Some (emit (Putstr bs) s) \<and> cursor_seq bs = Some (nat y, nat x)"
proof -
  have "of_int x = (of_nat (nat x) :: u64)" "of_int y = (of_nat (nat y) :: u64)" using assms by simp_all
  moreover have "nat x < 2 ^ 31" "nat y < 2 ^ 31" using assms by simp_all
  ultimately show ?thesis
    using vprint_cursor [of "nat x" "nat y"] cursor_seq_text [of "nat y" "nat x"]
    by (auto simp: vt100_move_cursor_def printv_def)
qed

section \<open>The refresh\<close>

lemma foldM_nested: "foldM (\<lambda>x. foldM (f x) ys) xs s = foldM (\<lambda>(x, y). f x y) (List.product xs ys) s"
proof (induction xs arbitrary: s)
  case Nil
  then show ?case by simp
next
  case (Cons x xs)
  have "foldM (\<lambda>(x, y). f x y) (map (Pair x) zs) s = foldM (f x) zs s" for zs s
    by (induction zs arbitrary: s) (simp_all split: Option.bind_split)
  then show ?case using Cons by (cases "foldM (f x) ys s") (simp_all add: foldM_append)
qed

definition loc :: "nat \<Rightarrow> nat \<Rightarrow> nat" where
  "loc i j = i * SCREEN_WIDTH + j"

lemma SCREEN_LOC_loc: "nat (SCREEN_LOC (int j) (int i)) = loc i j"
  by (simp add: SCREEN_LOC_def loc_def nat_add_distrib nat_mult_distrib)

lemma loc_inj: "j < SCREEN_WIDTH \<Longrightarrow> j' < SCREEN_WIDTH \<Longrightarrow> loc i j = loc i' j' \<longleftrightarrow> i = i' \<and> j = j'"
proof
  assume j: "j < SCREEN_WIDTH" "j' < SCREEN_WIDTH" and e: "loc i j = loc i' j'"
  have "loc i j div SCREEN_WIDTH = i" "loc i' j' div SCREEN_WIDTH = i'" "loc i j mod SCREEN_WIDTH = j" "loc i' j' mod SCREEN_WIDTH = j'"
    using j by (simp_all add: loc_def)
  then show "i = i' \<and> j = j'" using e by metis
qed simp

text \<open>The terminal after all output so far, and the state that the refresh loop keeps.\<close>

definition term_after :: "terminal \<Rightarrow> ('d, 'a) screen_scheme \<Rightarrow> terminal" where
  "term_after t s = fold term_step (port s) t"

definition same_screen :: "('d, 'a) screen_scheme \<Rightarrow> ('d, 'a) screen_scheme \<Rightarrow> bool" where
  "same_screen s s' \<longleftrightarrow> new_screen s' = new_screen s \<and> pcb s' = pcb s \<and> current_running s' = current_running s \<and>
     length (old_screen s') = length (old_screen s)"

definition refreshing :: "terminal \<Rightarrow> ('d, 'a) screen_scheme \<Rightarrow> (nat \<times> nat) set \<Rightarrow> ('d, 'a) screen_scheme \<Rightarrow> bool" where
  "refreshing t s D s' \<longleftrightarrow> same_screen s s' \<and> shows_screen (term_after t s') (old_screen s') \<and>
     (\<forall>(i, j)\<in>D. old_screen s' ! loc i j = new_screen s ! loc i j)"

lemma term_after_emit: "term_after t (emit e s) = term_step e (term_after t s)"
  by (simp add: term_after_def emit_def)

lemma reflush_cell_step:
  assumes r: "refreshing t s D s1" and ij: "i < SCREEN_HEIGHT" "j < SCREEN_WIDTH"
    and D: "\<forall>(i', j')\<in>D. j' < SCREEN_WIDTH"
    and len: "length (new_screen s) = SCREEN_HEIGHT * SCREEN_WIDTH" "length (old_screen s) = SCREEN_HEIGHT * SCREEN_WIDTH"
  shows "\<exists>s2. reflush_cell i j s1 = Some s2 \<and> refreshing t s (insert (i, j) D) s2"
proof -
  have l: "loc i j < SCREEN_HEIGHT * SCREEN_WIDTH"
    using ij by (simp add: loc_def SCREEN_HEIGHT_def SCREEN_WIDTH_def)
  have sm: "same_screen s s1" and sh: "shows_screen (term_after t s1) (old_screen s1)"
    and dn: "\<forall>(i', j')\<in>D. old_screen s1 ! loc i' j' = new_screen s ! loc i' j'"
    using r by (simp_all add: refreshing_def)
  have l1: "loc i j < length (new_screen s1)" "loc i j < length (old_screen s1)" using sm len l by (simp_all add: same_screen_def)
  show ?thesis
  proof (cases "new_screen s1 ! loc i j = old_screen s1 ! loc i j")
    case True
    then show ?thesis using r l1 sm by (auto simp: reflush_cell_def SCREEN_LOC_loc refreshing_def same_screen_def Let_def)
  next
    case False
    have "0 \<le> int j + 1" "int j + 1 < 2 ^ 31" "0 \<le> int i + 1" "int i + 1 < 2 ^ 31"
      using ij by (simp_all add: SCREEN_HEIGHT_def SCREEN_WIDTH_def)
    then obtain bs where bs: "vt100_move_cursor (int j + 1) (int i + 1) s1 = Some (emit (Putstr bs) s1)"
      "cursor_seq bs = Some (i + 1, j + 1)" using vt100_move_cursor_spec [of "int j + 1" "int i + 1" s1] by (auto simp: nat_add_distrib)
    let ?c = "new_screen s1 ! loc i j" and ?e = "emit (Putstr bs) s1"
    let ?s2 = "(emit (Putchar (new_screen s1 ! loc i j)) ?e)\<lparr>old_screen := (old_screen s1)[loc i j := ?c]\<rparr>"
    have cell: "reflush_cell i j s1 = Some ?s2"
      using False l1 bs(1) by (simp add: reflush_cell_def SCREEN_LOC_loc Let_def emit_def)
    have "term_after t ?s2 = term_step (Putchar ?c) (term_step (Putstr bs) (term_after t s1))"
      by (simp add: term_after_def emit_def)
    then have cl: "cells (term_after t ?s2) i' j' = (if i' = i + 1 \<and> j' = j + 1 then ?c else cells (term_after t s1) i' j')" for i' j'
      using bs(2) by simp
    have old: "old_screen ?s2 ! loc i' j' = (if i' = i \<and> j' = j then ?c else old_screen s1 ! loc i' j')" if "j' < SCREEN_WIDTH" for i' j'
      using l1(2) loc_inj [OF ij(2) that, of i i'] by (auto simp: nth_list_update)
    have "shows_screen (term_after t ?s2) (old_screen ?s2)"
      unfolding shows_screen_def using sh cl old by (auto simp: shows_screen_def loc_def)
    moreover have "same_screen s ?s2" using sm by (simp add: same_screen_def emit_def)
    moreover have "\<forall>(i', j')\<in>insert (i, j) D. old_screen ?s2 ! loc i' j' = new_screen s ! loc i' j'"
    proof clarify
      fix a b assume ab: "(a, b) \<in> insert (i, j) D"
      then have "b < SCREEN_WIDTH" using D ij(2) by auto
      then show "old_screen ?s2 ! loc a b = new_screen s ! loc a b"
        using old [of b a] ab dn sm by (auto simp: same_screen_def)
    qed
    ultimately show ?thesis using cell by (auto simp: refreshing_def)
  qed
qed

lemma reflush_cells:
  assumes "length (new_screen s) = SCREEN_HEIGHT * SCREEN_WIDTH" "length (old_screen s) = SCREEN_HEIGHT * SCREEN_WIDTH"
    and "\<forall>(i, j)\<in>set xs. i < SCREEN_HEIGHT \<and> j < SCREEN_WIDTH" "\<forall>(i, j)\<in>D. j < SCREEN_WIDTH" "refreshing t s D s1"
  shows "\<exists>s2. foldM (\<lambda>(i, j). reflush_cell i j) xs s1 = Some s2 \<and> refreshing t s (D \<union> set xs) s2"
  using assms(3-5)
proof (induction xs arbitrary: D s1)
  case Nil
  then show ?case by simp
next
  case (Cons x xs)
  obtain i j where x: "x = (i, j)" by fastforce
  then obtain s2 where s2: "reflush_cell i j s1 = Some s2" "refreshing t s (insert (i, j) D) s2"
    using reflush_cell_step [OF Cons.prems(3) _ _ Cons.prems(2) assms(1,2), of i j] Cons.prems(1) by auto
  have "\<exists>s3. foldM (\<lambda>(i, j). reflush_cell i j) xs s2 = Some s3 \<and> refreshing t s (insert (i, j) D \<union> set xs) s3"
    using Cons.prems(1,2) x s2(2) by (intro Cons.IH) auto
  then show ?case using s2(1) x by simp
qed

lemma screen_reflush_spec:
  fixes s :: "('d, 'a) screen_scheme"
  assumes len: "length (new_screen s) = SCREEN_HEIGHT * SCREEN_WIDTH" "length (old_screen s) = SCREEN_HEIGHT * SCREEN_WIDTH"
    and cur: "q = pcb s (current_running s)" "0 \<le> cursor_x q" "cursor_x q < 2 ^ 31" "0 \<le> cursor_y q" "cursor_y q < 2 ^ 31"
    and sh: "shows_screen (term_after t s) (old_screen s)"
  shows "\<exists>s'. screen_reflush s = Some s' \<and> same_screen s s' \<and> old_screen s' = new_screen s \<and>
    shows_screen (term_after t s') (new_screen s) \<and> trow (term_after t s') = nat (cursor_y q) \<and> tcol (term_after t s') = nat (cursor_x q)"
proof -
  let ?xs = "List.product [0..<SCREEN_HEIGHT] [0..<SCREEN_WIDTH]"
  have "refreshing t s {} s" using sh by (simp add: refreshing_def same_screen_def)
  then obtain s1 where s1: "foldM (\<lambda>(i, j). reflush_cell i j) ?xs s = Some s1" "refreshing t s (set ?xs) s1"
    using reflush_cells [OF len, of ?xs "{}" t s] by auto
  have sm: "same_screen s s1" using s1(2) by (simp add: refreshing_def)
  obtain bs where bs: "vt100_move_cursor (cursor_x q) (cursor_y q) s1 = Some (emit (Putstr bs) s1)"
    "cursor_seq bs = Some (nat (cursor_y q), nat (cursor_x q))" using vt100_move_cursor_spec [OF cur(2-5)] by blast
  have old: "old_screen s1 = new_screen s"
  proof (rule nth_equalityI)
    show "length (old_screen s1) = length (new_screen s)" using sm len by (simp add: same_screen_def)
    fix k assume "k < length (old_screen s1)"
    then have k: "k < SCREEN_HEIGHT * SCREEN_WIDTH" using sm len by (simp add: same_screen_def)
    have w: "k div SCREEN_WIDTH < SCREEN_HEIGHT" "k mod SCREEN_WIDTH < SCREEN_WIDTH"
      using k by (simp_all add: SCREEN_HEIGHT_def SCREEN_WIDTH_def less_mult_imp_div_less)
    have l: "loc (k div SCREEN_WIDTH) (k mod SCREEN_WIDTH) = k" by (simp add: loc_def)
    have "(k div SCREEN_WIDTH, k mod SCREEN_WIDTH) \<in> set ?xs" using w by simp
    then show "old_screen s1 ! k = new_screen s ! k"
      using s1(2) l unfolding refreshing_def by fastforce
  qed
  have t: "term_after t (emit (Putstr bs) s1) = (term_after t s1)\<lparr>trow := nat (cursor_y q), tcol := nat (cursor_x q)\<rparr>"
    using bs(2) by (simp add: term_after_emit)
  have "screen_reflush s = Some (emit (Putstr bs) s1)"
    using s1(1) sm bs(1) cur(1) by (simp add: screen_reflush_def foldM_nested same_screen_def)
  moreover have "shows_screen (term_after t (emit (Putstr bs) s1)) (new_screen s)"
    using s1(2) old by (simp add: t shows_screen_def refreshing_def)
  moreover have "same_screen s (emit (Putstr bs) s1)" "old_screen (emit (Putstr bs) s1) = new_screen s"
    using sm old by (simp_all add: same_screen_def emit_def)
  ultimately show ?thesis using t by auto
qed


text \<open>A terminal that was just cleared, and a screen on which a process has written a character.\<close>

definition screen_boot :: "(u32 \<Rightarrow> u8 list) screen" where
  "screen_boot = kernel.extend (kernel_boot 1 (\<lambda>_. []))
     \<lparr>new_screen = (replicate 4000 32)[5 := 65], old_screen = replicate 4000 32, port = []\<rparr>"


section \<open>Writing below the last line\<close>

text \<open>The driver does not scroll: a character written on line 50 is stored behind the screen buffer.\<close>

lemma screen_write_ch_below:
  assumes "ch \<noteq> 10" "length (new_screen s) = 4000" "cursor_y (pcb s (current_running s)) \<ge> 50" "cursor_x (pcb s (current_running s)) \<ge> 0"
  shows "screen_write_ch ch s = None"
  using assms by (simp add: screen_write_ch_def set_new_def SCREEN_LOC_def SCREEN_WIDTH_def Let_def)

end
