(* ===== verification/Image.thy ===== *)
theory Image
  imports Process_Laws
begin

text \<open>
  The boot image: the tool \<open>src/tools/createimage.c\<close> that writes it, and \<^verbatim>\<open>init_task_info\<close> of
  \<open>src/init/main.c\<close>, which reads the table of programs back at boot. An input file is the list of its
  bytes with its name; reading outside a file fails the tool's assertion (\<open>None\<close>), except for
  \<^verbatim>\<open>fgetc\<close>, whose \<^verbatim>\<open>EOF\<close> is written as the byte 255. Messages on the terminal are left out.
\<close>

section \<open>ELF headers\<close>

record elf64_ehdr =
  e_phoff :: u64
  e_phentsize :: u16
  e_phnum :: u16

record elf64_phdr =
  p_type :: u32
  p_offset :: u64
  p_filesz :: u64
  p_memsz :: u64

definition read_ehdr :: "u8 list \<Rightarrow> elf64_ehdr option" where
  "read_ehdr fp =
     (if 64 \<le> length fp \<and> fp ! 1 = of_char (CHR ''E'') \<and> fp ! 2 = of_char (CHR ''L'') \<and> fp ! 3 = of_char (CHR ''F'')
      then Some \<lparr>e_phoff = le_get (slice 32 8 fp), e_phentsize = le_get (slice 54 2 fp), e_phnum = le_get (slice 56 2 fp)\<rparr>
      else None)"

definition read_phdr :: "u8 list \<Rightarrow> elf64_ehdr \<Rightarrow> nat \<Rightarrow> elf64_phdr option" where
  "read_phdr fp ehdr ph =
     (let off = unat (e_phoff ehdr + of_nat (ph * unat (e_phentsize ehdr))) in
      if off + 56 \<le> length fp
      then Some \<lparr>p_type = le_get (slice off 4 fp), p_offset = le_get (slice (off + 8) 8 fp),
             p_filesz = le_get (slice (off + 32) 8 fp), p_memsz = le_get (slice (off + 40) 8 fp)\<rparr>
      else None)"

definition get_filesz :: "elf64_phdr \<Rightarrow> u32" where "get_filesz phdr = ucast (p_filesz phdr)"
definition get_memsz :: "elf64_phdr \<Rightarrow> u32" where "get_memsz phdr = ucast (p_memsz phdr)"

section \<open>Writing the image\<close>

text \<open>The image file so far and the variables of \<^verbatim>\<open>create_image\<close>; \<open>task\<close> is the index of the next entry of \<^verbatim>\<open>taskinfo\<close>.\<close>

record build =
  img :: "u8 list"
  phyaddr :: int
  kernel_filesz :: int
  nsectors_kernel :: int
  task_file_sz :: int
  task_mem_sz :: int
  taskinfo :: "task_info_t list"
  task :: nat

definition segment :: "elf64_phdr \<Rightarrow> u8 list \<Rightarrow> u8 list" where
  "segment phdr fp =
     map (\<lambda>i. let a = unat (p_offset phdr) + i in if a < length fp then fp ! a else 255) [0..<unat (p_filesz phdr)]"

definition write_segment :: "elf64_phdr \<Rightarrow> u8 list \<Rightarrow> build \<Rightarrow> build" where
  "write_segment phdr fp b =
     (if p_memsz phdr \<noteq> 0 \<and> p_type phdr = 1
      then b\<lparr>img := img b @ segment phdr fp, phyaddr := s32 (phyaddr b + uint (p_filesz phdr))\<rparr> else b)"

definition round_sector :: "int \<Rightarrow> int" where
  "round_sector a = sint (ucast ((of_int a + 511 :: u64) AND NOT 511) :: u32)"

definition write_padding :: "int \<Rightarrow> build \<Rightarrow> build" where
  "write_padding new_phyaddr b =
     b\<lparr>img := img b @ replicate (nat (new_phyaddr - phyaddr b)) 0, phyaddr := max (phyaddr b) new_phyaddr\<rparr>"

definition named :: "u8 list \<Rightarrow> string \<Rightarrow> bool option" where
  "named name str = map_option (\<lambda>r. r = 0) (strcmp name (cstr str))"

text \<open>One program header: its segment, and the sizes it adds.\<close>

definition add_phdr :: "u8 list \<Rightarrow> u8 list \<Rightarrow> elf64_ehdr \<Rightarrow> nat \<Rightarrow> build \<Rightarrow> build option" where
  "add_phdr name fp ehdr ph b = do {
     phdr \<leftarrow> read_phdr fp ehdr ph;
     let b1 = write_segment phdr fp b;
     kern \<leftarrow> named name ''main'';
     boot \<leftarrow> named name ''bootblock'';
     Some (if kern then b1\<lparr>kernel_filesz := s32 (kernel_filesz b1 + uint (get_filesz phdr))\<rparr>
           else if \<not> boot
           then b1\<lparr>task_file_sz := s32 (task_file_sz b1 + uint (get_filesz phdr)),
                   task_mem_sz := s32 (task_mem_sz b1 + uint (get_memsz phdr))\<rparr>
           else b1)
   }"

definition add_file :: "u8 list \<times> u8 list \<Rightarrow> build \<Rightarrow> build option" where
  "add_file f b = do {
     let (name, fp) = f;
     ehdr \<leftarrow> read_ehdr fp;
     b1 \<leftarrow> foldM (add_phdr name fp ehdr) [0..<unat (e_phnum ehdr)] b;
     kern \<leftarrow> named name ''main'';
     boot \<leftarrow> named name ''bootblock'';
     (if boot then Some (write_padding (round_sector (phyaddr b1)) b1)
      else if kern
      then Some (write_padding (round_sector (phyaddr b1)) (b1\<lparr>nsectors_kernel := NBYTES2SEC (kernel_filesz b1)\<rparr>))
      else if task b1 < length (taskinfo b1)
      then do {
        let b2 = write_padding (round_sector (phyaddr b1)) b1;
        nm \<leftarrow> strcpy (tname (taskinfo b2 ! task b2)) name;
        Some (b2\<lparr>taskinfo := (taskinfo b2)[task b2 := \<lparr>tname = nm, sectors_num = NBYTES2SEC (task_file_sz b2),
                               filesz = task_file_sz b2, memsz = task_mem_sz b2\<rparr>],
                 task := task b2 + 1, task_file_sz := 0, task_mem_sz := 0\<rparr>)
      }
      else None)
   }"

text \<open>Writing into the file at an offset; a gap behind its end is filled with zeros.\<close>

definition write_at :: "nat \<Rightarrow> u8 list \<Rightarrow> u8 list \<Rightarrow> u8 list" where
  "write_at off bs f = take off (f @ replicate (off - length f) 0) @ bs @ drop (off + length bs) f"

definition put_int :: "int \<Rightarrow> u8 list" where
  "put_int n = le_put 4 (of_int n :: u32)"

definition get_int :: "u8 list \<Rightarrow> int" where
  "get_int bs = sint (le_get bs :: u32)"

definition task_info_bytes :: "task_info_t \<Rightarrow> u8 list" where
  "task_info_bytes t = tname t @ put_int (sectors_num t) @ put_int (filesz t) @ put_int (memsz t)"

definition APP_INFO_OFFSET :: nat where "APP_INFO_OFFSET = 0x1f0"

definition empty_build :: build where
  "empty_build = \<lparr>img = [], phyaddr = 0, kernel_filesz = 0, nsectors_kernel = 0, task_file_sz = 0, task_mem_sz = 0,
     taskinfo = replicate 16 \<lparr>tname = replicate 16 0, sectors_num = 0, filesz = 0, memsz = 0\<rparr>, task = 0\<rparr>"

definition write_img_info :: "task_info_t list \<Rightarrow> int \<Rightarrow> u8 list \<Rightarrow> u8 list option" where
  "write_img_info infos tasknum f =
     (if nat tasknum \<le> length infos then Some (f @ concat (map task_info_bytes (take (nat tasknum) infos))) else None)"

definition create_image :: "(u8 list \<times> u8 list) list \<Rightarrow> u8 list option" where
  "create_image files = do {
     let tasknum = int (length files) - 2;
     b \<leftarrow> foldM add_file files empty_build;
     let total_sectors_num = phyaddr b sdiv 512;
     let f = write_at APP_INFO_OFFSET
               (put_int (kernel_filesz b) @ put_int tasknum @ put_int total_sectors_num @
                le_put 2 (of_int (nsectors_kernel b) :: u16) @ [0x55, 0xaa]) (img b);
     write_img_info (taskinfo b) tasknum f
   }"

section \<open>Reading it back\<close>

definition APP_INFO_ENTRY :: u64 where "APP_INFO_ENTRY = 0xffffffc0502001f0"
definition TASK_INFO_ARRAY :: u64 where "TASK_INFO_ARRAY = 0xffffffc050800000"

definition load_bytes :: "u64 \<Rightarrow> nat \<Rightarrow> ('d, 'a) mm_state_scheme \<Rightarrow> u8 list" where
  "load_bytes a n s = map (\<lambda>i. load_byte (a + of_nat i) s) [0..<n]"

definition bytes_task_info :: "u8 list \<Rightarrow> task_info_t" where
  "bytes_task_info bs = \<lparr>tname = slice 0 16 bs, sectors_num = get_int (slice 16 4 bs), filesz = get_int (slice 20 4 bs),
     memsz = get_int (slice 24 4 bs)\<rparr>"

definition init_task_info :: "'d sdcard \<Rightarrow> ('d, 'a) kernel_scheme \<Rightarrow> ('d, 'a) kernel_scheme option" where
  "init_task_info B s =
     (let kernel_file_sz = get_int (load_bytes APP_INFO_ENTRY 4 s);
          n = get_int (load_bytes (APP_INFO_ENTRY + 4) 4 s);
          total_sectors_num = get_int (load_bytes (APP_INFO_ENTRY + 8) 4 s);
          s1 = s\<lparr>tasks_num := n, kernel_sectors_num := NBYTES2SEC kernel_file_sz,
                 disk_sectors_startid := total_sectors_num + 1\<rparr>;
          s2 = write_bytes TASK_INFO_ARRAY (sd_read B (sd s1) 1 (of_int total_sectors_num)) s1
      in if 0 \<le> n \<and> nat n \<le> length (tasks s2)
         then Some (s2\<lparr>tasks := map (\<lambda>i. bytes_task_info (load_bytes (TASK_INFO_ARRAY + 28 * of_nat i) 28 s2)) [0..<nat n]
                         @ drop (nat n) (tasks s2)\<rparr>)
         else None)"

end
