(* ===== verification/Image_Laws.thy ===== *)
theory Image_Laws
  imports Image
begin

text \<open>
  The tool and the kernel agree on the boot image: every program is where the loader looks for it.
\<close>

section \<open>Sectors\<close>

definition nsec :: "u8 list \<Rightarrow> nat" where
  "nsec bs = (length bs + 511) div 512"

definition padded :: "u8 list \<Rightarrow> u8 list" where
  "padded bs = bs @ replicate (512 * nsec bs - length bs) 0"

lemma length_le_nsec: "length bs \<le> 512 * nsec bs" "512 * nsec bs < length bs + 512"
proof -
  have "512 * nsec bs + (length bs + 511) mod 512 = length bs + 511" by (simp add: nsec_def)
  moreover have "(length bs + 511) mod 512 < 512" by simp
  ultimately show "length bs \<le> 512 * nsec bs" "512 * nsec bs < length bs + 512" by linarith+
qed

lemma nsecI: "length bs \<le> 512 * n \<Longrightarrow> 512 * n < length bs + 512 \<Longrightarrow> nsec bs = n"
  unfolding nsec_def by (rule div_nat_eqI) simp_all

lemma nsec_div: "length bs = 512 * q + r \<Longrightarrow> r < 512 \<Longrightarrow> nsec bs = q + (if r = 0 then 0 else 1)"
  by (cases "r = 0") (auto intro!: nsecI)

lemma length_padded [simp]: "length (padded bs) = 512 * nsec bs"
  using length_le_nsec(1) [of bs] by (simp add: padded_def)

lemma NBYTES2SEC_nsec: "NBYTES2SEC (int (length bs)) = int (nsec bs)"
proof -
  let ?q = "length bs div 512" and ?r = "length bs mod 512"
  have "nsec bs = ?q + (if ?r = 0 then 0 else 1)" by (rule nsec_div) simp_all
  moreover have "int (length bs) div 512 = int ?q" "int (length bs) mod 512 = int ?r" by (simp_all add: zdiv_int zmod_int)
  ultimately show ?thesis
    by (cases "length bs = 0") (auto simp: NBYTES2SEC_def signed_divide_int_def signed_modulo_int_def)
qed

lemma round_sector_up:
  assumes "length bs + 512 < 2 ^ 31"
  shows "round_sector (int (length bs)) = 512 * int (nsec bs)"
proof -
  define y where "y = int (length bs) + 511"
  have y: "0 \<le> y" "y < 2 ^ 31" using assms by (simp_all add: y_def)
  have "(of_int y :: u64) AND NOT 511 = push_bit 9 (drop_bit 9 (of_int y))"
  proof -
    have m: "(511::u64) = mask 9" by (simp add: mask_eq_exp_minus_1)
    show ?thesis unfolding m by (auto intro!: bit_eqI simp: bit_and_iff bit_not_iff bit_push_bit_iff bit_drop_bit_eq bit_mask_iff)
  qed
  moreover have "unat (push_bit 9 (drop_bit 9 (of_int y :: u64))) = 512 * nsec bs"
  proof -
    have "of_int y = (of_nat (length bs + 511) :: u64)" by (simp add: y_def)
    then have "unat (of_int y :: u64) = length bs + 511" using assms by (simp only:) (subst unat_of_nat, simp)
    then have "unat (drop_bit 9 (of_int y :: u64)) = nsec bs" by (simp add: drop_bit_eq_div unat_div nsec_def)
    then show ?thesis using assms length_le_nsec [of bs] by (simp add: push_bit_eq_mult unat_word_ariths)
  qed
  ultimately have u: "unat ((of_int (int (length bs)) + 511 :: u64) AND NOT 511) = 512 * nsec bs" by (simp add: y_def)
  have lt: "512 * nsec bs < 2 ^ 31" using assms length_le_nsec(2) [of bs] by linarith
  have "ucast ((of_int (int (length bs)) + 511 :: u64) AND NOT 511) = (of_nat (512 * nsec bs) :: u32)"
    using u by (metis of_nat_unat)
  moreover have "sint (of_nat (512 * nsec bs) :: u32) = int (512 * nsec bs)"
    using lt by (simp add: signed_of_nat signed_take_bit_int_eq_self_iff del: of_nat_mult)
  ultimately show ?thesis by (simp add: round_sector_def)
qed

section \<open>Programs\<close>

definition headers :: "u8 list \<Rightarrow> elf64_phdr list option" where
  "headers fp = do { ehdr \<leftarrow> read_ehdr fp; those (map (read_phdr fp ehdr) [0..<unat (e_phnum ehdr)]) }"

definition loaded :: "elf64_phdr \<Rightarrow> bool" where
  "loaded p \<longleftrightarrow> p_memsz p \<noteq> 0 \<and> p_type p = 1"

definition payload :: "u8 list \<Rightarrow> elf64_phdr list \<Rightarrow> u8 list" where
  "payload fp hs = concat (map (\<lambda>p. if loaded p then segment p fp else []) hs)"

definition mem_size :: "elf64_phdr list \<Rightarrow> nat" where
  "mem_size hs = sum_list (map (\<lambda>p. unat (p_memsz p)) hs)"

text \<open>A program: its headers can be read, those that are not loaded have no bytes in the file.\<close>

definition program :: "u8 list \<Rightarrow> elf64_phdr list \<Rightarrow> bool" where
  "program fp hs \<longleftrightarrow> headers fp = Some hs \<and> (\<forall>p\<in>set hs. loaded p \<or> p_filesz p = 0) \<and> mem_size hs < 2 ^ 31"

definition add_hdr :: "bool \<Rightarrow> bool \<Rightarrow> u8 list \<Rightarrow> elf64_phdr \<Rightarrow> build \<Rightarrow> build" where
  "add_hdr kern boot fp p b =
     (let b1 = write_segment p fp b in
      if kern then b1\<lparr>kernel_filesz := s32 (kernel_filesz b1 + uint (get_filesz p))\<rparr>
      else if \<not> boot
      then b1\<lparr>task_file_sz := s32 (task_file_sz b1 + uint (get_filesz p)), task_mem_sz := s32 (task_mem_sz b1 + uint (get_memsz p))\<rparr>
      else b1)"

lemma those_Cons_SomeD: "those (x # xs) = Some ys \<Longrightarrow> \<exists>y ys'. x = Some y \<and> those xs = Some ys' \<and> ys = y # ys'"
  by (auto split: option.splits)

lemma add_phdrs_fold:
  assumes "named name ''main'' = Some kern" "named name ''bootblock'' = Some boot"
    and "those (map (read_phdr fp ehdr) ns) = Some hs"
  shows "foldM (add_phdr name fp ehdr) ns b = Some (fold (add_hdr kern boot fp) hs b)"
  using assms(3)
proof (induction ns arbitrary: hs b)
  case Nil
  then show ?case by simp
next
  case (Cons n ns)
  then obtain p hs' where "read_phdr fp ehdr n = Some p" "those (map (read_phdr fp ehdr) ns) = Some hs'" "hs = p # hs'"
    using those_Cons_SomeD [OF Cons.prems [unfolded list.map]] by blast
  then show ?case using Cons.IH assms(1,2) by (simp add: add_phdr_def add_hdr_def Let_def)
qed

lemma payload_Cons: "payload fp (p # hs) = (if loaded p then segment p fp else []) @ payload fp hs"
  by (simp add: payload_def)

lemma length_segment [simp]: "length (segment p fp) = unat (p_filesz p)"
  by (simp add: segment_def)

lemma ucast_small:
  assumes "unat (w::u64) < 2 ^ 31"
  shows "uint (ucast w :: u32) = int (unat w)"
proof -
  have "unat (ucast w :: u32) = unat w" using assms by (simp add: unsigned_ucast_eq take_bit_nat_eq_self_iff)
  then have "int (unat (ucast w :: u32)) = int (unat w)" by (simp only:)
  then show ?thesis by simp
qed

lemma add_hdrs_effect:
  assumes "\<forall>p\<in>set hs. loaded p \<or> p_filesz p = 0"
    and "0 \<le> phyaddr b" "phyaddr b + int (length (payload fp hs)) < 2 ^ 31"
    and "0 \<le> kernel_filesz b" "kernel_filesz b + int (length (payload fp hs)) < 2 ^ 31"
    and "0 \<le> task_file_sz b" "task_file_sz b + int (length (payload fp hs)) < 2 ^ 31"
    and "0 \<le> task_mem_sz b" "task_mem_sz b + int (mem_size hs) < 2 ^ 31"
  shows "fold (add_hdr kern boot fp) hs b =
    (let l = int (length (payload fp hs)) in
     b\<lparr>img := img b @ payload fp hs, phyaddr := phyaddr b + l,
       kernel_filesz := kernel_filesz b + (if kern then l else 0),
       task_file_sz := task_file_sz b + (if \<not> kern \<and> \<not> boot then l else 0),
       task_mem_sz := task_mem_sz b + (if \<not> kern \<and> \<not> boot then int (mem_size hs) else 0)\<rparr>)"
  using assms
proof (induction hs arbitrary: b)
  case Nil
  then show ?case by (simp add: payload_def mem_size_def)
next
  case (Cons p hs)
  define n where "n = unat (p_filesz p)"
  have n: "length (payload fp (p # hs)) = n + length (payload fp hs)" "\<not> loaded p \<Longrightarrow> n = 0"
    using Cons.prems(1) by (auto simp: payload_Cons n_def)
  define k where "k = unat (p_memsz p)"
  have m: "mem_size (p # hs) = k + mem_size hs" by (simp add: mem_size_def k_def)
  have "int n < 2 ^ 31" "int k < 2 ^ 31" using Cons.prems(2,3,8,9) n(1) m by simp_all
  then have "n < 2 ^ 31" "k < 2 ^ 31" by simp_all
  then have sz: "uint (get_filesz p) = int n" "uint (get_memsz p) = int k"
    by (simp_all only: get_filesz_def get_memsz_def n_def k_def ucast_small)
  have np: "uint (p_filesz p) = int n" by (simp add: n_def)
  let ?b = "b\<lparr>img := img b @ (if loaded p then segment p fp else []), phyaddr := phyaddr b + int n,
       kernel_filesz := kernel_filesz b + (if kern then int n else 0),
       task_file_sz := task_file_sz b + (if \<not> kern \<and> \<not> boot then int n else 0),
       task_mem_sz := task_mem_sz b + (if \<not> kern \<and> \<not> boot then int k else 0)\<rparr>"
  have "s32 (phyaddr b + int n) = phyaddr b + int n" "s32 (kernel_filesz b + int n) = kernel_filesz b + int n"
    "s32 (task_file_sz b + int n) = task_file_sz b + int n" "s32 (task_mem_sz b + int k) = task_mem_sz b + int k"
    using Cons.prems n m by (intro s32_id; simp)+
  then have step: "add_hdr kern boot fp p b = ?b"
    unfolding add_hdr_def write_segment_def loaded_def [symmetric] sz np Let_def
    by (cases "loaded p"; cases kern; cases boot) (simp_all add: n(2))
  have "fold (add_hdr kern boot fp) hs ?b = (let l = int (length (payload fp hs)) in
     ?b\<lparr>img := img ?b @ payload fp hs, phyaddr := phyaddr ?b + l,
       kernel_filesz := kernel_filesz ?b + (if kern then l else 0),
       task_file_sz := task_file_sz ?b + (if \<not> kern \<and> \<not> boot then l else 0),
       task_mem_sz := task_mem_sz ?b + (if \<not> kern \<and> \<not> boot then int (mem_size hs) else 0)\<rparr>)"
    using Cons.prems n(1) m by (intro Cons.IH) (auto split: if_splits)
  then show ?case using step n(1) m by (simp add: payload_Cons Let_def algebra_simps)
qed

section \<open>Files\<close>

lemma named_eq: "chars nm \<Longrightarrow> chars (map of_char str) \<Longrightarrow> named (nm @ [0]) str = Some (nm = map of_char str)"
  using strcmp_zero_iff [of nm "map of_char str" "[]" "[]"] by (auto simp: named_def cstr_def)

definition zero_info :: task_info_t where
  "zero_info = \<lparr>tname = replicate 16 0, sectors_num = 0, filesz = 0, memsz = 0\<rparr>"

text \<open>Between two files: the image is a sequence of whole sectors, and the sizes of the next task are 0.\<close>

definition between :: "u8 list list \<Rightarrow> task_info_t list \<Rightarrow> int \<Rightarrow> build \<Rightarrow> bool" where
  "between parts infos kf b \<longleftrightarrow> img b = concat (map padded parts) \<and> phyaddr b = int (length (img b)) \<and> kernel_filesz b = kf \<and>
     task_file_sz b = 0 \<and> task_mem_sz b = 0 \<and> task b = length infos \<and> taskinfo b = infos @ replicate (16 - length infos) zero_info"

lemma length_parts: "length (concat (map padded parts)) = 512 * sum_list (map nsec parts)"
  by (induction parts) simp_all

lemma padding_effect:
  assumes "img b = concat (map padded parts) @ pl" "phyaddr b = int (length (img b))" "length (img b) + 512 < 2 ^ 31"
  shows "write_padding (round_sector (phyaddr b)) b =
    b\<lparr>img := concat (map padded (parts @ [pl])), phyaddr := int (length (concat (map padded (parts @ [pl]))))\<rparr>"
proof -
  let ?m = "sum_list (map nsec parts)"
  have l: "length (img b) = 512 * ?m + length pl" using assms(1) length_parts [of parts] by simp
  have ns: "nsec (img b) = ?m + nsec pl" using l length_le_nsec [of pl] by (intro nsecI) simp_all
  have r: "round_sector (phyaddr b) = 512 * int (?m + nsec pl)" using round_sector_up [OF assms(3)] assms(2) ns by simp
  have "nat (round_sector (phyaddr b) - phyaddr b) = 512 * nsec pl - length pl" unfolding r using assms(2) l by simp
  moreover have "max (phyaddr b) (round_sector (phyaddr b)) = int (length (concat (map padded (parts @ [pl]))))"
    unfolding r length_parts using assms(2) l length_le_nsec(1) [of pl] by simp
  ultimately show ?thesis using assms(1) by (simp add: write_padding_def padded_def)
qed

lemma add_file_effect:
  assumes pr: "program fp hs" and pl: "pl = payload fp hs" and bt: "between parts infos kf b"
    and kf: "0 \<le> kf" "kf + int (length pl) < 2 ^ 31" and sz: "length (img b) + length pl + 512 < 2 ^ 31"
    and nm: "chars nm" and kern: "kern \<longleftrightarrow> nm = map of_char ''main''" and boot: "boot \<longleftrightarrow> nm = map of_char ''bootblock''"
    and room: "kern \<or> boot \<or> length infos < 16 \<and> length nm < 16"
  shows "\<exists>b'. add_file (nm @ [0], fp) b = Some b' \<and>
    between (parts @ [pl])
      (if kern \<or> boot then infos
       else infos @ [\<lparr>tname = nm @ replicate (16 - length nm) 0, sectors_num = int (nsec pl), filesz = int (length pl), memsz = int (mem_size hs)\<rparr>])
      (if kern then kf + int (length pl) else kf) b'"
proof -
  obtain ehdr where eh: "read_ehdr fp = Some ehdr" "those (map (read_phdr fp ehdr) [0..<unat (e_phnum ehdr)]) = Some hs"
    using pr by (auto simp: program_def headers_def split: Option.bind_splits)
  have nk: "named (nm @ [0]) ''main'' = Some kern" "named (nm @ [0]) ''bootblock'' = Some boot"
    unfolding kern boot using nm by (intro named_eq; simp)+
  define b1 where "b1 = fold (add_hdr kern boot fp) hs b"
  have f: "foldM (add_phdr (nm @ [0]) fp ehdr) [0..<unat (e_phnum ehdr)] b = Some b1"
    unfolding b1_def by (rule add_phdrs_fold [OF nk eh(2)])
  have b: "phyaddr b = int (length (img b))" "kernel_filesz b = kf" "task_file_sz b = 0" "task_mem_sz b = 0"
    "img b = concat (map padded parts)" "task b = length infos" "taskinfo b = infos @ replicate (16 - length infos) zero_info"
    using bt by (simp_all add: between_def)
  have b1: "b1 = (let l = int (length pl) in b\<lparr>img := img b @ pl, phyaddr := phyaddr b + l,
       kernel_filesz := kf + (if kern then l else 0), task_file_sz := (if \<not> kern \<and> \<not> boot then l else 0),
       task_mem_sz := (if \<not> kern \<and> \<not> boot then int (mem_size hs) else 0)\<rparr>)"
    unfolding b1_def pl using add_hdrs_effect [of hs b fp kern boot] pr b kf sz pl by (simp add: program_def Let_def)
  have i1: "img b1 = concat (map padded parts) @ pl" "phyaddr b1 = int (length (img b1))" "length (img b1) + 512 < 2 ^ 31"
    using b b1 sz by (simp_all add: Let_def)
  have pad: "write_padding (round_sector (phyaddr b1)) (b1\<lparr>nsectors_kernel := x\<rparr>) =
      b1\<lparr>nsectors_kernel := x, img := concat (map padded (parts @ [pl])), phyaddr := int (length (concat (map padded (parts @ [pl]))))\<rparr>" for x
    using padding_effect [of "b1\<lparr>nsectors_kernel := x\<rparr>" parts pl] i1 by simp
  have pad1: "write_padding (round_sector (phyaddr b1)) b1 =
      b1\<lparr>img := concat (map padded (parts @ [pl])), phyaddr := int (length (concat (map padded (parts @ [pl]))))\<rparr>"
    using padding_effect [OF i1] .
  have nb: "\<not> (kern \<and> boot)" unfolding kern boot by auto
  consider "boot" | "kern" | "\<not> kern" "\<not> boot" by blast
  then show ?thesis
  proof cases
    case 1
    then have "add_file (nm @ [0], fp) b = Some (write_padding (round_sector (phyaddr b1)) b1)"
      using eh(1) f nk by (simp add: add_file_def)
    then show ?thesis unfolding pad1 using 1 nb b b1 by (simp add: between_def Let_def)
  next
    case 2
    then have "add_file (nm @ [0], fp) b = Some (write_padding (round_sector (phyaddr b1)) (b1\<lparr>nsectors_kernel := NBYTES2SEC (kernel_filesz b1)\<rparr>))"
      using eh(1) f nk nb by (simp add: add_file_def)
    then show ?thesis unfolding pad using 2 nb b b1 by (simp add: between_def Let_def)
  next
    case 3
    then have rm: "length infos < 16" "length nm < 16" using room by auto
    have tk: "taskinfo b1 ! task b1 = zero_info" "task b1 < length (taskinfo b1)"
      using b b1 rm by (simp_all add: Let_def nth_append)
    have cp: "strcpy (tname zero_info) (nm @ [0]) = Some (nm @ replicate (16 - length nm) 0)"
    proof -
      have "strcpy (replicate 16 0) (nm @ 0 # []) = Some (nm @ 0 # drop (Suc (length nm)) (replicate 16 0))"
        using nm rm by (intro strcpy_fits) simp_all
      moreover have "0 # drop (Suc (length nm)) (replicate 16 (0::u8)) = replicate (16 - length nm) 0"
        using rm(2) by (simp add: Suc_diff_Suc flip: replicate_Suc)
      ultimately show ?thesis by (simp add: zero_info_def)
    qed
    let ?i = "\<lparr>tname = nm @ replicate (16 - length nm) 0, sectors_num = int (nsec pl), filesz = int (length pl), memsz = int (mem_size hs)\<rparr>"
    have upd: "(taskinfo b1)[length infos := ?i] = (infos @ [?i]) @ replicate (16 - Suc (length infos)) zero_info"
    proof -
      have "16 - length infos = Suc (15 - length infos)" using rm(1) by simp
      then show ?thesis using b b1 by (simp add: Let_def list_update_append)
    qed
    have add: "add_file (nm @ [0], fp) b = Some (b1\<lparr>img := concat (map padded (parts @ [pl])),
        phyaddr := int (length (concat (map padded (parts @ [pl])))),
        taskinfo := (taskinfo b1)[length infos := ?i], task := length infos + 1, task_file_sz := 0, task_mem_sz := 0\<rparr>)"
    proof -
      have "task_file_sz b1 = int (length pl)" "task_mem_sz b1 = int (mem_size hs)" "task b1 = length infos"
        using 3 b b1 by (simp_all add: Let_def)
      then show ?thesis unfolding add_file_def using eh(1) f nk 3 tk cp by (simp add: pad1 NBYTES2SEC_nsec)
    qed
    show ?thesis unfolding add upd using 3 b b1 by (simp add: between_def Let_def)
  qed
qed

section \<open>The whole image\<close>

type_synonym task_src = "u8 list \<times> u8 list \<times> elf64_phdr list"

definition part_of :: "task_src \<Rightarrow> u8 list" where
  "part_of t = (case t of (nm, fp, hs) \<Rightarrow> payload fp hs)"

definition info_of :: "task_src \<Rightarrow> task_info_t" where
  "info_of t = (case t of (nm, fp, hs) \<Rightarrow>
     \<lparr>tname = nm @ replicate (16 - length nm) 0, sectors_num = int (nsec (part_of t)), filesz = int (length (part_of t)),
      memsz = int (mem_size hs)\<rparr>)"

definition task_ok :: "task_src \<Rightarrow> bool" where
  "task_ok t = (case t of (nm, fp, hs) \<Rightarrow>
     program fp hs \<and> chars nm \<and> length nm < 16 \<and> nm \<noteq> map of_char ''main'' \<and> nm \<noteq> map of_char ''bootblock'')"

definition task_file :: "task_src \<Rightarrow> u8 list \<times> u8 list" where
  "task_file t = (case t of (nm, fp, hs) \<Rightarrow> (nm @ [0], fp))"

lemma add_tasks:
  assumes "\<forall>t\<in>set ts. task_ok t" "between parts infos kf b" "length infos + length ts \<le> 16" "0 \<le> kf"
    and "kf + 512 * int (sum_list (map nsec parts) + sum_list (map (\<lambda>t. nsec (part_of t)) ts) + 1) < 2 ^ 31"
  shows "\<exists>b'. foldM add_file (map task_file ts) b = Some b' \<and> between (parts @ map part_of ts) (infos @ map info_of ts) kf b'"
  using assms
proof (induction ts arbitrary: parts infos b)
  case Nil
  then show ?case by simp
next
  case (Cons t ts)
  obtain nm fp hs where t: "t = (nm, fp, hs)" by (cases t)
  let ?pl = "part_of t"
  have ok: "program fp hs" "chars nm" "length nm < 16" "nm \<noteq> map of_char ''main''" "nm \<noteq> map of_char ''bootblock''"
    using Cons.prems(1) t by (simp_all add: task_ok_def)
  have pl: "?pl = payload fp hs" by (simp add: part_of_def t)
  have im: "length (img b) = 512 * sum_list (map nsec parts)" using Cons.prems(2) by (simp add: between_def length_parts)
  have s: "sum_list (map (\<lambda>t. nsec (part_of t)) (t # ts)) = nsec ?pl + sum_list (map (\<lambda>t. nsec (part_of t)) ts)" by simp
  note ln = length_le_nsec(1) [of ?pl]
  have lim: "kf + 512 * int (sum_list (map nsec parts)) + 512 * int (nsec ?pl) + 512 * int (sum_list (map (\<lambda>t. nsec (part_of t)) ts)) + 512 < 2 ^ 31"
    using Cons.prems(5) s by simp
  have "kf + int (length ?pl) < 2 ^ 31" using lim ln by linarith
  moreover have "int (length (img b) + length ?pl + 512) < int (2 ^ 31)" using lim ln im Cons.prems(4) by simp
  ultimately obtain b1 where b1: "add_file (task_file t) b = Some b1" "between (parts @ [?pl]) (infos @ [info_of t]) kf b1"
    using add_file_effect [OF ok(1) pl Cons.prems(2,4) _ _ ok(2) refl refl] ok(3-5) Cons.prems(3) 
    by (auto simp: task_file_def info_of_def t simp del: of_nat_add)
  have "\<exists>b'. foldM add_file (map task_file ts) b1 = Some b' \<and>
      between ((parts @ [?pl]) @ map part_of ts) ((infos @ [info_of t]) @ map info_of ts) kf b'"
    using Cons.prems lim b1(2) by (intro Cons.IH) auto
  then show ?case using b1(1) by simp
qed

definition boot_files :: "u8 list \<Rightarrow> u8 list \<Rightarrow> task_src list \<Rightarrow> (u8 list \<times> u8 list) list" where
  "boot_files fb fk ts = (cstr ''bootblock'', fb) # (cstr ''main'', fk) # map task_file ts"

text \<open>The image that the tool writes for a boot block, a kernel and tasks with the given contents.\<close>

definition app_info :: "u8 list \<Rightarrow> nat \<Rightarrow> nat \<Rightarrow> u16 \<Rightarrow> u8 list" where
  "app_info plk n tot nk = put_int (int (length plk)) @ put_int (int n) @ put_int (int tot) @ le_put 2 nk @ [0x55, 0xaa]"

definition image_of :: "u8 list \<Rightarrow> u8 list \<Rightarrow> task_src list \<Rightarrow> u16 \<Rightarrow> u8 list" where
  "image_of plb plk ts nk =
     splice_at 0x1f0 (app_info plk (length ts) (1 + nsec plk + sum_list (map (\<lambda>t. nsec (part_of t)) ts)) nk)
       (concat (map padded ([plb, plk] @ map part_of ts))) @ concat (map (task_info_bytes \<circ> info_of) ts)"

lemma length_put_int [simp]: "length (put_int n) = 4"
  by (simp add: put_int_def)

lemma create_image_eq:
  assumes "program fb hb" "program fk hk" "plb = payload fb hb" "plk = payload fk hk" "\<forall>t\<in>set ts. task_ok t" "length ts \<le> 16"
    and b1: "nsec plb = 1"
    and lim: "1024 * (2 + nsec plk + sum_list (map (\<lambda>t. nsec (part_of t)) ts)) < 2 ^ 31"
  shows "\<exists>nk. create_image (boot_files fb fk ts) = Some (image_of plb plk ts nk)"
proof -
  let ?T = "sum_list (map (\<lambda>t. nsec (part_of t)) ts)"
  have bt0: "between [] [] 0 empty_build" by (simp add: between_def empty_build_def zero_info_def)
  note l1 = length_le_nsec(1) [of plb] and l2 = length_le_nsec(1) [of plk]
  obtain c1 where c1: "add_file (cstr ''bootblock'', fb) empty_build = Some c1" "between [plb] [] 0 c1"
    using add_file_effect [OF assms(1,3) bt0, of "map of_char ''bootblock''" False True] l1 b1
    by (auto simp: cstr_def empty_build_def)
  have i1: "length (img c1) = 512" using c1(2) b1 by (simp add: between_def)
  have kf: "int (length plk) < 2 ^ 31" "int (512 + length plk + 512) < int (2 ^ 31)" using l2 lim by simp_all
  obtain c2 where c2: "add_file (cstr ''main'', fk) c1 = Some c2" "between [plb, plk] [] (int (length plk)) c2"
    using add_file_effect [OF assms(2,4) c1(2), of "map of_char ''main''" True False] kf i1
    by (auto simp: cstr_def simp del: of_nat_add)
  have "int (length plk) + 512 * int (sum_list (map nsec [plb, plk]) + ?T + 1) < 2 ^ 31"
  proof -
    have "length plk + 512 * (nsec plb + nsec plk + ?T + 1) < 2 ^ 31" using l2 lim b1 by simp
    then have "int (length plk + 512 * (nsec plb + nsec plk + ?T + 1)) < int (2 ^ 31)" by (simp only: of_nat_less_iff)
    then show ?thesis by simp
  qed
  then obtain c3 where c3: "foldM add_file (map task_file ts) c2 = Some c3"
      "between ([plb, plk] @ map part_of ts) ([] @ map info_of ts) (int (length plk)) c3"
    using add_tasks [OF assms(5) c2(2)] assms(6) by auto
  have fl: "foldM add_file (boot_files fb fk ts) empty_build = Some c3"
    using c1(1) c2(1) c3(1) by (simp add: boot_files_def)
  have len: "length (img c3) = 512 * (1 + nsec plk + ?T)"
    using c3(2) b1 length_parts [of "[plb, plk] @ map part_of ts"] by (simp add: between_def o_def)
  have tot: "phyaddr c3 sdiv 512 = int (1 + nsec plk + ?T)"
    using c3(2) len by (simp add: between_def signed_divide_int_def)
  have "length (boot_files fb fk ts) = length ts + 2" by (simp add: boot_files_def)
  then have tn: "int (length (boot_files fb fk ts)) - 2 = int (length ts)" by simp
  have tk: "take (length ts) (taskinfo c3) = map info_of ts" using c3(2) assms(6) by (simp add: between_def)
  have le: "length ts \<le> length (taskinfo c3)" using c3(2) assms(6) by (simp add: between_def)
  have im: "img c3 = concat (map padded ([plb, plk] @ map part_of ts))" "kernel_filesz c3 = int (length plk)"
    using c3(2) by (simp_all add: between_def)
  have wr: "write_at APP_INFO_OFFSET h (img c3) = splice_at 0x1f0 h (img c3)" if "length h = 16" for h
    using that len by (simp add: write_at_def splice_at_def APP_INFO_OFFSET_def)
  let ?nk = "of_int (nsectors_kernel c3) :: u16"
  have "create_image (boot_files fb fk ts) =
      Some (splice_at 0x1f0 (app_info plk (length ts) (1 + nsec plk + ?T) ?nk) (img c3) @ concat (map task_info_bytes (map info_of ts)))"
    using le by (simp add: create_image_def fl tn tot wr write_img_info_def tk app_info_def im(2) Let_def del: map_map)
  then show ?thesis unfolding im(1) image_of_def by auto
qed

section \<open>Booting from the image\<close>

definition BOOT_SECTOR :: u64 where "BOOT_SECTOR = 0xffffffc050200000"

text \<open>
  A machine booted from the image: the firmware has loaded the first sector, and the card holds the
  image from its first sector on.
\<close>

definition booted :: "'d sdcard \<Rightarrow> u8 list \<Rightarrow> ('d, 'a) kernel_scheme \<Rightarrow> bool" where
  "booted B im s \<longleftrightarrow> sd_card_ok B \<and> load_bytes BOOT_SECTOR 512 s = take 512 im \<and> length (tasks s) = 32 \<and>
     (\<forall>k j. j < 512 \<longrightarrow> 512 * unat k + j < length im \<longrightarrow> sector B (sd s) k ! j = im ! (512 * unat k + j))"

lemma get_put_int: "- (2 ^ 31) \<le> n \<Longrightarrow> n < 2 ^ 31 \<Longrightarrow> get_int (put_int n) = n"
  by (simp add: get_int_def put_int_def le_get_put signed_of_int signed_take_bit_int_eq_self_iff)

lemma length_load_bytes [simp]: "length (load_bytes a n s) = n"
  by (simp add: load_bytes_def)

lemma load_bytes_slice: "k + n \<le> N \<Longrightarrow> load_bytes (a + of_nat k) n s = slice k n (load_bytes a N s)"
  by (rule nth_equalityI) (simp_all add: load_bytes_def nth_slice add.assoc)

lemma load_bytes_written:
  assumes "length bs = 512" "k + n \<le> 512"
  shows "load_bytes (a + of_nat k) n (write_bytes a bs s) = slice k n bs"
proof (rule nth_equalityI)
  fix i assume "i < length (load_bytes (a + of_nat k) n (write_bytes a bs s))"
  then have i: "i < n" by simp
  have "unat (of_nat (k + i) :: u64) = k + i" using i assms(2) by (subst unat_of_nat) simp
  then have u: "unat (of_nat k + of_nat i :: u64) = k + i" by simp
  have "load_byte (a + of_nat k + of_nat i) (write_bytes a bs s) = bs ! (k + i)"
    using assms i by (simp add: load_write_bytes u add.assoc)
  then show "load_bytes (a + of_nat k) n (write_bytes a bs s) ! i = slice k n bs ! i"
    using i assms by (simp add: load_bytes_def nth_slice)
qed (use assms in simp)

lemma write_bytes_tasks [simp]:
  fixes s :: "('d, 'a) kernel_scheme"
  shows "tasks (write_bytes a bs s) = tasks s" "tasks_num (write_bytes a bs s) = tasks_num s"
    "kernel_sectors_num (write_bytes a bs s) = kernel_sectors_num s"
  by (induction bs arbitrary: a s) (simp_all add: store_byte_def store_def Let_def)

lemma load_bytes_mem: "mem s' = mem s \<Longrightarrow> load_bytes a n s' = load_bytes a n s"
  by (simp add: load_bytes_def load_byte_def)

lemma bytes_task_info_bytes:
  assumes "length (tname t) = 16" "0 \<le> sectors_num t" "sectors_num t < 2 ^ 31" "0 \<le> filesz t" "filesz t < 2 ^ 31"
    "0 \<le> memsz t" "memsz t < 2 ^ 31"
  shows "bytes_task_info (task_info_bytes t) = t"
  using assms by (simp add: bytes_task_info_def task_info_bytes_def slice_append1 slice_append2 slice_all get_put_int)

lemma length_task_info_bytes: "length (tname t) = 16 \<Longrightarrow> length (task_info_bytes t) = 28"
  by (simp add: task_info_bytes_def)

lemma slice_concat:
  "\<forall>x\<in>set xs. length (f x) = n \<Longrightarrow> i < length xs \<Longrightarrow> slice (n * i) n (concat (map f xs)) = f (xs ! i)"
proof (induction xs arbitrary: i)
  case Nil
  then show ?case by simp
next
  case (Cons x xs)
  then show ?case by (cases i) (simp_all add: slice_append1 slice_append2 slice_all)
qed

lemma length_concat_same: "\<forall>x\<in>set xs. length (f x) = n \<Longrightarrow> length (concat (map f xs)) = n * length xs"
  by (induction xs) simp_all

lemma info_of_fields:
  assumes "task_ok t" "512 * nsec (part_of t) < 2 ^ 31"
  shows "length (tname (info_of t)) = 16" "bytes_task_info (task_info_bytes (info_of t)) = info_of t"
proof -
  obtain nm fp hs where t: "t = (nm, fp, hs)" by (cases t)
  show l: "length (tname (info_of t)) = 16" using assms(1) by (simp add: info_of_def task_ok_def t)
  have "length (part_of t) < 2 ^ 31" using assms(2) length_le_nsec(1) [of "part_of t"] by linarith
  then show "bytes_task_info (task_info_bytes (info_of t)) = info_of t"
    using assms l by (intro bytes_task_info_bytes) (auto simp: info_of_def task_ok_def program_def t)
qed

text \<open>The loader finds the task with a given name, after the sectors of the tasks before it.\<close>

lemma find_task_from:
  assumes names: "\<forall>i<n. \<exists>nm. chars nm \<and> length nm < 16 \<and> tname (tasks s ! i) = nm @ replicate (16 - length nm) 0 \<and> (nm = nm_k \<longleftrightarrow> i = k)"
    and n: "tasks_num s = int n" "n \<le> length (tasks s)" "k < n" "chars nm_k"
  shows "i \<le> k \<Longrightarrow> find_task (nm_k @ [0]) s (int i) blk = Some (int k, blk + sum_list (map (\<lambda>j. sectors_num (tasks s ! j)) [i..<k]))"
proof (induction "k - i" arbitrary: i blk)
  case 0
  then have ik: "i = k" by simp
  obtain nm where nm: "chars nm" "length nm < 16" "tname (tasks s ! k) = nm @ replicate (16 - length nm) 0" "nm = nm_k"
    using names n(3) by auto
  have "replicate (16 - length nm) (0::u8) = 0 # replicate (15 - length nm) 0" using nm(2) by (simp add: Suc_diff_Suc flip: replicate_Suc)
  then have "strcmp (tname (tasks s ! k)) (nm_k @ [0]) = Some 0" using nm n(4) by (metis strcmp_cstr_eq_0)
  then show ?case unfolding ik using n by (subst find_task.simps) simp
next
  case (Suc d)
  then have i: "i < k" by simp
  obtain nm where nm: "chars nm" "length nm < 16" "tname (tasks s ! i) = nm @ replicate (16 - length nm) 0" "nm \<noteq> nm_k"
    using names i n(3) by (metis less_trans less_irrefl)
  have "replicate (16 - length nm) (0::u8) = 0 # replicate (15 - length nm) 0" using nm(2) by (simp add: Suc_diff_Suc flip: replicate_Suc)
  then obtain r where "strcmp (tname (tasks s ! i)) (nm_k @ [0]) = Some r" "r \<noteq> 0"
    using strcmp_zero_iff [OF nm(1) n(4)] nm(3,4) by metis
  moreover have "find_task (nm_k @ [0]) s (int (Suc i)) (blk + sectors_num (tasks s ! i)) =
      Some (int k, blk + sectors_num (tasks s ! i) + sum_list (map (\<lambda>j. sectors_num (tasks s ! j)) [Suc i..<k]))"
    using Suc.hyps(2) i by (intro Suc.hyps(1)) auto
  ultimately show ?case using n i by (subst find_task.simps) (simp add: upt_conv_Cons algebra_simps)
qed

lemma image_parts:
  assumes "nsec plb = 1" and total: "total_sec = 1 + nsec plk + sum_list (map (\<lambda>t. nsec (part_of t)) ts)"
    and t16: "\<forall>t\<in>set ts. length (tname (info_of t)) = 16" and im: "im = image_of plb plk ts nk"
  shows "length im = 512 * total_sec + 28 * length ts"
    "slice 0x1f0 16 im = app_info plk (length ts) total_sec nk"
    "i < length ts \<Longrightarrow> slice (512 * total_sec + 28 * i) 28 im = task_info_bytes (info_of (ts ! i))"
    "k < length ts \<Longrightarrow> slice (512 * (1 + nsec plk + sum_list (map (\<lambda>t. nsec (part_of t)) (take k ts)))) (length (part_of (ts ! k))) im
       = part_of (ts ! k)"
proof -
  let ?C = "concat (map padded ([plb, plk] @ map part_of ts))" and ?A = "app_info plk (length ts) total_sec nk"
  let ?I = "concat (map (task_info_bytes \<circ> info_of) ts)"
  have im': "im = splice_at 0x1f0 ?A ?C @ ?I" by (simp add: im image_of_def total)
  have lA: "length ?A = 16" by (simp add: app_info_def)
  have lC: "length ?C = 512 * total_sec" using length_parts [of "[plb, plk] @ map part_of ts"] assms(1) by (simp add: total o_def)
  have tp: "0 < total_sec" by (simp add: total)
  have lS: "length (splice_at 0x1f0 ?A ?C) = 512 * total_sec" using lA lC tp by (subst length_splice_at) simp_all
  have b28: "\<forall>t\<in>set ts. length ((task_info_bytes \<circ> info_of) t) = 28" using t16 by (simp add: length_task_info_bytes)
  show "length im = 512 * total_sec + 28 * length ts" using lS length_concat_same [OF b28] by (simp add: im' o_def)
  show "slice 0x1f0 16 im = ?A"
    unfolding im' using lS lA lC tp by (simp add: slice_append1 slice_splice_same)
  show "slice (512 * total_sec + 28 * i) 28 im = task_info_bytes (info_of (ts ! i))" if "i < length ts"
    unfolding im' using lS slice_concat [OF b28 that] by (simp add: slice_append2 o_def)
  show "slice (512 * (1 + nsec plk + sum_list (map (\<lambda>t. nsec (part_of t)) (take k ts)))) (length (part_of (ts ! k))) im = part_of (ts ! k)"
    if k: "k < length ts"
  proof -
    let ?pre = "concat (map padded ([plb, plk] @ map part_of (take k ts)))" and ?p = "part_of (ts ! k)"
    have sp: "ts = take k ts @ ts ! k # drop (Suc k) ts" using k by (simp add: id_take_nth_drop)
    have C: "?C = ?pre @ padded ?p @ concat (map padded (map part_of (drop (Suc k) ts)))"
      by (subst sp) simp
    have lp: "length ?pre = 512 * (1 + nsec plk + sum_list (map (\<lambda>t. nsec (part_of t)) (take k ts)))"
      using length_parts [of "[plb, plk] @ map part_of (take k ts)"] assms(1) by (simp add: o_def)
    have fit: "length ?pre + length ?p \<le> length ?C" unfolding C using length_le_nsec(1) [of ?p] by simp
    have "slice (length ?pre) (length ?p) im = slice (length ?pre) (length ?p) (splice_at 0x1f0 ?A ?C)"
      unfolding im' using fit lC lS by (intro slice_append1) simp
    also have "\<dots> = slice (length ?pre) (length ?p) ?C"
      using lA lC tp lp fit by (intro slice_splice_other) simp_all
    also have "\<dots> = ?p" unfolding C by (simp add: slice_def padded_def)
    finally show ?thesis by (simp only: lp)
  qed
qed

lemma sum_list_int: "sum_list (map (\<lambda>x. int (f x)) xs) = int (sum_list (map f xs))"
  by (induction xs) simp_all

lemma slice_app_info:
  "slice 0 4 (app_info plk n tot nk) = put_int (int (length plk))" "slice 4 4 (app_info plk n tot nk) = put_int (int n)"
  "slice 8 4 (app_info plk n tot nk) = put_int (int tot)"
  by (simp_all add: app_info_def slice_append1 slice_append2 slice_all)

lemma init_task_info_reads:
  fixes s :: "('d, 'a) kernel_scheme"
  assumes "nsec plb = 1" and total: "total_sec = 1 + nsec plk + sum_list (map (\<lambda>t. nsec (part_of t)) ts)"
    and lim: "1024 * (1 + total_sec) < 2 ^ 31" and ok: "\<forall>t\<in>set ts. task_ok t" and n: "length ts \<le> 16"
    and im: "im = image_of plb plk ts nk" and bt: "booted B im s"
  shows "\<exists>s'. init_task_info B s = Some s' \<and> tasks_num s' = int (length ts) \<and> kernel_sectors_num s' = int (nsec plk) \<and>
    tasks s' = map info_of ts @ drop (length ts) (tasks s)"
proof -
  have small: "512 * nsec (part_of t) < 2 ^ 31" if "t \<in> set ts" for t
    using that lim member_le_sum_list [of "nsec (part_of t)" "map (\<lambda>t. nsec (part_of t)) ts"] total by auto
  note info = info_of_fields [OF bspec [OF ok] small]
  have t16: "\<forall>t\<in>set ts. length (tname (info_of t)) = 16" using info(1) by blast
  note parts = image_parts [OF assms(1) total t16 im]
  have li: "512 \<le> length im" using parts(1) total by simp
  have rd: "load_bytes (BOOT_SECTOR + of_nat (0x1f0 + o')) 4 s = slice o' 4 (app_info plk (length ts) total_sec nk)" if "o' + 4 \<le> 16" for o'
  proof -
    have "load_bytes (BOOT_SECTOR + of_nat (0x1f0 + o')) 4 s = slice (0x1f0 + o') 4 (take 512 im)"
      using bt that by (subst load_bytes_slice [of _ _ 512]) (simp_all add: booted_def)
    also have "\<dots> = slice (0x1f0 + o') 4 im" using that by (simp add: slice_def drop_take)
    also have "\<dots> = slice o' 4 (slice 0x1f0 16 im)" using that by (simp add: slice_slice)
    finally show ?thesis by (simp add: parts(2))
  qed
  have lk: "int (length plk) < 2 ^ 31" "int (length ts) < 2 ^ 31" "int total_sec < 2 ^ 31"
    using lim length_le_nsec(1) [of plk] n total by simp_all
  have e: "APP_INFO_ENTRY = BOOT_SECTOR + of_nat (0x1f0 + 0)" "APP_INFO_ENTRY + 4 = BOOT_SECTOR + of_nat (0x1f0 + 4)"
    "APP_INFO_ENTRY + 8 = BOOT_SECTOR + of_nat (0x1f0 + 8)" by (simp_all add: APP_INFO_ENTRY_def BOOT_SECTOR_def)
  have ints: "get_int (load_bytes APP_INFO_ENTRY 4 s) = int (length plk)" "get_int (load_bytes (APP_INFO_ENTRY + 4) 4 s) = int (length ts)"
    "get_int (load_bytes (APP_INFO_ENTRY + 8) 4 s) = int total_sec"
    unfolding e(2,3) using rd [of 0] rd [of 4] rd [of 8] lk e(1) by (simp_all add: slice_app_info get_put_int add.commute)
  define sec where "sec = sector B (sd s) (of_nat total_sec)"
  have ls: "length sec = 512" using bt sd_card_okD(1) by (auto simp: sec_def booted_def)
  have ut: "unat (of_nat total_sec :: u32) = total_sec" using lim by (subst unat_of_nat) simp
  have sl: "slice (28 * i) 28 sec = task_info_bytes (info_of (ts ! i))" if "i < length ts" for i
  proof -
    have b: "28 * i + 28 \<le> 28 * length ts" using that by simp
    have "slice (28 * i) 28 sec = slice (512 * total_sec + 28 * i) 28 im"
    proof (rule nth_equalityI)
      fix j assume "j < length (slice (28 * i) 28 sec)"
      then have j: "j < 28" by simp
      then have "sec ! (28 * i + j) = im ! (512 * total_sec + (28 * i + j))"
        unfolding sec_def using bt b n ut parts(1) by (simp add: booted_def)
      then show "slice (28 * i) 28 sec ! j = slice (512 * total_sec + 28 * i) 28 im ! j"
        using j b n ls parts(1) by (simp add: nth_slice add.assoc)
    qed (use b n ls parts(1) in simp)
    then show ?thesis using parts(3) [OF that] by simp
  qed
  define s1 where "s1 = s\<lparr>tasks_num := int (length ts), kernel_sectors_num := int (nsec plk), disk_sectors_startid := int total_sec + 1\<rparr>"
  define s2 where "s2 = write_bytes TASK_INFO_ARRAY sec s1"
  have rdt: "bytes_task_info (load_bytes (TASK_INFO_ARRAY + 28 * of_nat i) 28 s2) = info_of (ts ! i)" if i: "i < length ts" for i
  proof -
    have "load_bytes (TASK_INFO_ARRAY + of_nat (28 * i)) 28 s2 = slice (28 * i) 28 sec"
      unfolding s2_def using ls i n by (intro load_bytes_written) simp_all
    then show ?thesis using sl [OF i] info(2) i by simp
  qed
  have "map (\<lambda>i. bytes_task_info (load_bytes (TASK_INFO_ARRAY + 28 * of_nat i) 28 s2)) [0..<length ts] = map info_of ts"
    using rdt by (intro nth_equalityI) simp_all
  moreover have "length (tasks s) = 32" using bt by (simp add: booted_def)
  moreover have "sd_read B (sd s) 1 (of_nat total_sec) = sec" by (simp add: sec_def sector_def)
  ultimately have "init_task_info B s = Some (s2\<lparr>tasks := map info_of ts @ drop (length ts) (tasks s)\<rparr>)"
    unfolding init_task_info_def ints NBYTES2SEC_nsec using n by (simp add: Let_def s2_def s1_def NBYTES2SEC_nsec)
  then show ?thesis by (simp add: s2_def s1_def)
qed

text \<open>
  C16: The image tool and the loader agree. For a boot block of one sector, a kernel and up to 16 tasks with
  distinct names, whose program headers that are not loaded carry no file bytes, \<^verbatim>\<open>createimage\<close> succeeds; and on
  every machine that boots from its output, \<^verbatim>\<open>init_task_info\<close> fills the task table so that the loader's search
  for each task's name yields the task's index and the sector where exactly the loaded segments of that
  task begin in the image, with their size in the file and in memory.
\<close>

theorem image_boots:
  fixes ts :: "task_src list"
  assumes "program fb hb" "program fk hk" "0 < length (payload fb hb)" "length (payload fb hb) \<le> 512"
    and ok: "\<forall>t\<in>set ts. task_ok t" and di: "distinct (map fst ts)" and n: "length ts \<le> 16"
    and lim: "1024 * (2 + nsec (payload fk hk) + sum_list (map (\<lambda>t. nsec (part_of t)) ts)) < 2 ^ 31"
  shows "\<exists>im. create_image (boot_files fb fk ts) = Some im \<and>
    (\<forall>B (s :: ('d, 'a) kernel_scheme). booted B im s \<longrightarrow>
      (\<exists>s'. init_task_info B s = Some s' \<and> tasks_num s' = int (length ts) \<and>
        (\<forall>k<length ts. \<exists>blk. find_task (fst (ts ! k) @ [0]) s' 0 (kernel_sectors_num s' + 1) = Some (int k, int blk) \<and>
           slice (512 * blk) (length (part_of (ts ! k))) im = part_of (ts ! k) \<and>
           filesz (tasks s' ! k) = int (length (part_of (ts ! k))) \<and> memsz (tasks s' ! k) = int (mem_size (snd (snd (ts ! k)))))))"
proof -
  let ?plb = "payload fb hb" and ?plk = "payload fk hk"
  have one: "nsec ?plb = 1" using assms(3,4) by (intro nsecI) simp_all
  obtain nk where im: "create_image (boot_files fb fk ts) = Some (image_of ?plb ?plk ts nk)"
    using create_image_eq [OF assms(1,2) refl refl ok n one lim] by blast
  let ?im = "image_of ?plb ?plk ts nk"
  have "\<exists>s'. init_task_info B s = Some s' \<and> tasks_num s' = int (length ts) \<and>
        (\<forall>k<length ts. \<exists>blk. find_task (fst (ts ! k) @ [0]) s' 0 (kernel_sectors_num s' + 1) = Some (int k, int blk) \<and>
           slice (512 * blk) (length (part_of (ts ! k))) ?im = part_of (ts ! k) \<and>
           filesz (tasks s' ! k) = int (length (part_of (ts ! k))) \<and> memsz (tasks s' ! k) = int (mem_size (snd (snd (ts ! k)))))"
    if bt: "booted B ?im s" for B and s :: "('d, 'a) kernel_scheme"
  proof -
    obtain s' where s': "init_task_info B s = Some s'" "tasks_num s' = int (length ts)" "kernel_sectors_num s' = int (nsec ?plk)"
      "tasks s' = map info_of ts @ drop (length ts) (tasks s)"
      using init_task_info_reads [OF one refl _ ok n refl bt] lim by auto
    have tk: "tasks s' ! i = info_of (ts ! i)" if "i < length ts" for i using that s'(4) by (simp add: nth_append)
    have t16: "\<forall>t\<in>set ts. length (tname (info_of t)) = 16" using ok by (auto simp: task_ok_def info_of_def)
    have "\<exists>blk. find_task (fst (ts ! k) @ [0]) s' 0 (kernel_sectors_num s' + 1) = Some (int k, int blk) \<and>
       slice (512 * blk) (length (part_of (ts ! k))) ?im = part_of (ts ! k)" if k: "k < length ts" for k
    proof -
      let ?blk = "1 + nsec ?plk + sum_list (map (\<lambda>t. nsec (part_of t)) (take k ts))"
      have "task_ok (ts ! k)" using ok k nth_mem by blast
      then have nmk: "chars (fst (ts ! k))" by (cases "ts ! k") (simp add: task_ok_def)
      have names: "\<forall>i<length ts. \<exists>nm. chars nm \<and> length nm < 16 \<and> tname (tasks s' ! i) = nm @ replicate (16 - length nm) 0 \<and>
          (nm = fst (ts ! k) \<longleftrightarrow> i = k)"
      proof (intro allI impI)
        fix i assume i: "i < length ts"
        obtain nm fp hs where t: "ts ! i = (nm, fp, hs)" by (cases "ts ! i")
        have "task_ok (nm, fp, hs)" using ok i t by (metis nth_mem)
        moreover have "nm = fst (ts ! k) \<longleftrightarrow> i = k" using di i k t nth_eq_iff_index_eq [OF di, of i k] by simp
        ultimately show "\<exists>nm. chars nm \<and> length nm < 16 \<and> tname (tasks s' ! i) = nm @ replicate (16 - length nm) 0 \<and>
          (nm = fst (ts ! k) \<longleftrightarrow> i = k)" using tk [OF i] t by (intro exI [of _ nm]) (auto simp: info_of_def task_ok_def)
      qed
      have "find_task (fst (ts ! k) @ [0]) s' (int 0) (kernel_sectors_num s' + 1) =
          Some (int k, kernel_sectors_num s' + 1 + sum_list (map (\<lambda>j. sectors_num (tasks s' ! j)) [0..<k]))"
        using s' k nmk by (intro find_task_from [OF names]) simp_all
      moreover have "sum_list (map (\<lambda>j. sectors_num (tasks s' ! j)) [0..<k]) = int (sum_list (map (\<lambda>t. nsec (part_of t)) (take k ts)))"
      proof -
        have "map (\<lambda>j. sectors_num (tasks s' ! j)) [0..<k] = map (int \<circ> (\<lambda>t. nsec (part_of t))) (take k ts)"
          using k tk by (intro nth_equalityI) (auto simp: info_of_def split: prod.splits)
        then show ?thesis by (simp add: o_def sum_list_int)
      qed
      ultimately have "find_task (fst (ts ! k) @ [0]) s' 0 (kernel_sectors_num s' + 1) = Some (int k, int ?blk)" using s'(3) by simp
      then show ?thesis using image_parts(4) [OF one refl t16 refl k] by blast
    qed
    moreover have "filesz (tasks s' ! k) = int (length (part_of (ts ! k))) \<and> memsz (tasks s' ! k) = int (mem_size (snd (snd (ts ! k))))"
      if "k < length ts" for k using tk [OF that] by (auto simp: info_of_def split: prod.splits)
    ultimately show ?thesis using s'(1,2) by blast
  qed
  then show ?thesis using im by blast
qed

section \<open>An instance\<close>

text \<open>A program with one loaded segment, and a machine with a given image on its card.\<close>

definition mk_elf :: "u8 list \<Rightarrow> u8 list" where
  "mk_elf pl = [127, 69, 76, 70] @ replicate 28 0 @ le_put 8 (64 :: u64) @ replicate 14 0 @ le_put 2 (56 :: u16) @ le_put 2 (1 :: u16) @
     replicate 6 0 @ le_put 4 (1 :: u32) @ replicate 4 0 @ le_put 8 (120 :: u64) @ replicate 16 0 @ le_put 8 (of_nat (length pl) :: u64) @
     le_put 8 (of_nat (length pl) :: u64) @ replicate 8 0 @ pl"

definition mk_phdr :: "u8 list \<Rightarrow> elf64_phdr" where
  "mk_phdr pl = \<lparr>p_type = 1, p_offset = 120, p_filesz = of_nat (length pl), p_memsz = of_nat (length pl)\<rparr>"

lemma headers_mk_elf: "headers (mk_elf pl) = Some [mk_phdr pl]"
proof -
  have e: "read_ehdr (mk_elf pl) = Some \<lparr>e_phoff = 64, e_phentsize = 56, e_phnum = 1\<rparr>"
    by (simp add: read_ehdr_def mk_elf_def slice_append2 slice_append1 slice_all nth_append le_get_put del: append.simps)
  have p: "read_phdr (mk_elf pl) \<lparr>e_phoff = 64, e_phentsize = 56, e_phnum = 1\<rparr> 0 = Some (mk_phdr pl)"
    by (simp add: read_phdr_def mk_elf_def mk_phdr_def slice_append2 slice_append1 slice_all le_get_put del: append.simps)
  show ?thesis using e p by (simp add: headers_def)
qed

lemma create_image_length: "create_image files = Some im \<Longrightarrow> 512 \<le> length im"
  by (auto simp: create_image_def write_img_info_def write_at_def APP_INFO_OFFSET_def Let_def split: Option.bind_splits if_splits)

lemma program_mk_elf:
  assumes "0 < length pl" "length pl < 2 ^ 31"
  shows "program (mk_elf pl) [mk_phdr pl]" "payload (mk_elf pl) [mk_phdr pl] = pl"
proof -
  have u: "unat (of_nat (length pl) :: u64) = length pl" using assms(2) by (subst unat_of_nat) simp
  then have nz: "(of_nat (length pl) :: u64) \<noteq> 0" using assms(1) by (metis unat_0 less_irrefl)
  have ld: "loaded (mk_phdr pl)" using nz by (simp add: loaded_def mk_phdr_def)
  have "segment (mk_phdr pl) (mk_elf pl) = pl"
    by (rule nth_equalityI) (use u in \<open>auto simp: segment_def mk_phdr_def mk_elf_def nth_append Let_def\<close>)
  then show "payload (mk_elf pl) [mk_phdr pl] = pl" using ld by (simp add: payload_def)
  show "program (mk_elf pl) [mk_phdr pl]"
    using headers_mk_elf [of pl] ld assms(2) u by (simp add: program_def mem_size_def mk_phdr_def)
qed

definition boot_state :: "u8 list \<Rightarrow> (u32 \<Rightarrow> u8 list) kernel" where
  "boot_state im = write_bytes BOOT_SECTOR (take 512 im)
     ((kernel_boot 1 (\<lambda>k. slice (512 * unat k) 512 im))\<lparr>tasks := replicate 32 zero_info\<rparr>)"

lemma sd_write_bytes [simp]: "sd (write_bytes a bs s) = sd s"
  by (induction bs arbitrary: a s) (simp_all add: store_byte_def store_def Let_def)

lemma booted_boot_state:
  assumes "512 \<le> length im"
  shows "booted ram_card im (boot_state im)"
proof -
  have "sd (boot_state im) = (\<lambda>k. slice (512 * unat k) 512 im)" by (simp add: boot_state_def kernel_boot_def mm_boot_def)
  then have "sector ram_card (sd (boot_state im)) k ! j = im ! (512 * unat k + j)" if "j < 512" "512 * unat k + j < length im" for k j
    using that by (simp add: sector_ram_card pad512_def slice_def nth_append less_diff_conv add.commute)
  moreover have "load_bytes BOOT_SECTOR 512 (boot_state im) = take 512 im"
    using load_bytes_written [of "take 512 im" 0 512 BOOT_SECTOR] assms by (simp add: boot_state_def slice_def)
  ultimately show ?thesis by (simp add: booted_def boot_state_def)
qed

theorem image_boots_witness:
  "\<exists>im s' blk. create_image (boot_files (mk_elf [1]) (mk_elf [2, 3]) [([97], mk_elf [7, 8, 9], [mk_phdr [7, 8, 9]])]) = Some im \<and>
     init_task_info ram_card (boot_state im) = Some s' \<and> tasks_num s' = 1 \<and>
     find_task [97, 0] s' 0 (kernel_sectors_num s' + 1) = Some (0, int blk) \<and> slice (512 * blk) 3 im = [7, 8, 9]"
proof -
  let ?t = "([97], mk_elf [7, 8, 9], [mk_phdr [7, 8, 9]]) :: task_src"
  have pr: "program (mk_elf [1]) [mk_phdr [1]]" "payload (mk_elf [1]) [mk_phdr [1]] = [1]"
    "program (mk_elf [2, 3]) [mk_phdr [2, 3]]" "payload (mk_elf [2, 3]) [mk_phdr [2, 3]] = [2, 3]"
    "program (mk_elf [7, 8, 9]) [mk_phdr [7, 8, 9]]" "part_of ?t = [7, 8, 9]"
    using program_mk_elf [of "[1]"] program_mk_elf [of "[2, 3]"] program_mk_elf [of "[7, 8, 9]"] by (simp_all add: part_of_def)
  have ok: "\<forall>t\<in>set [?t]. task_ok t" using pr(5) by (simp add: task_ok_def)
  have lim: "1024 * (2 + nsec (payload (mk_elf [2, 3]) [mk_phdr [2, 3]]) + sum_list (map (\<lambda>t. nsec (part_of t)) [?t])) < 2 ^ 31"
    using pr(4,6) by (simp add: nsec_def)
  have "0 < length (payload (mk_elf [1]) [mk_phdr [1]])" "length (payload (mk_elf [1]) [mk_phdr [1]]) \<le> 512"
    "distinct (map fst [?t])" "length [?t] \<le> 16" using pr(2) by simp_all
  from image_boots [OF pr(1,3) this(1,2) ok this(3,4) lim, where ?'d = "u32 \<Rightarrow> u8 list" and ?'a = unit]
  obtain im where im: "create_image (boot_files (mk_elf [1]) (mk_elf [2, 3]) [?t]) = Some im"
    and all: "\<forall>B (s :: (u32 \<Rightarrow> u8 list) kernel). booted B im s \<longrightarrow>
      (\<exists>s'. init_task_info B s = Some s' \<and> tasks_num s' = int (length [?t]) \<and>
        (\<forall>k<length [?t]. \<exists>blk. find_task (fst ([?t] ! k) @ [0]) s' 0 (kernel_sectors_num s' + 1) = Some (int k, int blk) \<and>
           slice (512 * blk) (length (part_of ([?t] ! k))) im = part_of ([?t] ! k) \<and>
           filesz (tasks s' ! k) = int (length (part_of ([?t] ! k))) \<and> memsz (tasks s' ! k) = int (mem_size (snd (snd ([?t] ! k))))))"
    by blast
  have "booted ram_card im (boot_state im)" by (rule booted_boot_state [OF create_image_length [OF im]])
  with all obtain s' where s': "init_task_info ram_card (boot_state im) = Some s'" "tasks_num s' = int (length [?t])"
    "\<forall>k<length [?t]. \<exists>blk. find_task (fst ([?t] ! k) @ [0]) s' 0 (kernel_sectors_num s' + 1) = Some (int k, int blk) \<and>
       slice (512 * blk) (length (part_of ([?t] ! k))) im = part_of ([?t] ! k)" by blast
  then show ?thesis using im pr(6) by (intro exI [of _ im] exI [of _ s']) (auto simp: numeral_eq_Suc)
qed

end
