(* ===== verification/Syscalls.thy ===== *)
theory Syscalls
  imports Process
begin

text \<open>
  The system call interface: the numbers of \<open>src/tiny_libc/include/syscall.h\<close> (user programs) and
  \<open>src/arch/riscv/include/asm/unistd.h\<close> (kernel), the wrappers of \<open>src/tiny_libc/syscall.c\<close>, the table
  that \<^verbatim>\<open>init_syscall\<close> of \<open>src/init/main.c\<close> fills, and \<^verbatim>\<open>handle_syscall\<close> of
  \<open>src/kernel/syscall/syscall.c\<close>. Function pointers are values of an enumeration; calling one is the
  argument \<open>call\<close> of the handler.
\<close>

section \<open>Numbers\<close>

datatype sysname =
  SC_EXEC | SC_EXIT | SC_SLEEP | SC_KILL | SC_WAITPID | SC_PS | SC_GETPID | SC_YIELD | SC_WRITE | SC_READCH
   | SC_CURSOR | SC_REFLUSH | SC_CLEAR | SC_BACKSPACE | SC_GET_TIMEBASE | SC_GET_TICK | SC_THREAD_CREATE
   | SC_THREAD_JOIN | SC_LOCK_INIT | SC_LOCK_ACQ | SC_LOCK_RELEASE | SC_SHOW_TASK | SC_BARR_INIT | SC_BARR_WAIT
   | SC_BARR_DESTROY | SC_COND_INIT | SC_COND_WAIT | SC_COND_SIGNAL | SC_COND_BROADCAST | SC_COND_DESTROY
   | SC_MBOX_OPEN | SC_MBOX_CLOSE | SC_MBOX_SEND | SC_MBOX_RECV | SC_SHM_GET | SC_SHM_DT | SC_NET_SEND
   | SC_NET_RECV | SC_FS_MKFS | SC_FS_STATFS | SC_FS_CD | SC_FS_MKDIR | SC_FS_RMDIR | SC_FS_LS | SC_FS_TOUCH
   | SC_FS_CAT | SC_FS_FOPEN | SC_FS_FREAD | SC_FS_FWRITE | SC_FS_FCLOSE | SC_FS_LN | SC_FS_RM | SC_FS_LSEEK

fun libc_no :: "sysname \<Rightarrow> nat" where
  "libc_no SC_EXEC = 0"
| "libc_no SC_EXIT = 1"
| "libc_no SC_SLEEP = 2"
| "libc_no SC_KILL = 3"
| "libc_no SC_WAITPID = 4"
| "libc_no SC_PS = 5"
| "libc_no SC_GETPID = 6"
| "libc_no SC_YIELD = 7"
| "libc_no SC_WRITE = 20"
| "libc_no SC_READCH = 21"
| "libc_no SC_CURSOR = 22"
| "libc_no SC_REFLUSH = 23"
| "libc_no SC_CLEAR = 24"
| "libc_no SC_BACKSPACE = 25"
| "libc_no SC_GET_TIMEBASE = 30"
| "libc_no SC_GET_TICK = 31"
| "libc_no SC_THREAD_CREATE = 35"
| "libc_no SC_THREAD_JOIN = 36"
| "libc_no SC_LOCK_INIT = 40"
| "libc_no SC_LOCK_ACQ = 41"
| "libc_no SC_LOCK_RELEASE = 42"
| "libc_no SC_SHOW_TASK = 43"
| "libc_no SC_BARR_INIT = 44"
| "libc_no SC_BARR_WAIT = 45"
| "libc_no SC_BARR_DESTROY = 46"
| "libc_no SC_COND_INIT = 47"
| "libc_no SC_COND_WAIT = 48"
| "libc_no SC_COND_SIGNAL = 49"
| "libc_no SC_COND_BROADCAST = 50"
| "libc_no SC_COND_DESTROY = 51"
| "libc_no SC_MBOX_OPEN = 52"
| "libc_no SC_MBOX_CLOSE = 53"
| "libc_no SC_MBOX_SEND = 54"
| "libc_no SC_MBOX_RECV = 55"
| "libc_no SC_SHM_GET = 56"
| "libc_no SC_SHM_DT = 57"
| "libc_no SC_NET_SEND = 63"
| "libc_no SC_NET_RECV = 64"
| "libc_no SC_FS_MKFS = 65"
| "libc_no SC_FS_STATFS = 66"
| "libc_no SC_FS_CD = 67"
| "libc_no SC_FS_MKDIR = 68"
| "libc_no SC_FS_RMDIR = 69"
| "libc_no SC_FS_LS = 70"
| "libc_no SC_FS_TOUCH = 71"
| "libc_no SC_FS_CAT = 72"
| "libc_no SC_FS_FOPEN = 73"
| "libc_no SC_FS_FREAD = 74"
| "libc_no SC_FS_FWRITE = 75"
| "libc_no SC_FS_FCLOSE = 76"
| "libc_no SC_FS_LN = 77"
| "libc_no SC_FS_RM = 78"
| "libc_no SC_FS_LSEEK = 79"

fun kernel_no :: "sysname \<Rightarrow> nat" where
  "kernel_no SC_EXEC = 0"
| "kernel_no SC_EXIT = 1"
| "kernel_no SC_SLEEP = 2"
| "kernel_no SC_KILL = 3"
| "kernel_no SC_WAITPID = 4"
| "kernel_no SC_PS = 5"
| "kernel_no SC_GETPID = 6"
| "kernel_no SC_YIELD = 7"
| "kernel_no SC_WRITE = 20"
| "kernel_no SC_READCH = 21"
| "kernel_no SC_CURSOR = 22"
| "kernel_no SC_REFLUSH = 23"
| "kernel_no SC_CLEAR = 24"
| "kernel_no SC_BACKSPACE = 25"
| "kernel_no SC_GET_TIMEBASE = 30"
| "kernel_no SC_GET_TICK = 31"
| "kernel_no SC_THREAD_CREATE = 35"
| "kernel_no SC_THREAD_JOIN = 36"
| "kernel_no SC_LOCK_INIT = 40"
| "kernel_no SC_LOCK_ACQ = 41"
| "kernel_no SC_LOCK_RELEASE = 42"
| "kernel_no SC_SHOW_TASK = 43"
| "kernel_no SC_BARR_INIT = 44"
| "kernel_no SC_BARR_WAIT = 45"
| "kernel_no SC_BARR_DESTROY = 46"
| "kernel_no SC_COND_INIT = 47"
| "kernel_no SC_COND_WAIT = 48"
| "kernel_no SC_COND_SIGNAL = 49"
| "kernel_no SC_COND_BROADCAST = 50"
| "kernel_no SC_COND_DESTROY = 51"
| "kernel_no SC_MBOX_OPEN = 52"
| "kernel_no SC_MBOX_CLOSE = 53"
| "kernel_no SC_MBOX_SEND = 54"
| "kernel_no SC_MBOX_RECV = 55"
| "kernel_no SC_SHM_GET = 56"
| "kernel_no SC_SHM_DT = 57"
| "kernel_no SC_NET_SEND = 63"
| "kernel_no SC_NET_RECV = 64"
| "kernel_no SC_FS_MKFS = 65"
| "kernel_no SC_FS_STATFS = 66"
| "kernel_no SC_FS_CD = 67"
| "kernel_no SC_FS_MKDIR = 68"
| "kernel_no SC_FS_RMDIR = 69"
| "kernel_no SC_FS_LS = 70"
| "kernel_no SC_FS_TOUCH = 71"
| "kernel_no SC_FS_CAT = 72"
| "kernel_no SC_FS_FOPEN = 73"
| "kernel_no SC_FS_FREAD = 74"
| "kernel_no SC_FS_FWRITE = 75"
| "kernel_no SC_FS_FCLOSE = 76"
| "kernel_no SC_FS_LN = 77"
| "kernel_no SC_FS_RM = 78"
| "kernel_no SC_FS_LSEEK = 79"

section \<open>The user library\<close>

text \<open>
  A request: the number in \<^verbatim>\<open>a7\<close> and the arguments in \<^verbatim>\<open>a0\<close> to \<^verbatim>\<open>a4\<close> when \<^verbatim>\<open>ecall\<close> is executed.
  An \<^verbatim>\<open>int\<close> becomes a \<^verbatim>\<open>long\<close> by sign extension, an \<^verbatim>\<open>uint32_t\<close> by zero extension.
\<close>

type_synonym request = "u64 \<times> u64 list"

definition invoke_syscall :: "nat \<Rightarrow> u64 \<Rightarrow> u64 \<Rightarrow> u64 \<Rightarrow> u64 \<Rightarrow> u64 \<Rightarrow> request" where
  "invoke_syscall sysno arg0 arg1 arg2 arg3 arg4 = (of_nat sysno, [arg0, arg1, arg2, arg3, arg4])"

definition sys_yield :: "request" where
  "sys_yield = invoke_syscall (libc_no SC_YIELD) 0 0 0 0 0"

definition sys_move_cursor :: "u32 \<Rightarrow> u32 \<Rightarrow> request" where
  "sys_move_cursor x y = invoke_syscall (libc_no SC_CURSOR) (scast x) (scast y) 0 0 0"

definition sys_write :: "u64 \<Rightarrow> request" where
  "sys_write buff = invoke_syscall (libc_no SC_WRITE) buff 0 0 0 0"

definition sys_clear :: "request" where
  "sys_clear = invoke_syscall (libc_no SC_CLEAR) 0 0 0 0 0"

definition sys_backspace :: "u32 \<Rightarrow> request" where
  "sys_backspace prompt_len = invoke_syscall (libc_no SC_BACKSPACE) (scast prompt_len) 0 0 0 0"

definition sys_reflush :: "request" where
  "sys_reflush = invoke_syscall (libc_no SC_REFLUSH) 0 0 0 0 0"

definition sys_mutex_init :: "u32 \<Rightarrow> request" where
  "sys_mutex_init ky = invoke_syscall (libc_no SC_LOCK_INIT) (scast ky) 0 0 0 0"

definition sys_mutex_acquire :: "u32 \<Rightarrow> request" where
  "sys_mutex_acquire mutex_idx = invoke_syscall (libc_no SC_LOCK_ACQ) (scast mutex_idx) 0 0 0 0"

definition sys_mutex_release :: "u32 \<Rightarrow> request" where
  "sys_mutex_release mutex_idx = invoke_syscall (libc_no SC_LOCK_RELEASE) (scast mutex_idx) 0 0 0 0"

definition sys_get_timebase :: "request" where
  "sys_get_timebase = invoke_syscall (libc_no SC_GET_TIMEBASE) 0 0 0 0 0"

definition sys_get_tick :: "request" where
  "sys_get_tick = invoke_syscall (libc_no SC_GET_TICK) 0 0 0 0 0"

definition sys_sleep :: "u32 \<Rightarrow> request" where
  "sys_sleep tm = invoke_syscall (libc_no SC_SLEEP) (ucast tm) 0 0 0 0"

definition sys_thread_create :: "u64 \<Rightarrow> u64 \<Rightarrow> request" where
  "sys_thread_create start_routine arg = invoke_syscall (libc_no SC_THREAD_CREATE) start_routine arg 0 0 0"

definition sys_thread_join :: "u32 \<Rightarrow> request" where
  "sys_thread_join th = invoke_syscall (libc_no SC_THREAD_JOIN) (scast th) 0 0 0 0"

definition sys_exec :: "u64 \<Rightarrow> u32 \<Rightarrow> u64 \<Rightarrow> request" where
  "sys_exec nm argc argv = invoke_syscall (libc_no SC_EXEC) nm (scast argc) argv 0 0"

definition sys_exit :: "request" where
  "sys_exit = invoke_syscall (libc_no SC_EXIT) 0 0 0 0 0"

definition sys_kill :: "u32 \<Rightarrow> request" where
  "sys_kill pd = invoke_syscall (libc_no SC_KILL) (scast pd) 0 0 0 0"

definition sys_waitpid :: "u32 \<Rightarrow> request" where
  "sys_waitpid pd = invoke_syscall (libc_no SC_WAITPID) (scast pd) 0 0 0 0"

definition sys_ps :: "request" where
  "sys_ps = invoke_syscall (libc_no SC_PS) 0 0 0 0 0"

definition sys_getpid :: "request" where
  "sys_getpid = invoke_syscall (libc_no SC_GETPID) 0 0 0 0 0"

definition sys_getchar :: "request" where
  "sys_getchar = invoke_syscall (libc_no SC_READCH) 0 0 0 0 0"

definition sys_barrier_init :: "u32 \<Rightarrow> u32 \<Rightarrow> request" where
  "sys_barrier_init ky gl = invoke_syscall (libc_no SC_BARR_INIT) (scast ky) (scast gl) 0 0 0"

definition sys_barrier_wait :: "u32 \<Rightarrow> request" where
  "sys_barrier_wait bar_idx = invoke_syscall (libc_no SC_BARR_WAIT) (scast bar_idx) 0 0 0 0"

definition sys_barrier_destroy :: "u32 \<Rightarrow> request" where
  "sys_barrier_destroy bar_idx = invoke_syscall (libc_no SC_BARR_DESTROY) (scast bar_idx) 0 0 0 0"

definition sys_condition_init :: "u32 \<Rightarrow> request" where
  "sys_condition_init ky = invoke_syscall (libc_no SC_COND_INIT) (scast ky) 0 0 0 0"

definition sys_condition_wait :: "u32 \<Rightarrow> u32 \<Rightarrow> request" where
  "sys_condition_wait cond_idx mutex_idx = invoke_syscall (libc_no SC_COND_WAIT) (scast cond_idx) (scast mutex_idx) 0 0 0"

definition sys_condition_signal :: "u32 \<Rightarrow> request" where
  "sys_condition_signal cond_idx = invoke_syscall (libc_no SC_COND_SIGNAL) (scast cond_idx) 0 0 0 0"

definition sys_condition_broadcast :: "u32 \<Rightarrow> request" where
  "sys_condition_broadcast cond_idx = invoke_syscall (libc_no SC_COND_BROADCAST) (scast cond_idx) 0 0 0 0"

definition sys_condition_destroy :: "u32 \<Rightarrow> request" where
  "sys_condition_destroy cond_idx = invoke_syscall (libc_no SC_COND_DESTROY) (scast cond_idx) 0 0 0 0"

definition sys_mbox_open :: "u64 \<Rightarrow> request" where
  "sys_mbox_open nm = invoke_syscall (libc_no SC_MBOX_OPEN) nm 0 0 0 0"

definition sys_mbox_close :: "u32 \<Rightarrow> request" where
  "sys_mbox_close mbox_id = invoke_syscall (libc_no SC_MBOX_CLOSE) (scast mbox_id) 0 0 0 0"

definition sys_mbox_send :: "u32 \<Rightarrow> u64 \<Rightarrow> u32 \<Rightarrow> request" where
  "sys_mbox_send mbox_idx msg msg_length = invoke_syscall (libc_no SC_MBOX_SEND) (scast mbox_idx) msg (scast msg_length) 0 0"

definition sys_mbox_recv :: "u32 \<Rightarrow> u64 \<Rightarrow> u32 \<Rightarrow> request" where
  "sys_mbox_recv mbox_idx msg msg_length = invoke_syscall (libc_no SC_MBOX_RECV) (scast mbox_idx) msg (scast msg_length) 0 0"

definition sys_shmpageget :: "u32 \<Rightarrow> request" where
  "sys_shmpageget ky = invoke_syscall (libc_no SC_SHM_GET) (scast ky) 0 0 0 0"

definition sys_shmpagedt :: "u64 \<Rightarrow> request" where
  "sys_shmpagedt addr = invoke_syscall (libc_no SC_SHM_DT) addr 0 0 0 0"

definition sys_net_send :: "u64 \<Rightarrow> u32 \<Rightarrow> request" where
  "sys_net_send txpacket len = invoke_syscall (libc_no SC_NET_SEND) txpacket (scast len) 0 0 0"

definition sys_net_recv :: "u64 \<Rightarrow> u32 \<Rightarrow> u64 \<Rightarrow> request" where
  "sys_net_recv rxbuffer pkt_num pkt_lens = invoke_syscall (libc_no SC_NET_RECV) rxbuffer (scast pkt_num) pkt_lens 0 0"

definition sys_mkfs :: "request" where
  "sys_mkfs = invoke_syscall (libc_no SC_FS_MKFS) 0 0 0 0 0"

definition sys_statfs :: "request" where
  "sys_statfs = invoke_syscall (libc_no SC_FS_STATFS) 0 0 0 0 0"

definition sys_cd :: "u64 \<Rightarrow> request" where
  "sys_cd pth = invoke_syscall (libc_no SC_FS_CD) pth 0 0 0 0"

definition sys_mkdir :: "u64 \<Rightarrow> request" where
  "sys_mkdir pth = invoke_syscall (libc_no SC_FS_MKDIR) pth 0 0 0 0"

definition sys_rmdir :: "u64 \<Rightarrow> request" where
  "sys_rmdir pth = invoke_syscall (libc_no SC_FS_RMDIR) pth 0 0 0 0"

definition sys_ls :: "u64 \<Rightarrow> u32 \<Rightarrow> request" where
  "sys_ls pth opt = invoke_syscall (libc_no SC_FS_LS) pth (scast opt) 0 0 0"

definition sys_touch :: "u64 \<Rightarrow> request" where
  "sys_touch pth = invoke_syscall (libc_no SC_FS_TOUCH) pth 0 0 0 0"

definition sys_cat :: "u64 \<Rightarrow> request" where
  "sys_cat pth = invoke_syscall (libc_no SC_FS_CAT) pth 0 0 0 0"

definition sys_fopen :: "u64 \<Rightarrow> u32 \<Rightarrow> request" where
  "sys_fopen pth md = invoke_syscall (libc_no SC_FS_FOPEN) pth (scast md) 0 0 0"

definition sys_fread :: "u32 \<Rightarrow> u64 \<Rightarrow> u32 \<Rightarrow> request" where
  "sys_fread fd buff len = invoke_syscall (libc_no SC_FS_FREAD) (scast fd) buff (scast len) 0 0"

definition sys_fwrite :: "u32 \<Rightarrow> u64 \<Rightarrow> u32 \<Rightarrow> request" where
  "sys_fwrite fd buff len = invoke_syscall (libc_no SC_FS_FWRITE) (scast fd) buff (scast len) 0 0"

definition sys_fclose :: "u32 \<Rightarrow> request" where
  "sys_fclose fd = invoke_syscall (libc_no SC_FS_FCLOSE) (scast fd) 0 0 0 0"

definition sys_ln :: "u64 \<Rightarrow> u64 \<Rightarrow> request" where
  "sys_ln src_path dst_path = invoke_syscall (libc_no SC_FS_LN) src_path dst_path 0 0 0"

definition sys_rm :: "u64 \<Rightarrow> request" where
  "sys_rm pth = invoke_syscall (libc_no SC_FS_RM) pth 0 0 0 0"

definition sys_lseek :: "u32 \<Rightarrow> u32 \<Rightarrow> u32 \<Rightarrow> request" where
  "sys_lseek fd ofs whence = invoke_syscall (libc_no SC_FS_LSEEK) (scast fd) (scast ofs) (scast whence) 0 0"

section \<open>The kernel\<close>

text \<open>The functions that \<^verbatim>\<open>init_syscall\<close> enters.\<close>

datatype kfun =
  K_do_exit | K_do_exec | K_do_sleep | K_do_kill | K_do_waitpid | K_do_process_show | K_do_getpid | K_do_scheduler
   | K_screen_write | K_bios_getchar | K_screen_move_cursor | K_screen_reflush | K_screen_clear
   | K_screen_backspace | K_get_time_base | K_get_ticks | K_do_thread_create | K_do_thread_join
   | K_do_mutex_lock_init | K_do_mutex_lock_acquire | K_do_mutex_lock_release | K_do_barrier_init
   | K_do_barrier_wait | K_do_barrier_destroy | K_do_condition_init | K_do_condition_wait | K_do_condition_signal
   | K_do_condition_broadcast | K_do_condition_destroy | K_do_mbox_open | K_do_mbox_close | K_do_mbox_send
   | K_do_mbox_recv | K_shm_page_get | K_shm_page_dt | K_do_net_send | K_do_net_recv | K_do_mkfs | K_do_statfs
   | K_do_mkdir | K_do_ls | K_do_cd | K_do_rmdir | K_do_touch | K_do_fopen | K_do_fclose | K_do_fread | K_do_fwrite
   | K_do_cat | K_do_ln | K_do_rm | K_do_lseek

definition init_syscall :: "kfun option list" where
  "init_syscall = fold (\<lambda>(n, f) t. t[kernel_no n := Some f])
     [(SC_EXIT, K_do_exit),
      (SC_EXEC, K_do_exec),
      (SC_SLEEP, K_do_sleep),
      (SC_KILL, K_do_kill),
      (SC_WAITPID, K_do_waitpid),
      (SC_PS, K_do_process_show),
      (SC_GETPID, K_do_getpid),
      (SC_YIELD, K_do_scheduler),
      (SC_WRITE, K_screen_write),
      (SC_READCH, K_bios_getchar),
      (SC_CURSOR, K_screen_move_cursor),
      (SC_REFLUSH, K_screen_reflush),
      (SC_CLEAR, K_screen_clear),
      (SC_BACKSPACE, K_screen_backspace),
      (SC_GET_TIMEBASE, K_get_time_base),
      (SC_GET_TICK, K_get_ticks),
      (SC_THREAD_CREATE, K_do_thread_create),
      (SC_THREAD_JOIN, K_do_thread_join),
      (SC_LOCK_INIT, K_do_mutex_lock_init),
      (SC_LOCK_ACQ, K_do_mutex_lock_acquire),
      (SC_LOCK_RELEASE, K_do_mutex_lock_release),
      (SC_BARR_INIT, K_do_barrier_init),
      (SC_BARR_WAIT, K_do_barrier_wait),
      (SC_BARR_DESTROY, K_do_barrier_destroy),
      (SC_COND_INIT, K_do_condition_init),
      (SC_COND_WAIT, K_do_condition_wait),
      (SC_COND_SIGNAL, K_do_condition_signal),
      (SC_COND_BROADCAST, K_do_condition_broadcast),
      (SC_COND_DESTROY, K_do_condition_destroy),
      (SC_MBOX_OPEN, K_do_mbox_open),
      (SC_MBOX_CLOSE, K_do_mbox_close),
      (SC_MBOX_SEND, K_do_mbox_send),
      (SC_MBOX_RECV, K_do_mbox_recv),
      (SC_SHM_GET, K_shm_page_get),
      (SC_SHM_DT, K_shm_page_dt),
      (SC_NET_SEND, K_do_net_send),
      (SC_NET_RECV, K_do_net_recv),
      (SC_FS_MKFS, K_do_mkfs),
      (SC_FS_STATFS, K_do_statfs),
      (SC_FS_MKDIR, K_do_mkdir),
      (SC_FS_LS, K_do_ls),
      (SC_FS_CD, K_do_cd),
      (SC_FS_RMDIR, K_do_rmdir),
      (SC_FS_TOUCH, K_do_touch),
      (SC_FS_FOPEN, K_do_fopen),
      (SC_FS_FCLOSE, K_do_fclose),
      (SC_FS_FREAD, K_do_fread),
      (SC_FS_FWRITE, K_do_fwrite),
      (SC_FS_CAT, K_do_cat),
      (SC_FS_LN, K_do_ln),
      (SC_FS_RM, K_do_rm),
      (SC_FS_LSEEK, K_do_lseek)]
     (replicate 96 None)"

text \<open>
  The registers of the process are saved in the trap frame at \<open>regs\<close>. A number outside the table, and
  an entry that was never set, have no result.
\<close>

definition handle_syscall :: "kfun option list \<Rightarrow> (kfun \<Rightarrow> u64 list \<Rightarrow> ('d, 'a) kernel_scheme \<Rightarrow> (u64 \<times> ('d, 'a) kernel_scheme) option) \<Rightarrow>
    u64 \<Rightarrow> ('d, 'a) kernel_scheme \<Rightarrow> ('d, 'a) kernel_scheme option" where
  "handle_syscall syscall call regs s =
     (let syscall_number = sint (mem s (pt_reg regs 17));
          args = map (\<lambda>i. mem s (pt_reg regs i)) [10, 11, 12, 13, 14]
      in if 0 \<le> syscall_number \<and> nat syscall_number < length syscall
         then do {
           f \<leftarrow> syscall ! nat syscall_number;
           (r, s1) \<leftarrow> call f args s;
           let s2 = store (pt_reg regs 10) r s1;
           Some (store (pt_reg regs 33) (mem s2 (pt_reg regs 33) + 4) s2)
         }
         else None)"

section \<open>Every wrapper reaches its kernel function\<close>

text \<open>The calls a user program can make, and what it expects of each.\<close>

datatype ucall =
  U_yield | U_move_cursor u32 u32 | U_write u64 | U_clear | U_backspace u32 | U_reflush | U_mutex_init u32
   | U_mutex_acquire u32 | U_mutex_release u32 | U_get_timebase | U_get_tick | U_sleep u32
   | U_thread_create u64 u64 | U_thread_join u32 | U_exec u64 u32 u64 | U_exit | U_kill u32 | U_waitpid u32 | U_ps
   | U_getpid | U_getchar | U_barrier_init u32 u32 | U_barrier_wait u32 | U_barrier_destroy u32
   | U_condition_init u32 | U_condition_wait u32 u32 | U_condition_signal u32 | U_condition_broadcast u32
   | U_condition_destroy u32 | U_mbox_open u64 | U_mbox_close u32 | U_mbox_send u32 u64 u32
   | U_mbox_recv u32 u64 u32 | U_shmpageget u32 | U_shmpagedt u64 | U_net_send u64 u32 | U_net_recv u64 u32 u64
   | U_mkfs | U_statfs | U_cd u64 | U_mkdir u64 | U_rmdir u64 | U_ls u64 u32 | U_touch u64 | U_cat u64
   | U_fopen u64 u32 | U_fread u32 u64 u32 | U_fwrite u32 u64 u32 | U_fclose u32 | U_ln u64 u64 | U_rm u64
   | U_lseek u32 u32 u32

fun request_of :: "ucall \<Rightarrow> request" where
  "request_of U_yield = sys_yield"
| "request_of (U_move_cursor x y) = sys_move_cursor x y"
| "request_of (U_write buff) = sys_write buff"
| "request_of U_clear = sys_clear"
| "request_of (U_backspace prompt_len) = sys_backspace prompt_len"
| "request_of U_reflush = sys_reflush"
| "request_of (U_mutex_init ky) = sys_mutex_init ky"
| "request_of (U_mutex_acquire mutex_idx) = sys_mutex_acquire mutex_idx"
| "request_of (U_mutex_release mutex_idx) = sys_mutex_release mutex_idx"
| "request_of U_get_timebase = sys_get_timebase"
| "request_of U_get_tick = sys_get_tick"
| "request_of (U_sleep tm) = sys_sleep tm"
| "request_of (U_thread_create start_routine arg) = sys_thread_create start_routine arg"
| "request_of (U_thread_join th) = sys_thread_join th"
| "request_of (U_exec nm argc argv) = sys_exec nm argc argv"
| "request_of U_exit = sys_exit"
| "request_of (U_kill pd) = sys_kill pd"
| "request_of (U_waitpid pd) = sys_waitpid pd"
| "request_of U_ps = sys_ps"
| "request_of U_getpid = sys_getpid"
| "request_of U_getchar = sys_getchar"
| "request_of (U_barrier_init ky gl) = sys_barrier_init ky gl"
| "request_of (U_barrier_wait bar_idx) = sys_barrier_wait bar_idx"
| "request_of (U_barrier_destroy bar_idx) = sys_barrier_destroy bar_idx"
| "request_of (U_condition_init ky) = sys_condition_init ky"
| "request_of (U_condition_wait cond_idx mutex_idx) = sys_condition_wait cond_idx mutex_idx"
| "request_of (U_condition_signal cond_idx) = sys_condition_signal cond_idx"
| "request_of (U_condition_broadcast cond_idx) = sys_condition_broadcast cond_idx"
| "request_of (U_condition_destroy cond_idx) = sys_condition_destroy cond_idx"
| "request_of (U_mbox_open nm) = sys_mbox_open nm"
| "request_of (U_mbox_close mbox_id) = sys_mbox_close mbox_id"
| "request_of (U_mbox_send mbox_idx msg msg_length) = sys_mbox_send mbox_idx msg msg_length"
| "request_of (U_mbox_recv mbox_idx msg msg_length) = sys_mbox_recv mbox_idx msg msg_length"
| "request_of (U_shmpageget ky) = sys_shmpageget ky"
| "request_of (U_shmpagedt addr) = sys_shmpagedt addr"
| "request_of (U_net_send txpacket len) = sys_net_send txpacket len"
| "request_of (U_net_recv rxbuffer pkt_num pkt_lens) = sys_net_recv rxbuffer pkt_num pkt_lens"
| "request_of U_mkfs = sys_mkfs"
| "request_of U_statfs = sys_statfs"
| "request_of (U_cd pth) = sys_cd pth"
| "request_of (U_mkdir pth) = sys_mkdir pth"
| "request_of (U_rmdir pth) = sys_rmdir pth"
| "request_of (U_ls pth opt) = sys_ls pth opt"
| "request_of (U_touch pth) = sys_touch pth"
| "request_of (U_cat pth) = sys_cat pth"
| "request_of (U_fopen pth md) = sys_fopen pth md"
| "request_of (U_fread fd buff len) = sys_fread fd buff len"
| "request_of (U_fwrite fd buff len) = sys_fwrite fd buff len"
| "request_of (U_fclose fd) = sys_fclose fd"
| "request_of (U_ln src_path dst_path) = sys_ln src_path dst_path"
| "request_of (U_rm pth) = sys_rm pth"
| "request_of (U_lseek fd ofs whence) = sys_lseek fd ofs whence"

fun expected :: "ucall \<Rightarrow> kfun \<times> u64 list" where
  "expected U_yield = (K_do_scheduler, [0, 0, 0, 0, 0])"
| "expected (U_move_cursor x y) = (K_screen_move_cursor, [scast x, scast y, 0, 0, 0])"
| "expected (U_write buff) = (K_screen_write, [buff, 0, 0, 0, 0])"
| "expected U_clear = (K_screen_clear, [0, 0, 0, 0, 0])"
| "expected (U_backspace prompt_len) = (K_screen_backspace, [scast prompt_len, 0, 0, 0, 0])"
| "expected U_reflush = (K_screen_reflush, [0, 0, 0, 0, 0])"
| "expected (U_mutex_init ky) = (K_do_mutex_lock_init, [scast ky, 0, 0, 0, 0])"
| "expected (U_mutex_acquire mutex_idx) = (K_do_mutex_lock_acquire, [scast mutex_idx, 0, 0, 0, 0])"
| "expected (U_mutex_release mutex_idx) = (K_do_mutex_lock_release, [scast mutex_idx, 0, 0, 0, 0])"
| "expected U_get_timebase = (K_get_time_base, [0, 0, 0, 0, 0])"
| "expected U_get_tick = (K_get_ticks, [0, 0, 0, 0, 0])"
| "expected (U_sleep tm) = (K_do_sleep, [ucast tm, 0, 0, 0, 0])"
| "expected (U_thread_create start_routine arg) = (K_do_thread_create, [start_routine, arg, 0, 0, 0])"
| "expected (U_thread_join th) = (K_do_thread_join, [scast th, 0, 0, 0, 0])"
| "expected (U_exec nm argc argv) = (K_do_exec, [nm, scast argc, argv, 0, 0])"
| "expected U_exit = (K_do_exit, [0, 0, 0, 0, 0])"
| "expected (U_kill pd) = (K_do_kill, [scast pd, 0, 0, 0, 0])"
| "expected (U_waitpid pd) = (K_do_waitpid, [scast pd, 0, 0, 0, 0])"
| "expected U_ps = (K_do_process_show, [0, 0, 0, 0, 0])"
| "expected U_getpid = (K_do_getpid, [0, 0, 0, 0, 0])"
| "expected U_getchar = (K_bios_getchar, [0, 0, 0, 0, 0])"
| "expected (U_barrier_init ky gl) = (K_do_barrier_init, [scast ky, scast gl, 0, 0, 0])"
| "expected (U_barrier_wait bar_idx) = (K_do_barrier_wait, [scast bar_idx, 0, 0, 0, 0])"
| "expected (U_barrier_destroy bar_idx) = (K_do_barrier_destroy, [scast bar_idx, 0, 0, 0, 0])"
| "expected (U_condition_init ky) = (K_do_condition_init, [scast ky, 0, 0, 0, 0])"
| "expected (U_condition_wait cond_idx mutex_idx) = (K_do_condition_wait, [scast cond_idx, scast mutex_idx, 0, 0, 0])"
| "expected (U_condition_signal cond_idx) = (K_do_condition_signal, [scast cond_idx, 0, 0, 0, 0])"
| "expected (U_condition_broadcast cond_idx) = (K_do_condition_broadcast, [scast cond_idx, 0, 0, 0, 0])"
| "expected (U_condition_destroy cond_idx) = (K_do_condition_destroy, [scast cond_idx, 0, 0, 0, 0])"
| "expected (U_mbox_open nm) = (K_do_mbox_open, [nm, 0, 0, 0, 0])"
| "expected (U_mbox_close mbox_id) = (K_do_mbox_close, [scast mbox_id, 0, 0, 0, 0])"
| "expected (U_mbox_send mbox_idx msg msg_length) = (K_do_mbox_send, [scast mbox_idx, msg, scast msg_length, 0, 0])"
| "expected (U_mbox_recv mbox_idx msg msg_length) = (K_do_mbox_recv, [scast mbox_idx, msg, scast msg_length, 0, 0])"
| "expected (U_shmpageget ky) = (K_shm_page_get, [scast ky, 0, 0, 0, 0])"
| "expected (U_shmpagedt addr) = (K_shm_page_dt, [addr, 0, 0, 0, 0])"
| "expected (U_net_send txpacket len) = (K_do_net_send, [txpacket, scast len, 0, 0, 0])"
| "expected (U_net_recv rxbuffer pkt_num pkt_lens) = (K_do_net_recv, [rxbuffer, scast pkt_num, pkt_lens, 0, 0])"
| "expected U_mkfs = (K_do_mkfs, [0, 0, 0, 0, 0])"
| "expected U_statfs = (K_do_statfs, [0, 0, 0, 0, 0])"
| "expected (U_cd pth) = (K_do_cd, [pth, 0, 0, 0, 0])"
| "expected (U_mkdir pth) = (K_do_mkdir, [pth, 0, 0, 0, 0])"
| "expected (U_rmdir pth) = (K_do_rmdir, [pth, 0, 0, 0, 0])"
| "expected (U_ls pth opt) = (K_do_ls, [pth, scast opt, 0, 0, 0])"
| "expected (U_touch pth) = (K_do_touch, [pth, 0, 0, 0, 0])"
| "expected (U_cat pth) = (K_do_cat, [pth, 0, 0, 0, 0])"
| "expected (U_fopen pth md) = (K_do_fopen, [pth, scast md, 0, 0, 0])"
| "expected (U_fread fd buff len) = (K_do_fread, [scast fd, buff, scast len, 0, 0])"
| "expected (U_fwrite fd buff len) = (K_do_fwrite, [scast fd, buff, scast len, 0, 0])"
| "expected (U_fclose fd) = (K_do_fclose, [scast fd, 0, 0, 0, 0])"
| "expected (U_ln src_path dst_path) = (K_do_ln, [src_path, dst_path, 0, 0, 0])"
| "expected (U_rm pth) = (K_do_rm, [pth, 0, 0, 0, 0])"
| "expected (U_lseek fd ofs whence) = (K_do_lseek, [scast fd, scast ofs, scast whence, 0, 0])"

lemmas wrapper_defs = invoke_syscall_def sys_yield_def sys_move_cursor_def sys_write_def sys_clear_def sys_backspace_def sys_reflush_def sys_mutex_init_def sys_mutex_acquire_def sys_mutex_release_def sys_get_timebase_def sys_get_tick_def sys_sleep_def sys_thread_create_def sys_thread_join_def sys_exec_def sys_exit_def sys_kill_def sys_waitpid_def sys_ps_def sys_getpid_def sys_getchar_def sys_barrier_init_def sys_barrier_wait_def sys_barrier_destroy_def sys_condition_init_def sys_condition_wait_def sys_condition_signal_def sys_condition_broadcast_def sys_condition_destroy_def sys_mbox_open_def sys_mbox_close_def sys_mbox_send_def sys_mbox_recv_def sys_shmpageget_def sys_shmpagedt_def sys_net_send_def sys_net_recv_def sys_mkfs_def sys_statfs_def sys_cd_def sys_mkdir_def sys_rmdir_def sys_ls_def sys_touch_def sys_cat_def sys_fopen_def sys_fread_def sys_fwrite_def sys_fclose_def sys_ln_def sys_rm_def sys_lseek_def

lemma length_init_syscall: "length init_syscall = 96"
  by (simp add: init_syscall_def)

text \<open>The number of a request is an index of the table, and the entry there is the function expected.\<close>

lemma request_found:
  "\<exists>n. fst (request_of c) = of_nat n \<and> n < 96 \<and> init_syscall ! n = Some (fst (expected c)) \<and>
     snd (request_of c) = snd (expected c)"
proof (rule exI [of _ "unat (fst (request_of c))"], intro conjI)
  show "fst (request_of c) = of_nat (unat (fst (request_of c)))" by simp
  show "unat (fst (request_of c)) < 96" by (cases c) (simp_all add: wrapper_defs)
  show "snd (request_of c) = snd (expected c)" by (cases c) (simp_all add: wrapper_defs)
  show "init_syscall ! unat (fst (request_of c)) = Some (fst (expected c))"
    by (cases c) (simp_all add: wrapper_defs, code_simp+)
qed

text \<open>
  C15: Every system call wrapper of the user library reaches the kernel function it is meant for. Whenever the
  trap frame holds the registers that a wrapper sets up, the handler calls exactly that function with
  the wrapper's arguments, widened by their signedness; when the function returns, its result is in
  \<^verbatim>\<open>a0\<close> and the process continues behind its \<^verbatim>\<open>ecall\<close>.
\<close>

theorem syscall_reaches_kernel:
  fixes s s1 :: "('d, 'a) kernel_scheme"
  assumes "request_of c = (no, args)" "expected c = (f, fargs)"
    and "mem s (pt_reg regs 17) = no" "map (\<lambda>i. mem s (pt_reg regs i)) [10, 11, 12, 13, 14] = args"
    and "call f fargs s = Some (r, s1)"
  shows "\<exists>s'. handle_syscall init_syscall call regs s = Some s' \<and> mem s' (pt_reg regs 10) = r \<and>
    mem s' (pt_reg regs 33) = mem s1 (pt_reg regs 33) + 4 \<and>
    (\<forall>a. a \<noteq> pt_reg regs 10 \<and> a \<noteq> pt_reg regs 33 \<longrightarrow> mem s' a = mem s1 a)"
proof -
  obtain n where n: "no = of_nat n" "n < 96" "init_syscall ! n = Some f" "args = fargs"
    using request_found [of c] assms(1,2) by auto
  have sg: "sint (of_nat n :: u64) = int n"
    using n(2) by (simp add: signed_of_nat signed_take_bit_int_eq_self_iff)
  have d: "pt_reg regs 10 \<noteq> pt_reg regs 33" by (simp add: pt_reg_def)
  have "handle_syscall init_syscall call regs s =
      Some (let s2 = store (pt_reg regs 10) r s1 in store (pt_reg regs 33) (mem s2 (pt_reg regs 33) + 4) s2)"
    using assms(3-5) n sg by (simp add: handle_syscall_def length_init_syscall Let_def)
  then show ?thesis using d by (auto simp: Let_def store_def)
qed

text \<open>A process asks for the end of process 9, which does not exist: the call returns 0.\<close>

definition kill_call :: "kfun \<Rightarrow> u64 list \<Rightarrow> ('d, 'a) kernel_scheme \<Rightarrow> (u64 \<times> ('d, 'a) kernel_scheme) option" where
  "kill_call f args s =
     (case f of K_do_kill \<Rightarrow> map_option (\<lambda>(r, s1). (of_int r, s1)) (do_kill (sint (ucast (args ! 0) :: u32)) s) | _ \<Rightarrow> None)"

definition trap_state :: "unit kernel" where
  "trap_state = (kernel_boot 2 ())\<lparr>mem := (\<lambda>_. 0)(pt_reg 0x1000 17 := 3, pt_reg 0x1000 10 := 9, pt_reg 0x1000 33 := 0x10040)\<rparr>"

lemma kill_unknown: "kill_call K_do_kill [9, 0, 0, 0, 0] trap_state = Some (0, trap_state)"
proof -
  have "find_pid 9 trap_state = None"
    by (simp add: find_pid_def all_pcbs_def NUM_MAX_TASK_def trap_state_def kernel_boot_def upt_conv_Cons)
  then show ?thesis by (simp add: kill_call_def do_kill_def)
qed

theorem syscall_reaches_kernel_witness:
  "\<exists>s'. handle_syscall init_syscall kill_call 0x1000 trap_state = Some s' \<and> mem s' (pt_reg 0x1000 10) = 0 \<and>
    mem s' (pt_reg 0x1000 33) = mem trap_state (pt_reg 0x1000 33) + 4 \<and>
    (\<forall>a. a \<noteq> pt_reg 0x1000 10 \<and> a \<noteq> pt_reg 0x1000 33 \<longrightarrow> mem s' a = mem trap_state a)"
proof (rule syscall_reaches_kernel [where c = "U_kill 9"])
  show "request_of (U_kill 9) = (3, [9, 0, 0, 0, 0])" by (simp add: wrapper_defs)
  show "expected (U_kill 9) = (K_do_kill, [9, 0, 0, 0, 0])" by simp
  show "mem trap_state (pt_reg 0x1000 17) = 3" by (simp add: trap_state_def pt_reg_def)
  show "map (\<lambda>i. mem trap_state (pt_reg 0x1000 i)) [10, 11, 12, 13, 14] = [9, 0, 0, 0, 0]"
    by (simp add: trap_state_def pt_reg_def)
  show "kill_call K_do_kill [9, 0, 0, 0, 0] trap_state = Some (0, trap_state)" by (rule kill_unknown)
qed

end
