(* ===== verification/Irq.thy ===== *)
theory Irq
  imports Syscalls
begin

text \<open>
  Exceptions and interrupts: \<open>src/kernel/irq/irq.c\<close>. The handler tables hold values of an enumeration,
  \<^verbatim>\<open>interrupt_helper\<close> is the code between the assembly that saves the registers of the interrupted
  process and the assembly that restores those of the process to continue. The kernel lock that it
  takes and that \<^verbatim>\<open>ret_from_kernel\<close> gives back is the subject of \<open>Smp\<close>.
\<close>

section \<open>Tables\<close>

datatype handler_t = Handle_other | Handle_syscall | Handle_page_fault | Handle_irq_timer

definition IRQC_S_TIMER :: nat where "IRQC_S_TIMER = 5"
definition IRQC_COUNT :: nat where "IRQC_COUNT = 12"
definition EXCC_SYSCALL :: nat where "EXCC_SYSCALL = 8"
definition EXCC_INST_PAGE_FAULT :: nat where "EXCC_INST_PAGE_FAULT = 12"
definition EXCC_LOAD_PAGE_FAULT :: nat where "EXCC_LOAD_PAGE_FAULT = 13"
definition EXCC_STORE_PAGE_FAULT :: nat where "EXCC_STORE_PAGE_FAULT = 15"
definition EXCC_COUNT :: nat where "EXCC_COUNT = 16"

record handlers =
  exc_table :: "handler_t list"
  irq_table :: "handler_t list"

definition init_exception :: "('d, 'a) kernel_scheme \<Rightarrow> handlers \<times> ('d, 'a) kernel_scheme" where
  "init_exception s =
     (let exc = (replicate EXCC_COUNT Handle_other)
            [EXCC_SYSCALL := Handle_syscall, EXCC_INST_PAGE_FAULT := Handle_page_fault,
             EXCC_LOAD_PAGE_FAULT := Handle_page_fault, EXCC_STORE_PAGE_FAULT := Handle_page_fault];
          irq = (replicate IRQC_COUNT Handle_other)[IRQC_S_TIMER := Handle_irq_timer];
          (t, s1) = get_ticks s
      in (\<lparr>exc_table = exc, irq_table = irq\<rparr>, s1\<lparr>timer_irq := t + 150000\<rparr>))"

section \<open>Handlers\<close>

text \<open>
  A page fault. An address without a mapping gets a fresh page; a page with a mapping is taken to be
  swapped out, and if it is not found among the swapped pages, \<^verbatim>\<open>swap_in\<close> gets a null pointer
  (\<open>None\<close>).
\<close>

definition handle_page_fault :: "'d sdcard \<Rightarrow> u64 \<Rightarrow> u64 \<Rightarrow> ('d, 'a) kernel_scheme \<Rightarrow> ('d, 'a) kernel_scheme option" where
  "handle_page_fault B stval scause s =
     (let pgd = pgdir (pcb s (current_running s));
          fault_addr_uva = stval AND NOT (mask 12);
          fault_addr_kva = get_kva_of_uva fault_addr_uva pgd s
      in do {
        s1 \<leftarrow> (if fault_addr_kva = 0
               then do { (_, t) \<leftarrow> alloc_page_helper B fault_addr_uva pgd s; Some t }
               else do {
                 page \<leftarrow> find_page_with_uva fault_addr_uva pgd Swapped_pages_queue s;
                 t \<leftarrow> (if present_pages_num s \<ge> MAX_PRESENT_PFN then swap_out B s else Some s);
                 (case page of None \<Rightarrow> None | Some i \<Rightarrow> Some (swap_in B i t))
               });
        let pte = get_pte_of_uva fault_addr_uva pgd s1;
        (if pte = 0 then None else do {
           let s2 = store pte (set_attribute (mem s1 pte) PAGE_ACCESSED) s1;
           Some (if scause = of_nat EXCC_STORE_PAGE_FAULT
                 then store pte (set_attribute (mem s2 pte) PAGE_DIRTY) s2 else s2)
         })
      })"

text \<open>\<^verbatim>\<open>handle_other\<close> prints the registers and ends in \<^verbatim>\<open>assert(0)\<close>.\<close>

definition handle_other :: "('d, 'a) kernel_scheme \<Rightarrow> ('d, 'a) kernel_scheme option" where
  "handle_other s = None"

section \<open>Entry and return\<close>

text \<open>\<^verbatim>\<open>ret_from_kernel\<close> loads the page table of the process that continues.\<close>

definition ret_from_kernel :: "('d, 'a) kernel_scheme \<Rightarrow> ('d, 'a) kernel_scheme" where
  "ret_from_kernel s = switch_pgdir s"

definition SCAUSE_MASK :: u64 where "SCAUSE_MASK = 0x7fffffffffffffff"

definition interrupt_helper :: "'d sdcard \<Rightarrow> handlers \<Rightarrow> kfun option list \<Rightarrow>
    (kfun \<Rightarrow> u64 list \<Rightarrow> ('d, 'a) kernel_scheme \<Rightarrow> (u64 \<times> ('d, 'a) kernel_scheme) option) \<Rightarrow> nat \<Rightarrow>
    u64 \<Rightarrow> u64 \<Rightarrow> u64 \<Rightarrow> ('d, 'a) kernel_scheme \<Rightarrow> ('d, 'a) kernel_scheme option" where
  "interrupt_helper B T syscall call cpuid regs stval scause s =
     (let s1 = s\<lparr>cpu := cpuid, current_running := runnings s ! cpuid\<rparr>;
          (table, cause) = (if bit scause 63 then (irq_table T, scause AND SCAUSE_MASK) else (exc_table T, scause))
      in if unat cause < length table
         then do {
           s2 \<leftarrow> (case table ! unat cause of
                    Handle_other \<Rightarrow> handle_other s1
                  | Handle_syscall \<Rightarrow> handle_syscall syscall call regs s1
                  | Handle_page_fault \<Rightarrow> handle_page_fault B stval cause s1
                  | Handle_irq_timer \<Rightarrow> handle_irq_timer B s1);
           Some (ret_from_kernel s2)
         }
         else None)"

end
