(* ===== verification/Irq_Laws.thy ===== *)
theory Irq_Laws
  imports Irq FS_Laws
begin

text \<open>
  What the exception path does: a page fault ends with the faulting address mapped to a fresh zero page
  whose entry has the bits that the access needs.
\<close>

section \<open>Changing a last-level entry\<close>

lemma vpn_page_start:
  "vpn2_of (a AND NOT (mask 12)) = vpn2_of a" "vpn1_of (a AND NOT (mask 12)) = vpn1_of a"
  "vpn0_of (a AND NOT (mask 12)) = vpn0_of a"
proof -
  have b: "drop_bit n ((a AND NOT (mask 12)) AND VA_MASK) = drop_bit n (a AND VA_MASK)" if "12 \<le> n" for n
    using that by (intro bit_word_eqI) (auto simp: bit_simps VA_MASK_def)
  show "vpn2_of (a AND NOT (mask 12)) = vpn2_of a" "vpn1_of (a AND NOT (mask 12)) = vpn1_of a"
    "vpn0_of (a AND NOT (mask 12)) = vpn0_of a"
    using b [of 30] b [of 21] b [of 12] by (simp_all only: vpn2_of_def vpn1_of_def vpn0_of_def order_refl numeral_le_iff semiring_norm)
qed

lemma leaf_of_page_start: "leaf_of m r (a AND NOT (mask 12)) = leaf_of m r a"
  by (simp add: leaf_of_def vpn_page_start)

text \<open>\<^verbatim>\<open>get_pte_of_uva\<close> finds the entry of a mapped page; writing it changes one leaf and one table.\<close>

lemma store_leaf:
  assumes rep: "pages_rep s A n" and wf: "pt_wf (mem s) A r" and u: "vpn2_of u < 256" and nz: "leaf_of (mem s) r u \<noteq> 0"
  defines "a \<equiv> get_pte_of_uva u r s"
  shows "a \<noteq> 0" "mem s a = leaf_of (mem s) r u" "pages_rep (store a v s) A n" "pt_wf (mem (store a v s)) A r"
    "tables (mem (store a v s)) r = tables (mem s) r"
    "p \<in> A - tables (mem s) r \<Longrightarrow> page_no b = page_no p \<Longrightarrow> mem (store a v s) b = mem s b"
    "i < 256 \<Longrightarrow> j < 512 \<Longrightarrow> k < 512 \<Longrightarrow> leaf (mem (store a v s)) r i j k =
       (if (i, j, k) = (vpn2_of u, vpn1_of u, vpn0_of u) then v else leaf (mem s) r i j k)"
proof -
  have ok: "user_path [vpn1_of u, vpn2_of u]" using u vpn_bounds by simp
  obtain t where t: "tab (mem s) r [vpn1_of u, vpn2_of u] = Some t" "mem s (entry t (vpn0_of u)) = leaf_of (mem s) r u"
    using nz by (auto simp: leaf_of_def leaf_def split: option.splits)
  have al: "\<And>x. x \<in> A \<Longrightarrow> page_aligned x" using pages_repD [OF rep] by simp
  have tA: "t \<in> A" and tt: "t \<in> tables (mem s) r" using wf t ok by (auto simp only: pt_wf_def tables_def mem_Collect_eq)
  have pn: "page_no (entry t (vpn0_of u)) = page_no t" by (rule page_no_entry [OF al [OF tA] vpn_bounds(2)])
  have a: "a = entry t (vpn0_of u)"
    using t nz by (auto simp: a_def get_pte_of_uva_def Let_def tab.simps split: if_splits)
  have "page_no t \<noteq> page_no 0" using pages_repD [OF rep tA] page_no_inj [of t 0] by (auto simp: page_aligned_def)
  then show "a \<noteq> 0" using pn a by metis
  show "mem s a = leaf_of (mem s) r u" using t(2) a by simp
  show "pages_rep (store a v s) A n" using rep tA pn unfolding a by (rule pages_rep_store)
  have m: "mem (store a v s) = (mem s)(entry t (vpn0_of u) := v)" by (simp add: store_def a)
  have T: "tab (mem (store a v s)) r qs = tab (mem s) r qs" if "user_path qs" for qs
    unfolding m by (rule tab_store_leaf [OF wf al t(1) vpn_bounds(1) u vpn_bounds(2) that])
  show "pt_wf (mem (store a v s)) A r" using wf T by (simp add: pt_wf_def)
  show "tables (mem (store a v s)) r = tables (mem s) r" using T by (auto simp: tables_def)
  show "mem (store a v s) b = mem s b" if "p \<in> A - tables (mem s) r" "page_no b = page_no p"
  proof -
    have "b \<noteq> entry t (vpn0_of u)" using that tt tA pn page_no_inj al by (metis DiffD1 DiffD2)
    then show ?thesis by (simp add: m)
  qed
  show "leaf (mem (store a v s)) r i j k =
      (if (i, j, k) = (vpn2_of u, vpn1_of u, vpn0_of u) then v else leaf (mem s) r i j k)" if "i < 256" "j < 512" "k < 512"
    unfolding m by (rule leaf_store_leaf [OF wf al t(1) vpn_bounds(1) u vpn_bounds(2) that(2,1,3)])
qed

section \<open>A page fault on an unmapped page\<close>

text \<open>The entry that a page fault of the given cause leaves for the frame at \<open>kva\<close>.\<close>

definition fault_entry :: "u64 \<Rightarrow> u64 \<Rightarrow> u64" where
  "fault_entry kva scause = user_entry kva OR PAGE_ACCESSED OR (if scause = 15 then PAGE_DIRTY else 0)"

lemma fault_entry_pa:
  assumes "page_aligned kva" "FREEMEM_KERNEL \<le> kva"
  shows "fault_entry kva c \<noteq> 0" "pa2kva (get_pa (fault_entry kva c) OR (u AND mask 12)) = kva + (u AND mask 12)"
proof -
  have e: "fault_entry kva c = set_attribute (set_pfn (drop_bit 12 (kva2pa kva))) (user_attr OR PAGE_ACCESSED OR (if c = 15 then PAGE_DIRTY else 0))"
    by (simp add: fault_entry_def user_entry_def set_attribute_def or.assoc)
  have at: "(user_attr OR PAGE_ACCESSED OR (if c = 15 then PAGE_DIRTY else 0)) AND NOT (mask 10) = 0"
    "bit (user_attr OR PAGE_ACCESSED OR (if c = 15 then PAGE_DIRTY else 0)) 0"
    by (simp_all add: PAGE_PRESENT_def PAGE_READ_def PAGE_WRITE_def PAGE_EXEC_def PAGE_USER_def PAGE_ACCESSED_def
        PAGE_DIRTY_def mask_eq_exp_minus_1)
  have "fault_entry kva c \<noteq> 0" "get_pa (fault_entry kva c) = kva2pa kva"
    unfolding e using table_entry [OF assms at] by simp_all
  then show "fault_entry kva c \<noteq> 0" "pa2kva (get_pa (fault_entry kva c) OR (u AND mask 12)) = kva + (u AND mask 12)"
    using aligned_or_offset [OF kernel_pa(1) [OF assms]] by (simp_all add: pa2kva_def kva2pa_def)
qed

lemma handle_page_fault_spec:
  fixes s :: "('d, 'a) kernel_scheme"
  assumes inv: "page_inv H Q P W s" and slots: "length P + length W < MAX_PFN" "length P < 512"
    and rep: "pages_rep s A (Suc (Suc (Suc n)))" and r: "r = pgdir (pcb s (current_running s))"
    and wf: "pt_wf (mem s) A r" and u: "vpn2_of stval < 256" and un: "leaf_of (mem s) r stval = 0"
  shows "\<exists>kva s' A'. handle_page_fault B stval c s = Some s' \<and>
    kva \<notin> A \<and> page_aligned kva \<and> FREEMEM_KERNEL \<le> kva \<and> insert kva A \<subseteq> A' \<and> pages_rep s' A' n \<and> pt_wf (mem s') A' r \<and>
    (\<forall>a. page_no a = page_no kva \<longrightarrow> mem s' a = 0) \<and>
    (\<forall>p\<in>A - tables (mem s) r. \<forall>a. page_no a = page_no p \<longrightarrow> mem s' a = mem s a) \<and>
    (\<forall>i j k. i < 256 \<longrightarrow> j < 512 \<longrightarrow> k < 512 \<longrightarrow> leaf (mem s') r i j k =
       (if (i, j, k) = (vpn2_of stval, vpn1_of stval, vpn0_of stval) then fault_entry kva c else leaf (mem s) r i j k)) \<and>
    mm_state.more s' = mm_state.more s"
proof -
  let ?u = "stval AND NOT (mask 12)"
  note uu = u [folded vpn_page_start(1) [of stval]]
  have k0: "get_kva_of_uva ?u r s = 0" using get_kva_leaf [OF rep wf uu] un by (simp add: leaf_of_page_start)
  obtain kva s1 A' where al: "alloc_page_helper B ?u r s = Some (kva, s1)"
    and A': "kva \<notin> A" "page_aligned kva" "FREEMEM_KERNEL \<le> kva" "insert kva A \<subseteq> A'" "pages_rep s1 A' n" "pt_wf (mem s1) A' r"
    "tables (mem s1) r \<inter> insert kva A \<subseteq> tables (mem s) r" "\<forall>a. page_no a = page_no kva \<longrightarrow> mem s1 a = 0"
    "\<forall>p\<in>A - tables (mem s) r. \<forall>a. page_no a = page_no p \<longrightarrow> mem s1 a = mem s a"
    and lf: "\<forall>i j k. i < 256 \<longrightarrow> j < 512 \<longrightarrow> k < 512 \<longrightarrow> leaf (mem s1) r i j k =
       (if (i, j, k) = (vpn2_of stval, vpn1_of stval, vpn0_of stval) then user_entry kva else leaf (mem s) r i j k)"
    and more: "mm_state.more s1 = mm_state.more s"
    using alloc_page_helper_spec [OF inv slots rep wf uu, of B] unfolding vpn_page_start by blast
  have e: "leaf_of (mem s1) r ?u = user_entry kva" using lf u vpn_bounds [of stval] by (simp add: leaf_of_def vpn_page_start)
  then have nz: "leaf_of (mem s1) r ?u \<noteq> 0" using user_entry_pa(1) [OF A'(2,3)] by simp
  define a where "a = get_pte_of_uva ?u r s1"
  define s' where "s' = store a (fault_entry kva c) s1"
  note pte = store_leaf(1,2) [OF A'(5,6) uu nz, folded a_def]
  note st = store_leaf(3-7) [OF A'(5,6) uu nz, where v = "fault_entry kva c", folded a_def, folded s'_def]
  have "handle_page_fault B stval c s = Some s'"
    using k0 al pte e by (simp add: handle_page_fault_def r [symmetric] a_def [symmetric] Let_def s'_def fault_entry_def
        EXCC_STORE_PAGE_FAULT_def set_attribute_def store_def or.assoc)
  moreover have t: "x \<in> A' - tables (mem s1) r" if "x \<in> insert kva A - tables (mem s) r" for x
    using that A'(4,7) by blast
  moreover have "kva \<in> insert kva A - tables (mem s) r" using tables_subset [OF wf] A'(1) by blast
  then have "\<forall>b. page_no b = page_no kva \<longrightarrow> mem s' b = 0" using st(4) [OF t] A'(8) by metis
  moreover have "\<forall>p\<in>A - tables (mem s) r. \<forall>b. page_no b = page_no p \<longrightarrow> mem s' b = mem s b" using st(4) [OF t] A'(9) by force
  moreover have "mm_state.more s' = mm_state.more s" using more by (simp add: s'_def)
  moreover have "leaf (mem s') r i j k = (if (i, j, k) = (vpn2_of stval, vpn1_of stval, vpn0_of stval) then fault_entry kva c else leaf (mem s) r i j k)"
    if "i < 256" "j < 512" "k < 512" for i j k
    using st(5) [OF that] lf that unfolding vpn_page_start by simp
  ultimately show ?thesis using A' st(1,2) by (intro exI [of _ kva] exI [of _ s'] exI [of _ A']) blast
qed

text \<open>
  C13: A page fault is resolved. Whatever the access, when a process of a well-formed address space faults
  on a user address that is not mapped and there is room, the interrupt path returns to the same
  process with its page table loaded; the address is now mapped to a page that nobody used, filled
  with zeroes, with the accessed bit set and, after a store, the dirty bit; every other address of the
  process keeps its mapping and no page in use other than the tables is written.
\<close>

theorem page_fault_resolved:
  fixes s :: "('d, 'a) kernel_scheme"
  assumes "page_inv H Q P W s" "length P + length W < MAX_PFN" "length P < 512" "pages_rep s A (Suc (Suc (Suc n)))"
    and p: "p = runnings s ! c" and r: "r = pgdir (pcb s p)" and wf: "pt_wf (mem s) A r"
    and u: "vpn2_of stval < 256" and un: "leaf_of (mem s) r stval = 0" and cause: "scause \<in> {12, 13, 15}"
  shows "\<exists>kva s'. interrupt_helper B (fst (init_exception s0)) syscall call c regs stval scause s = Some s' \<and>
    current_running s' = p \<and> satp s' = satp_value 8 (of_int (pid (pcb s p))) (drop_bit 12 (kva2pa r)) \<and>
    kva \<notin> A \<and> get_kva_of_uva stval r s' = kva + (stval AND mask 12) \<and> leaf_of (mem s') r stval = fault_entry kva scause \<and>
    (\<forall>a. page_no a = page_no kva \<longrightarrow> mem s' a = 0) \<and>
    (\<forall>v. vpn2_of v < 256 \<longrightarrow> (vpn2_of v, vpn1_of v, vpn0_of v) \<noteq> (vpn2_of stval, vpn1_of stval, vpn0_of stval) \<longrightarrow>
       get_kva_of_uva v r s' = get_kva_of_uva v r s) \<and>
    (\<forall>q\<in>A - tables (mem s) r. \<forall>a. page_no a = page_no q \<longrightarrow> mem s' a = mem s a)"
proof -
  define s1 where "s1 = s\<lparr>cpu := c, current_running := p\<rparr>"
  have inv: "page_inv H Q P W s1" using assms(1) by (simp add: s1_def page_inv_def)
  have rep: "pages_rep s1 A (Suc (Suc (Suc n)))" using assms(4) by (simp add: s1_def pages_rep_def alloc_inv_def)
  have f: "r = pgdir (pcb s1 (current_running s1))" "mem s1 = mem s" "pcb s1 = pcb s" "current_running s1 = p"
    using r by (simp_all add: s1_def)
  obtain kva s2 A' where pf: "handle_page_fault B stval scause s1 = Some s2"
    and A': "kva \<notin> A" "page_aligned kva" "FREEMEM_KERNEL \<le> kva" "pages_rep s2 A' n" "pt_wf (mem s2) A' r"
    "\<forall>a. page_no a = page_no kva \<longrightarrow> mem s2 a = 0"
    "\<forall>q\<in>A - tables (mem s) r. \<forall>a. page_no a = page_no q \<longrightarrow> mem s2 a = mem s a"
    and lf: "\<forall>i j k. i < 256 \<longrightarrow> j < 512 \<longrightarrow> k < 512 \<longrightarrow> leaf (mem s2) r i j k =
       (if (i, j, k) = (vpn2_of stval, vpn1_of stval, vpn0_of stval) then fault_entry kva scause else leaf (mem s) r i j k)"
    and more: "mm_state.more s2 = mm_state.more s1"
    using handle_page_fault_spec [OF inv assms(2,3) rep f(1), of stval B scause] wf u un unfolding f(2) by blast
  define s' where "s' = ret_from_kernel s2"
  have m: "mem s' = mem s2" "current_running s' = p" "pcb s2 = pcb s" "current_running s2 = p"
    using more_kernel [OF more] f by (simp_all add: s'_def ret_from_kernel_def switch_pgdir_def Let_def)
  have h: "exc_table (fst (init_exception s0)) ! unat scause = Handle_page_fault" "\<not> bit scause 63"
    "unat scause < length (exc_table (fst (init_exception s0)))"
    using cause by (auto simp: init_exception_def get_ticks_def EXCC_COUNT_def EXCC_SYSCALL_def EXCC_INST_PAGE_FAULT_def
        EXCC_LOAD_PAGE_FAULT_def EXCC_STORE_PAGE_FAULT_def Let_def)
  have ret: "interrupt_helper B (fst (init_exception s0)) syscall call c regs stval scause s = Some s'"
    using pf h by (simp add: interrupt_helper_def Let_def p [symmetric] s1_def [symmetric] s'_def)
  have sat: "satp s' = satp_value 8 (of_int (pid (pcb s p))) (drop_bit 12 (kva2pa r))"
    using m(3,4) r by (simp add: s'_def ret_from_kernel_def switch_pgdir_def Let_def)
  have lo: "leaf_of (mem s2) r v = (if (vpn2_of v, vpn1_of v, vpn0_of v) = (vpn2_of stval, vpn1_of stval, vpn0_of stval)
      then fault_entry kva scause else leaf_of (mem s) r v)" if "vpn2_of v < 256" for v
    using lf that vpn_bounds [of v] unfolding leaf_of_def by blast
  note g = get_kva_leaf [OF A'(4,5)] get_kva_of_uva_mem [OF m(1)]
  have "get_kva_of_uva stval r s' = kva + (stval AND mask 12)"
    using g(1) [OF u] lo [OF u] fault_entry_pa [OF A'(2,3)] unfolding g(2) by simp
  moreover have "get_kva_of_uva v r s' = get_kva_of_uva v r s"
    if "vpn2_of v < 256" "(vpn2_of v, vpn1_of v, vpn0_of v) \<noteq> (vpn2_of stval, vpn1_of stval, vpn0_of stval)" for v
  proof -
    have "leaf_of (mem s2) r v = leaf_of (mem s) r v" unfolding lo [OF that(1)] using that(2) by (rule if_not_P)
    then show ?thesis unfolding g(2) g(1) [OF that(1)] get_kva_leaf [OF assms(4) wf that(1)] by simp
  qed
  moreover have "leaf_of (mem s') r stval = fault_entry kva scause" using lo [OF u] m(1) by simp
  ultimately show ?thesis using ret m(2) sat A'(1,6,7) unfolding m(1) [symmetric]
    by (intro exI [of _ kva] exI [of _ s']) blast
qed

text \<open>A state after boot in which process 0 has an empty address space of its own.\<close>

lemma user_state:
  obtains s :: "(u32 \<Rightarrow> u8 list) kernel" and r A where "page_inv kernel_heads (boot_queues 2) [] [] s"
    "pages_rep s A (Suc (Suc (Suc 100)))" "pt_wf (mem s) A r" "runnings s ! 0 = Pcb 0" "pgdir (pcb s (Pcb 0)) = r"
    "\<And>v. leaf_of (mem s) r v = 0"
proof -
  let ?s0 = "kernel_boot 2 (\<lambda>_. []) :: (u32 \<Rightarrow> u8 list) kernel"
  obtain r s1 where k: "kalloc ?s0 = (r, s1)" by fastforce
  have "pages_rep ?s0 {} (Suc (Suc (Suc (Suc 100))))" by (rule kernel_boot_pages_rep) simp
  note c = kalloc_correct [OF this k]
  define s where "s = upd_pcb (Pcb 0) (\<lambda>p. p\<lparr>pgdir := r\<rparr>) s1"
  have sr: "same_rest ?s0 s1" using same_rest_kalloc k by (metis snd_conv)
  note f = same_rest_fields [OF sr]
  show ?thesis
  proof (rule that)
    show "page_inv kernel_heads (boot_queues 2) [] [] s"
      using kernel_boot_page_inv [of 2 "\<lambda>_. [] :: u8 list"] f by (simp add: s_def upd_pcb_def page_inv_def)
    have "pages_rep s1 {r} (Suc (Suc (Suc 100)))" using c by blast
    then show "pages_rep s {r} (Suc (Suc (Suc 100)))" by (rule pages_rep_upd) (simp_all add: s_def upd_pcb_def)
    have ms: "mem s = mem s1" by (simp add: s_def upd_pcb_def)
    show "pt_wf (mem s) {r} r" unfolding ms using c by (intro pt_wf_empty) auto
    show "runnings s ! 0 = Pcb 0" using more_kernel(3) [OF f(5)] by (simp add: s_def upd_pcb_def kernel_boot_def)
    show "pgdir (pcb s (Pcb 0)) = r" by (simp add: s_def upd_pcb_def)
    have "mem s (entry r i) = 0" if "i < 512" for i using c page_no_entry [of r i] that unfolding ms by auto
    moreover have "vpn2_of v < 512" for v
    proof -
      have "drop_bit 30 (v AND VA_MASK) = take_bit 9 (drop_bit 30 v)"
        by (intro bit_word_eqI) (auto simp: bit_simps VA_MASK_def)
      then have "vpn2_of v = take_bit 9 (unat (drop_bit 30 v))" by (simp add: vpn2_of_def unsigned_take_bit_eq)
      then show ?thesis using take_bit_nat_less_exp [of 9] by simp
    qed
    ultimately show "leaf_of (mem s) r v = 0" for v by (simp add: leaf_of_def leaf_def tab.simps)
  qed
qed

theorem page_fault_resolved_witness:
  "\<exists>(s :: (u32 \<Rightarrow> u8 list) kernel) r A kva s'.
    interrupt_helper ram_card (fst (init_exception s)) init_syscall kill_call 0 0x1000 0x10010 15 s = Some s' \<and>
    kva \<notin> A \<and> get_kva_of_uva 0x10010 r s' = kva + (0x10010 AND mask 12) \<and> leaf_of (mem s') r 0x10010 = fault_entry kva 15"
proof -
  obtain s :: "(u32 \<Rightarrow> u8 list) kernel" and r A where s: "page_inv kernel_heads (boot_queues 2) [] [] s"
    "pages_rep s A (Suc (Suc (Suc 100)))" "pt_wf (mem s) A r" "runnings s ! 0 = Pcb 0" "pgdir (pcb s (Pcb 0)) = r"
    "\<And>v. leaf_of (mem s) r v = 0"
    by (rule user_state) (rule that)
  have sl: "length ([]::nat list) + length ([]::nat list) < MAX_PFN" "length ([]::nat list) < 512"
    by (simp_all add: MAX_PFN_def)
  have u: "vpn2_of 0x10010 < 256" by (simp add: vpn2_of_def VA_MASK_def mask_eq_exp_minus_1)
  have c: "(15::u64) \<in> {12, 13, 15}" by simp
  obtain kva s' where w: "interrupt_helper ram_card (fst (init_exception s)) init_syscall kill_call 0 0x1000 0x10010 15 s = Some s'"
    "kva \<notin> A" "get_kva_of_uva 0x10010 r s' = kva + (0x10010 AND mask 12)" "leaf_of (mem s') r 0x10010 = fault_entry kva 15"
    using page_fault_resolved [OF s(1) sl s(2) s(4) [symmetric] s(5) [symmetric] s(3) u s(6) c,
        where B = ram_card and ?s0.0 = s and syscall = init_syscall and call = kill_call and regs = "0x1000"]
    by (elim exE conjE) (rule that, assumption+)
  show ?thesis by (rule exI [of _ s], rule exI [of _ r], rule exI [of _ A], rule exI [of _ kva], rule exI [of _ s'])
      (intro conjI w)
qed

text \<open>
  C40: A page fault on a page that is mapped and present is fatal. The handler takes every mapped page for
  a swapped-out one; when the page is not among the swapped pages, because only its accessed or dirty
  bit was missing, \<^verbatim>\<open>swap_in\<close> gets a null pointer.
\<close>

theorem present_page_fault_fatal:
  assumes "page_inv H Q P W s" "present_pages_num s < MAX_PRESENT_PFN" "r = pgdir (pcb s (current_running s))"
    and "get_kva_of_uva (stval AND NOT (mask 12)) r s \<noteq> 0"
    and "\<forall>i\<in>set W. pg_uva (pages s ! i) \<noteq> stval AND NOT (mask 12) \<or> pg_pgdir (pages s ! i) \<noteq> r"
  shows "handle_page_fault B stval scause s = None"
proof -
  have "find_page_with_uva (stval AND NOT (mask 12)) r Swapped_pages_queue s = Some None"
    using find_page_with_uva_eq(2) [OF assms(1)] assms(5) by (auto simp: find_None_iff)
  then show ?thesis using assms(2-4) by (simp add: handle_page_fault_def Let_def)
qed

theorem present_page_fault_fatal_witness:
  "\<exists>s :: (u32 \<Rightarrow> u8 list) kernel. present_pages_num s = 1 \<and> handle_page_fault ram_card 0x10010 15 s = None"
proof -
  obtain s :: "(u32 \<Rightarrow> u8 list) kernel" and r A where s: "page_inv kernel_heads (boot_queues 2) [] [] s"
    "pages_rep s A (Suc (Suc (Suc 100)))" "pt_wf (mem s) A r" "runnings s ! 0 = Pcb 0" "pgdir (pcb s (Pcb 0)) = r"
    "\<And>v. leaf_of (mem s) r v = 0"
    by (rule user_state) (rule that)
  have sl: "length ([]::nat list) + length ([]::nat list) < MAX_PFN" "length ([]::nat list) < 512"
    by (simp_all add: MAX_PFN_def)
  have u: "vpn2_of 0x10000 < 256" by (simp add: vpn2_of_def VA_MASK_def mask_eq_exp_minus_1)
  obtain i kva A' and s1 :: "(u32 \<Rightarrow> u8 list) kernel" where a: "page_aligned kva" "FREEMEM_KERNEL \<le> kva" "pages_rep s1 A' 100" "pt_wf (mem s1) A' r"
    "page_inv kernel_heads (enq (Page_list i) Present_pages_queue (boot_queues 2)) ([] @ [i]) [] s1"
    and l: "\<forall>i j k. i < 256 \<longrightarrow> j < 512 \<longrightarrow> k < 512 \<longrightarrow> leaf (mem s1) r i j k =
      (if (i, j, k) = (vpn2_of 0x10000, vpn1_of 0x10000, vpn0_of 0x10000) then user_entry kva else leaf (mem s) r i j k)"
    and m: "mm_state.more s1 = mm_state.more s"
    using alloc_page_helper_spec [OF s(1) sl s(2,3) u, of ram_card] by (elim exE conjE) (rule that, assumption+)
  have e: "leaf_of (mem s1) r 0x10000 = user_entry kva"
    using l u vpn_bounds [of "0x10000"] unfolding leaf_of_def by simp
  define t where "t = s1\<lparr>current_running := Pcb 0\<rparr>"
  have inv: "page_inv kernel_heads (enq (Page_list i) Present_pages_queue (boot_queues 2)) [i] [] t"
    using a(5) by (simp add: t_def page_inv_def)
  then have pn: "present_pages_num t = 1" by (simp add: page_inv_def)
  have "get_kva_of_uva 0x10000 r s1 = kva"
    using get_kva_leaf [OF a(3,4) u] user_entry_pa(1) [OF a(1,2)] user_entry_pa(2) [OF a(1,2), of "0x10000"] e by (simp add: mask_eq_exp_minus_1)
  then have k: "get_kva_of_uva (0x10010 AND NOT (mask 12)) r t \<noteq> 0"
    using freemem_nonzero [OF a(2)] get_kva_of_uva_mem [of t s1 "0x10000" r] by (simp add: t_def mask_eq_exp_minus_1)
  have r: "r = pgdir (pcb t (current_running t))" using more_kernel(1) [OF m] s(5) by (simp add: t_def)
  have "handle_page_fault ram_card 0x10010 15 t = None"
    by (rule present_page_fault_fatal [OF inv _ r k]) (simp_all add: pn MAX_PRESENT_PFN_def)
  then show ?thesis using pn by blast
qed

end
