(* ===== verification/Net.thy ===== *)
theory Net
  imports Process
begin

text \<open>
  Sending and receiving packets: \<^verbatim>\<open>do_net_send\<close> and \<^verbatim>\<open>do_net_recv\<close> of \<open>src/kernel/net/net.c\<close> on top of the
  driver's rings. A call either returns or waits in the queue of senders or receivers; what a
  waiting call goes on with when the process runs again is part of the outcome. The contents of the
  user's buffers are arguments and results.
\<close>

section \<open>The calls\<close>

text \<open>A sender that waited tries the same transmission again: it goes on with \<open>do_net_send\<close> itself.\<close>

definition do_net_send :: "'d sdcard \<Rightarrow> u8 list \<Rightarrow> int \<Rightarrow> ('d, 'a) kernel_scheme \<Rightarrow>
    ((int, unit) outcome \<times> ('d, 'a) kernel_scheme) option" where
  "do_net_send B txpacket len s = do {
     (r, n) \<leftarrow> e1000_transmit txpacket len (nic s);
     let s1 = s\<lparr>nic := n\<rparr>;
     (if r = 0
      then do { s2 \<leftarrow> do_block B (Pcb_list (current_running s1)) Send_block_queue s1; Some (Waits (), s2) }
      else Some (Returns len, s1))
   }"

text \<open>
  The variables of a receiver: the number of packets it has, their total size, the offset of
  \<^verbatim>\<open>rxbuffer\<close> from its start, the memory there and the array \<^verbatim>\<open>pkt_lens\<close>.
\<close>

record recv_vars =
  rv_i :: int
  rv_bytes :: int
  rv_off :: nat
  rv_buf :: "u8 list"
  rv_lens :: "int list"

function net_recv_loop :: "'d sdcard \<Rightarrow> int \<Rightarrow> recv_vars \<Rightarrow> ('d, 'a) kernel_scheme \<Rightarrow>
    ((recv_vars, recv_vars) outcome \<times> ('d, 'a) kernel_scheme) option" where
  "net_recv_loop B pkt_num v s =
     (if rv_i v < pkt_num
      then do {
        (len, buf, n) \<leftarrow> e1000_poll (drop (rv_off v) (rv_buf v)) (nic s);
        let s1 = s\<lparr>nic := n\<rparr>;
        (if len = 0
         then do { s2 \<leftarrow> do_block B (Pcb_list (current_running s1)) Recv_block_queue s1; Some (Waits v, s2) }
         else if nat (rv_i v) < length (rv_lens v)
         then net_recv_loop B pkt_num
           \<lparr>rv_i = rv_i v + 1, rv_bytes = rv_bytes v + len, rv_off = rv_off v + nat len,
            rv_buf = take (rv_off v) (rv_buf v) @ buf, rv_lens = (rv_lens v)[nat (rv_i v) := len]\<rparr> s1
         else None)
      }
      else Some (Returns v, s))"
  by pat_completeness auto
termination
  by (relation "measure (\<lambda>(B, pkt_num, v, s). nat (pkt_num - rv_i v))") auto

declare net_recv_loop.simps [simp del]

definition do_net_recv :: "'d sdcard \<Rightarrow> u8 list \<Rightarrow> int \<Rightarrow> int list \<Rightarrow> ('d, 'a) kernel_scheme \<Rightarrow>
    ((recv_vars, recv_vars) outcome \<times> ('d, 'a) kernel_scheme) option" where
  "do_net_recv B rxbuffer pkt_num pkt_lens s =
     net_recv_loop B pkt_num \<lparr>rv_i = 0, rv_bytes = 0, rv_off = 0, rv_buf = rxbuffer, rv_lens = pkt_lens\<rparr> s"

section \<open>Sending\<close>

text \<open>
  C22: Sending a packet never loses it. With a consistent scheduler and transmit ring, \<^verbatim>\<open>do_net_send\<close> of 1 to 2048 bytes
  returns the length with the packet at the end of the ring and nothing else changed; if the ring is
  full, the ring stays as it is, the caller is blocked at the end of the queue of senders and another
  process has been chosen.
\<close>

theorem net_send_correct:
  fixes s :: "('d, 'a) kernel_scheme"
  assumes inv: "sched_inv H Q s" and cur: "current_running s = Pcb p" and ring: "tx_ring (h, nic s) q" and pk: "tx_packet pkt"
  shows "if length q < 64
    then \<exists>n'. do_net_send B pkt (int (length pkt)) s = Some (Returns (int (length pkt)), s\<lparr>nic := n'\<rparr>) \<and> tx_ring (h, n') (q @ [pkt])
    else \<exists>s' Q'. do_net_send B pkt (int (length pkt)) s = Some (Waits (), s') \<and> sched_inv H Q' s' \<and>
      Q' Send_block_queue = Q Send_block_queue @ [Pcb_list (Pcb p)] \<and> status (pcb s' (Pcb p)) = TASK_BLOCKED"
proof (cases "length q < 64")
  case True
  obtain n' where "e1000_transmit pkt (int (length pkt)) (nic s) = Some (int (length pkt), n')" "tx_ring (h, n') (q @ [pkt])"
    using transmit_room [OF ring True, of "length pkt" pkt] pk by (auto simp: tx_packet_def)
  then show ?thesis using True pk by (auto simp: do_net_send_def tx_packet_def)
next
  case False
  then have "length q = 64" using ring by (simp add: tx_ring_def)
  then have t: "e1000_transmit pkt (int (length pkt)) (nic s) = Some (0, nic s)" by (rule transmit_full [OF ring])
  have H: "Send_block_queue \<in> H" using sched_invD(1) [OF inv] by (auto simp: kq_def)
  obtain s' Q' where "do_block B (Pcb_list (Pcb p)) Send_block_queue s = Some s'" "sched_inv H Q' s'"
    "Q' Send_block_queue = Q Send_block_queue @ [Pcb_list (Pcb p)]" "status (pcb s' (Pcb p)) = TASK_BLOCKED"
    using do_block_facts [OF inv cur H, of B] by auto
  then show ?thesis using False t cur by (auto simp: do_net_send_def)
qed

theorem net_send_correct_witness:
  "\<exists>n'. do_net_send \<lparr>sd_read = \<lambda>_ _ _. [], sd_write = \<lambda>d _ _ _. d\<rparr> [1, 2, 3] 3 (kernel_boot 2 ()) =
      Some (Returns 3, (kernel_boot 2 ())\<lparr>nic := n'\<rparr>) \<and> tx_ring (0, n') [[1, 2, 3]]"
proof -
  have r: "tx_ring (0, nic (kernel_boot 2 ())) []" using configure_rings [OF nic_boot_ok_boot] by (simp add: kernel_boot_def)
  have c: "current_running (kernel_boot 2 ()) = Pcb 0" by (simp add: kernel_boot_def)
  have i: "sched_inv kernel_heads (boot_queues 2) (kernel_boot 2 ())" by (rule kernel_boot_inv) simp
  show ?thesis using net_send_correct [OF i c r, of "[1, 2, 3]"] by (simp add: tx_packet_def)
qed

section \<open>Receiving\<close>

text \<open>The variables after the packets \<open>ps\<close> have been read one behind the other.\<close>

definition received :: "u8 list list \<Rightarrow> u8 list \<Rightarrow> int list \<Rightarrow> recv_vars" where
  "received ps buf lens = \<lparr>rv_i = int (length ps), rv_bytes = int (length (concat ps)), rv_off = length (concat ps),
     rv_buf = concat ps @ drop (length (concat ps)) buf, rv_lens = map (int \<circ> length) ps @ drop (length ps) lens\<rparr>"

lemma net_recv_step:
  assumes ring: "rx_ring (h, nic s) (p # ps)" and k: "length ds < k" "k \<le> length lens"
    and fit: "length (concat ds) + length p \<le> length buf"
  shows "\<exists>n'. net_recv_loop B (int k) (received ds buf lens) s = net_recv_loop B (int k) (received (ds @ [p]) buf lens) (s\<lparr>nic := n'\<rparr>) \<and>
    rx_ring (h, n') ps"
proof -
  let ?b = "drop (length (concat ds)) buf"
  have fit': "length p \<le> length ?b" using fit by simp
  obtain n' where n': "e1000_poll ?b (nic s) = Some (int (length p), p @ drop (length p) ?b, n')" "rx_ring (h, n') ps"
    using poll_first [OF ring fit'] by blast
  have "rx_holds (nic s) (rx_first (nic s) mod 64) p" using ring unfolding rx_ring_def by (auto dest: spec [of _ 0])
  then have p0: "0 < length p" by (simp add: rx_holds_def tx_packet_def)
  have l: "(map (int \<circ> length) ds @ drop (length ds) lens)[length ds := int (length p)] =
      map (int \<circ> length) (ds @ [p]) @ drop (length (ds @ [p])) lens"
    using k by (simp add: list_update_append Cons_nth_drop_Suc [symmetric])
  have "net_recv_loop B (int k) (received ds buf lens) s = net_recv_loop B (int k) (received (ds @ [p]) buf lens) (s\<lparr>nic := n'\<rparr>)"
    using n'(1) p0 k l by (subst net_recv_loop.simps) (simp add: received_def Let_def add.commute add.assoc)
  then show ?thesis using n'(2) by blast
qed

lemma net_recv_takes:
  assumes "rx_ring (h, nic s) (ps @ qs)" "length ds + length ps \<le> k" "k \<le> length lens" "length (concat (ds @ ps)) \<le> length buf"
  shows "\<exists>n'. net_recv_loop B (int k) (received ds buf lens) s = net_recv_loop B (int k) (received (ds @ ps) buf lens) (s\<lparr>nic := n'\<rparr>) \<and>
    rx_ring (h, n') qs"
  using assms
proof (induction ps arbitrary: ds s)
  case Nil
  then show ?case by (intro exI [of _ "nic s"]) simp
next
  case (Cons p ps)
  obtain n1 where n1: "net_recv_loop B (int k) (received ds buf lens) s = net_recv_loop B (int k) (received (ds @ [p]) buf lens) (s\<lparr>nic := n1\<rparr>)"
    "rx_ring (h, n1) (ps @ qs)"
    using net_recv_step [of h s p "ps @ qs" ds k lens buf B] Cons.prems by auto
  then show ?case using Cons.IH [of "s\<lparr>nic := n1\<rparr>" "ds @ [p]"] Cons.prems by simp
qed

lemma poll_empty:
  assumes "rx_ring (h, n) []" shows "e1000_poll buf n = Some (0, buf, n)"
proof -
  have wf: "nic_wf n" and "\<not> filled n (rx_first n)" using assms by (auto simp: rx_ring_def rx_first_def dest: spec [of _ 0])
  moreover have "rx_first n < 64" by (simp add: rx_first_def)
  ultimately show ?thesis
    unfolding e1000_poll_def e1000_read_reg_def rdt_next [OF wf] by (simp add: nic_wf_def filled_def Let_def)
qed

text \<open>
  C23: Receiving delivers the packets in order. If at least \<open>k\<close> packets are in the receive ring, \<^verbatim>\<open>do_net_recv\<close> for \<open>k\<close>
  packets returns their total size with the packets one behind the other in the buffer and their
  sizes in the array, and leaves the rest in the ring; if there are fewer, it has read all of them
  and the caller waits for the others in the queue of receivers.
\<close>

theorem net_recv_correct:
  fixes s :: "('d, 'a) kernel_scheme"
  assumes inv: "sched_inv H Q s" and cur: "current_running s = Pcb p" and ring: "rx_ring (h, nic s) q"
    and k: "k \<le> length lens" and fit: "length (concat (take k q)) \<le> length buf"
  shows "if k \<le> length q
    then \<exists>n'. do_net_recv B buf (int k) lens s = Some (Returns (received (take k q) buf lens), s\<lparr>nic := n'\<rparr>) \<and> rx_ring (h, n') (drop k q)
    else \<exists>s' Q'. do_net_recv B buf (int k) lens s = Some (Waits (received q buf lens), s') \<and> sched_inv H Q' s' \<and>
      Q' Recv_block_queue = Q Recv_block_queue @ [Pcb_list (Pcb p)] \<and> status (pcb s' (Pcb p)) = TASK_BLOCKED"
proof -
  have st: "do_net_recv B buf (int k) lens s = net_recv_loop B (int k) (received [] buf lens) s"
    by (simp add: do_net_recv_def received_def)
  obtain n' where n': "net_recv_loop B (int k) (received [] buf lens) s =
      net_recv_loop B (int k) (received (take k q) buf lens) (s\<lparr>nic := n'\<rparr>)" "rx_ring (h, n') (drop k q)"
    using net_recv_takes [of h s "take k q" "drop k q" "[]" k lens buf B] ring k fit by auto
  show ?thesis
  proof (cases "k \<le> length q")
    case True
    then have "net_recv_loop B (int k) (received (take k q) buf lens) (s\<lparr>nic := n'\<rparr>) =
        Some (Returns (received (take k q) buf lens), s\<lparr>nic := n'\<rparr>)"
      by (subst net_recv_loop.simps) (simp add: received_def min_def)
    then show ?thesis using True st n' by auto
  next
    case False
    let ?s = "s\<lparr>nic := n'\<rparr>"
    have q: "take k q = q" "rx_ring (h, n') []" using False n'(2) by simp_all
    have inv': "sched_inv H Q ?s" using inv by (subst sched_inv_cong) simp_all
    have H: "Recv_block_queue \<in> H" using sched_invD(1) [OF inv] by (auto simp: kq_def)
    obtain s' Q' where b: "do_block B (Pcb_list (Pcb p)) Recv_block_queue ?s = Some s'" "sched_inv H Q' s'"
      "Q' Recv_block_queue = Q Recv_block_queue @ [Pcb_list (Pcb p)]" "status (pcb s' (Pcb p)) = TASK_BLOCKED"
      using do_block_facts [OF inv' _ H, of p B] cur by auto
    have "net_recv_loop B (int k) (received q buf lens) ?s = Some (Waits (received q buf lens), s')"
      using False b(1) cur poll_empty [OF q(2)] by (subst net_recv_loop.simps) (simp add: received_def)
    then show ?thesis using False st n'(1) q(1) b by auto
  qed
qed

theorem net_recv_correct_witness:
  "\<exists>n (s' :: unit kernel). rx_ring (1, n) [[5, 6]] \<and>
    (\<exists>n'. do_net_recv \<lparr>sd_read = \<lambda>_ _ _. [], sd_write = \<lambda>d _ _ _. d\<rparr> [0, 0, 0] 1 [0] ((kernel_boot 2 ())\<lparr>nic := n\<rparr>) =
      Some (Returns (received [[5, 6]] [0, 0, 0] [0]), (kernel_boot 2 ())\<lparr>nic := n'\<rparr>)) \<and>
    do_net_recv \<lparr>sd_read = \<lambda>_ _ _. [], sd_write = \<lambda>d _ _ _. d\<rparr> [0, 0, 0] 2 [0, 0] ((kernel_boot 2 ())\<lparr>nic := n\<rparr>) =
      Some (Waits (received [[5, 6]] [0, 0, 0] [0, 0]), s')"
proof -
  have r0: "rx_ring (0, nic (kernel_boot 2 ())) []" using configure_rings [OF nic_boot_ok_boot] by (simp add: kernel_boot_def)
  obtain n where n: "rx_ring (1, n) [[5, 6]]" using rx_push_room [OF r0, of "[5, 6]"] by (auto simp: tx_packet_def)
  let ?s = "(kernel_boot 2 ())\<lparr>nic := n\<rparr>"
  have i: "sched_inv kernel_heads (boot_queues 2) ?s"
    using kernel_boot_inv [of 2 "()"] by (subst sched_inv_cong) simp_all
  have c: "current_running ?s = Pcb 0" by (simp add: kernel_boot_def)
  have r: "rx_ring (1, nic ?s) [[5, 6]]" using n by simp
  show ?thesis
    using n net_recv_correct [OF i c r, of 1 "[0]" "[0, 0, 0]" "\<lparr>sd_read = \<lambda>_ _ _. [], sd_write = \<lambda>d _ _ _. d\<rparr>"]
      net_recv_correct [OF i c r, of 2 "[0, 0]" "[0, 0, 0]" "\<lparr>sd_read = \<lambda>_ _ _. [], sd_write = \<lambda>d _ _ _. d\<rparr>"]
    by - (rule exI [of _ n], auto)
qed

end
