(* ===== verification/MM_Inv.thy ===== *)
theory MM_Inv
  imports MM_Pages
begin

text \<open>
  The page accounting as a type invariant of the memory manager: every function of \<open>src/kernel/mm/mm.c\<close>
  that returns keeps it, and none touches a queue other than the two page queues.
\<close>

definition pages_ok :: "node set \<Rightarrow> (node \<Rightarrow> node list) \<Rightarrow> ('d, 'a) mm_state_scheme \<Rightarrow> bool" where
  "pages_ok H R s \<longleftrightarrow> (\<exists>Q P W. page_inv H Q P W s \<and> (\<forall>h. h \<notin> page_heads \<longrightarrow> Q h = R h))"

lemma pages_okI: "page_inv H Q P W s \<Longrightarrow> \<forall>h. h \<notin> page_heads \<longrightarrow> Q h = R h \<Longrightarrow> pages_ok H R s"
  by (auto simp: pages_ok_def)

lemma pages_okE:
  assumes "pages_ok H R s"
  obtains Q P W where "page_inv H Q P W s" "\<forall>h. h \<notin> page_heads \<longrightarrow> Q h = R h"
  using assms unfolding pages_ok_def by blast

lemma pages_ok_cong:
  assumes "lnk s' = lnk s" "pages s' = pages s" "page_id s' = page_id s" "present_pages_num s' = present_pages_num s"
  shows "pages_ok H R s' = pages_ok H R s"
  using assms by (simp add: pages_ok_def page_inv_def)

lemma pages_ok_same_rest: "same_rest s s' \<Longrightarrow> pages_ok H R s' = pages_ok H R s"
  by (rule pages_ok_cong) (simp_all add: same_rest_def)

lemma pages_ok_frame [simp]:
  "pages_ok H R (store a v s) = pages_ok H R s" "pages_ok H R (kfree p s) = pages_ok H R s"
  "pages_ok H R (zero_page p s) = pages_ok H R s" "pages_ok H R (map_uva_to_kva uva kva r s) = pages_ok H R s"
  "pages_ok H R (snd (kalloc s)) = pages_ok H R s" "pages_ok H R (s\<lparr>share_pages := sp\<rparr>) = pages_ok H R s"
  by (rule pages_ok_same_rest pages_ok_cong; simp add: kfree_def same_rest_map same_rest_kalloc)+

section \<open>Each function\<close>

lemma add_new_pre_page_ok:
  assumes ok: "pages_ok H R s" and a: "add_new_pre_page uva kva r s = Some s'"
  shows "pages_ok H R s'"
proof -
  obtain Q P W where inv: "page_inv H Q P W s" and q: "\<forall>h. h \<notin> page_heads \<longrightarrow> Q h = R h" using ok by (rule pages_okE)
  obtain j where j: "find_index (\<lambda>p. pg_id p = 0) (pages s) = Some j" using a by (auto simp: add_new_pre_page_def split: option.splits)
  have "length P + length W < MAX_PFN"
  proof -
    have "j < MAX_PFN" "j \<notin> set (P @ W)" using find_index_SomeD [OF j] inv by (auto simp: page_inv_def)
    moreover have "set (P @ W) \<subseteq> {..<MAX_PFN}" using inv by (auto simp: page_inv_def)
    ultimately have "set (P @ W) \<subset> {..<MAX_PFN}" by blast
    then have "card (set (P @ W)) < card {..<MAX_PFN}" by (rule psubset_card_mono [OF finite_lessThan])
    then show ?thesis using inv distinct_card [of "P @ W"] by (simp add: page_inv_def)
  qed
  then obtain i s'' where "add_new_pre_page uva kva r s = Some s''"
    "page_inv H (enq (Page_list i) Present_pages_queue Q) (P @ [i]) W s''"
    using add_new_pre_page_spec [OF inv] by blast
  then show ?thesis using a q by (intro pages_okI [of H "enq (Page_list i) Present_pages_queue Q" "P @ [i]" W]) (auto simp: enq_def)
qed

lemma swap_out_ok:
  assumes "pages_ok H R s" "swap_out B s = Some s'"
  shows "pages_ok H R s'"
proof -
  obtain Q P W where inv: "page_inv H Q P W s" and q: "\<forall>h. h \<notin> page_heads \<longrightarrow> Q h = R h" using assms(1) by (rule pages_okE)
  obtain i P' where "page_inv H (enq (Page_list i) Swapped_pages_queue (deq (Page_list i) Present_pages_queue Q)) P' (W @ [i]) s'"
    using swap_out_inv [OF inv assms(2)] by blast
  then show ?thesis by (rule pages_okI) (use q in \<open>simp add: enq_def deq_def\<close>)
qed

lemma alloc_page_helper_ok:
  assumes "pages_ok H R s" "alloc_page_helper B uva r s = Some (kva, s')"
  shows "pages_ok H R s'"
proof -
  let ?t = "map_uva_to_kva uva (fst (kalloc s)) r (snd (kalloc s))"
  obtain t where t: "(if present_pages_num ?t \<ge> MAX_PRESENT_PFN then swap_out B ?t else Some ?t) = Some t"
    "add_new_pre_page uva (fst (kalloc s)) r t = Some s'"
    using assms(2) by (auto simp: alloc_page_helper_def case_prod_beta Let_def split: bind_splits)
  have "pages_ok H R ?t" using assms(1) by simp
  then have "pages_ok H R t" using t(1) swap_out_ok [of H R ?t B t] by (metis option.inject)
  then show ?thesis using t(2) by (rule add_new_pre_page_ok)
qed

lemma swap_in_all_pages_ok:
  assumes "pages_ok H R s"
  shows "\<exists>s'. swap_in_all_pages B r s = Some s' \<and> pages_ok H R s'"
proof -
  obtain Q P W where inv: "page_inv H Q P W s" and q: "\<forall>h. h \<notin> page_heads \<longrightarrow> Q h = R h" using assms by (rule pages_okE)
  obtain s' Q' P' W' where "swap_in_all_pages B r s = Some s'" "page_inv H Q' P' W' s'" "\<forall>h. h \<notin> page_heads \<longrightarrow> Q' h = Q h"
    using swap_in_all_pages_returns [OF inv, of B r] by blast
  then show ?thesis using q pages_okI [of H Q' P' W' s' R] by auto
qed

text \<open>Dropping the page found in one of the two queues.\<close>

lemma drop_page_ok:
  assumes inv: "page_inv H Q P W s" and q: "\<forall>h. h \<notin> page_heads \<longrightarrow> Q h = R h"
  shows "i \<in> set P \<Longrightarrow> pages_ok H R ((drop_page i s)\<lparr>present_pages_num := present_pages_num (drop_page i s) - 1\<rparr>)"
    "i \<in> set W \<Longrightarrow> pages_ok H R (drop_page i s)"
  using q by - (rule pages_okI [OF drop_page_present [OF inv]] pages_okI [OF drop_page_swapped [OF inv]];
      simp add: deq_def)+

lemma free_page_ok:
  assumes "pages_ok H R s" "free_page_with_uva uva r s = Some s' \<or> free_page_with_kva kva s = Some s'"
  shows "pages_ok H R s'"
proof -
  obtain Q P W where inv: "page_inv H Q P W s" and q: "\<forall>h. h \<notin> page_heads \<longrightarrow> Q h = R h" using assms(1) by (rule pages_okE)
  note d = drop_page_ok [OF inv q]
  show ?thesis using assms(2)
  proof
    assume "free_page_with_uva uva r s = Some s'"
    then show ?thesis using d
      by (auto simp: free_page_with_uva_def find_page_with_uva_eq [OF inv] Let_def split: option.splits dest!: find_Some_mem)
  next
    assume "free_page_with_kva kva s = Some s'"
    then show ?thesis using d
      by (auto simp: free_page_with_kva_def find_page_with_kva_eq [OF inv] Let_def split: option.splits dest!: find_Some_mem)
  qed
qed

lemmas free_page_with_uva_ok = free_page_ok [OF _ disjI1]
  and free_page_with_kva_ok = free_page_ok [OF _ disjI2]

lemma free_pte_ok: "pages_ok H R s \<Longrightarrow> free_pte r pte i j k s = Some s' \<Longrightarrow> pages_ok H R s'"
  using free_page_with_uva_ok [of H R s "get_uva_from_vpns i j k" r]
  by (auto simp: free_pte_def split: if_splits bind_splits)

lemma free_pmd_entry_ok:
  assumes "pages_ok H R s" "free_pmd_entry r pmd i j s = Some s'"
  shows "pages_ok H R s'"
proof (cases "mem s (entry pmd j) = 0")
  case True
  then show ?thesis using assms by (simp add: free_pmd_entry_def)
next
  case False
  then obtain t where t: "foldM (free_pte r (table_of (mem s (entry pmd j))) i j) [0..<512] s = Some t"
    "s' = kfree (table_of (mem s (entry pmd j))) t"
    using assms(2) by (auto simp: free_pmd_entry_def Let_def split: bind_splits)
  have "pages_ok H R t" by (rule foldM_invariant [where P = "pages_ok H R", OF t(1) assms(1)]) (rule free_pte_ok)
  then show ?thesis using t(2) by simp
qed

lemma free_pagetable_ok:
  assumes "pages_ok H R s" "free_pagetable r s = Some s'"
  shows "pages_ok H R s'"
  using assms(2) unfolding free_pagetable_def
proof (rule foldM_invariant [where P = "pages_ok H R", OF _ assms(1)])
  fix i t t'
  assume t: "pages_ok H R t" and e: "(if mem t (entry r i) \<noteq> 0 \<and> i \<noteq> KERNEL_VA_VPN2 \<and> i \<noteq> IO_REMAP_VA_VPN2
     then let pmd = table_of (mem t (entry r i))
          in do { s1 \<leftarrow> foldM (free_pmd_entry r pmd i) [0..<512] t; Some (kfree pmd (zero_page pmd s1)) }
     else Some t) = Some t'"
  show "pages_ok H R t'"
  proof (cases "mem t (entry r i) \<noteq> 0 \<and> i \<noteq> KERNEL_VA_VPN2 \<and> i \<noteq> IO_REMAP_VA_VPN2")
    case True
    then obtain u where u: "foldM (free_pmd_entry r (table_of (mem t (entry r i))) i) [0..<512] t = Some u"
      "t' = kfree (table_of (mem t (entry r i))) (zero_page (table_of (mem t (entry r i))) u)"
      using e by (auto simp: Let_def split: bind_splits)
    have "pages_ok H R u" by (rule foldM_invariant [where P = "pages_ok H R", OF u(1) t]) (rule free_pmd_entry_ok)
    then show ?thesis using u(2) by simp
  qed (use t e in auto)
qed

lemma shm_page_get_ok:
  assumes ok: "pages_ok H R s" and g: "shm_page_get B r ky s = Some (uva, s')"
  shows "pages_ok H R s'"
proof (cases "find_index (\<lambda>sp. sh_key sp = ky) (share_pages s)")
  case (Some i)
  then show ?thesis using g ok by (auto simp: shm_page_get_def Let_def split: bind_splits)
next
  case none: None
  show ?thesis
  proof (cases "find_index (\<lambda>sp. sh_key sp = 0) (share_pages s)")
    case None
    then show ?thesis using g ok none by (simp add: shm_page_get_def)
  next
    case (Some i)
    then obtain sp v kva s2 sp2 where "alloc_page_helper B v r (s\<lparr>share_pages := sp\<rparr>) = Some (kva, s2)" "s' = s2\<lparr>share_pages := sp2\<rparr>"
      using g none by (auto simp: shm_page_get_def Let_def split: bind_splits)
    then show ?thesis using alloc_page_helper_ok [of H R "s\<lparr>share_pages := sp\<rparr>"] ok by simp
  qed
qed

lemma shm_page_dt_ok:
  assumes ok: "pages_ok H R s" and g: "shm_page_dt r addr s = Some s'"
  shows "pages_ok H R s'"
proof -
  let ?pte = "get_pte_of_uva addr r s" and ?kva = "get_kva_of_uva addr r s AND NOT (mask 12)"
  let ?s1 = "store ?pte 0 s"
  have p: "?pte \<noteq> 0" using g by (auto simp: shm_page_dt_def)
  show ?thesis
  proof (cases "find_index (\<lambda>sp. sh_kva sp = ?kva) (share_pages ?s1)")
    case None
    then show ?thesis using g ok p by (auto simp: shm_page_dt_def Let_def)
  next
    case (Some i)
    show ?thesis
    proof (cases "sh_ref (share_pages ?s1 ! i) - 1 = 0")
      case False
      then show ?thesis using g ok p Some by (auto simp: shm_page_dt_def Let_def)
    next
      case True
      then obtain kva sp s3 sp3 where "free_page_with_kva kva (?s1\<lparr>share_pages := sp\<rparr>) = Some s3" "s' = s3\<lparr>share_pages := sp3\<rparr>"
        using g p Some by (auto simp: shm_page_dt_def Let_def split: bind_splits)
      then show ?thesis using free_page_with_kva_ok [of H R "?s1\<lparr>share_pages := sp\<rparr>"] ok by simp
    qed
  qed
qed

section \<open>The type invariant\<close>



end
