(* ===== verification/Smp.thy ===== *)
theory Smp
  imports System
begin

text \<open>
  Two harts and the kernel lock: \<open>src/kernel/smp/smp.c\<close> and the entry and exit of the kernel in
  \<open>src/kernel/irq/irq.c\<close>. A hart spins on the lock with atomic exchanges; inside the kernel it works on
  what it has read of the kernel's variables, and its writes reach the other hart at any time until
  it releases the lock. Nothing in this model keeps two harts from being inside at once but the lock.
\<close>

section \<open>The lock\<close>

text \<open>One round of the loop of \<^verbatim>\<open>lock_kernel\<close>: whether the loop ends, and the new value of the lock.\<close>

definition lock_kernel_try :: "lock_status_t \<Rightarrow> bool \<times> lock_status_t" where
  "lock_kernel_try l = (let (old, new) = spin_lock_try_acquire l in (old \<noteq> LOCKED, new))"

definition unlock_kernel :: "lock_status_t \<Rightarrow> lock_status_t" where
  "unlock_kernel l = spin_lock_release l"

section \<open>Harts\<close>

text \<open>A hart runs a user program, spins on the lock, or is in the kernel with its view of the kernel state.\<close>

datatype 'd hart = In_user | Spinning | In_kernel "'d kernel"

text \<open>
  \<open>history\<close> is not part of the program: it lists the operations that harts have executed inside the
  kernel, by all harts, in the order of execution.
\<close>

record 'd smp =
  kernel_spin_lock :: lock_status_t
  shared :: "'d kernel"
  hart :: "nat \<Rightarrow> 'd hart"
  history :: "('d kernel \<Rightarrow> 'd kernel option) list"

definition enter_kernel :: "nat \<Rightarrow> 'd kernel \<Rightarrow> 'd kernel option" where
  "enter_kernel c s = Some (s\<lparr>cpu := c, current_running := runnings s ! c\<rparr>)"

text \<open>
  A trap, a round of spinning (which on success goes on with reading the kernel's variables), an
  operation of the kernel on the hart's view, a write-back, and \<^verbatim>\<open>ret_from_kernel\<close>, which has to have
  written everything back before it releases the lock.
\<close>

inductive smp_step :: "'d smp \<Rightarrow> 'd smp \<Rightarrow> bool" where
  Trap: "hart m c = In_user \<Longrightarrow> smp_step m (m\<lparr>hart := (hart m)(c := Spinning)\<rparr>)"
| Spin: "hart m c = Spinning \<Longrightarrow> lock_kernel_try (kernel_spin_lock m) = (False, l) \<Longrightarrow> smp_step m (m\<lparr>kernel_spin_lock := l\<rparr>)"
| Acquire: "hart m c = Spinning \<Longrightarrow> lock_kernel_try (kernel_spin_lock m) = (True, l) \<Longrightarrow> enter_kernel c (shared m) = Some v \<Longrightarrow>
    smp_step m (m\<lparr>kernel_spin_lock := l, hart := (hart m)(c := In_kernel v), history := history m @ [enter_kernel c]\<rparr>)"
| Work: "hart m c = In_kernel v \<Longrightarrow> f v = Some v' \<Longrightarrow>
    smp_step m (m\<lparr>hart := (hart m)(c := In_kernel v'), history := history m @ [f]\<rparr>)"
| Write_back: "hart m c = In_kernel v \<Longrightarrow> smp_step m (m\<lparr>shared := v\<rparr>)"
| Return: "hart m c = In_kernel v \<Longrightarrow>
    smp_step m (m\<lparr>shared := v, kernel_spin_lock := unlock_kernel (kernel_spin_lock m), hart := (hart m)(c := In_user)\<rparr>)"

definition smp_boot :: "'d kernel \<Rightarrow> 'd smp" where
  "smp_boot s = \<lparr>kernel_spin_lock = UNLOCKED, shared = s, hart = (\<lambda>_. In_user), history = []\<rparr>"

inductive smp_reachable :: "'d kernel \<Rightarrow> 'd smp \<Rightarrow> bool" for s0 :: "'d kernel" where
  Start: "smp_reachable s0 (smp_boot s0)"
| More: "smp_reachable s0 m \<Longrightarrow> smp_step m m' \<Longrightarrow> smp_reachable s0 m'"

text \<open>Executing operations one after the other, on one hart.\<close>

fun run :: "('s \<Rightarrow> 's option) list \<Rightarrow> 's \<Rightarrow> 's option" where
  "run [] s = Some s"
| "run (f # fs) s = do { s1 \<leftarrow> f s; run fs s1 }"

lemma run_append: "run (fs @ gs) s = do { s1 \<leftarrow> run fs s; run gs s1 }"
  by (induction fs arbitrary: s) (auto split: bind_splits)

definition in_kernel :: "'d smp \<Rightarrow> nat set" where
  "in_kernel m = {c. \<exists>v. hart m c = In_kernel v}"

section \<open>The invariant\<close>

definition smp_inv :: "'d kernel \<Rightarrow> 'd smp \<Rightarrow> bool" where
  "smp_inv s0 m \<longleftrightarrow>
     (case kernel_spin_lock m of
        UNLOCKED \<Rightarrow> in_kernel m = {} \<and> run (history m) s0 = Some (shared m)
      | LOCKED \<Rightarrow> (\<exists>c v. in_kernel m = {c} \<and> hart m c = In_kernel v \<and> run (history m) s0 = Some v))"

lemma smp_inv_locked:
  assumes "smp_inv s0 m" "hart m c = In_kernel v"
  shows "kernel_spin_lock m = LOCKED" "in_kernel m = {c}" "run (history m) s0 = Some v"
proof -
  have c: "c \<in> in_kernel m" using assms(2) by (auto simp: in_kernel_def)
  then show l: "kernel_spin_lock m = LOCKED" using assms(1) by (auto simp: smp_inv_def split: lock_status_t.splits)
  then obtain c' v' where "in_kernel m = {c'}" "hart m c' = In_kernel v'" "run (history m) s0 = Some v'"
    using assms(1) by (auto simp: smp_inv_def)
  then show "in_kernel m = {c}" "run (history m) s0 = Some v" using c assms(2) by auto
qed

lemma smp_inv_lockedI:
  "kernel_spin_lock m = LOCKED \<Longrightarrow> in_kernel m = {c} \<Longrightarrow> hart m c = In_kernel v \<Longrightarrow> run (history m) s0 = Some v \<Longrightarrow> smp_inv s0 m"
  by (auto simp: smp_inv_def)

lemma smp_step_inv:
  assumes "smp_step m m'" "smp_inv s0 m"
  shows "smp_inv s0 m'"
  using assms
proof cases
  case (Trap c)
  have n: "in_kernel m' = in_kernel m" using Trap by (auto simp: in_kernel_def)
  show ?thesis
  proof (cases "kernel_spin_lock m")
    case UNLOCKED
    then show ?thesis using assms(2) Trap(1) n by (simp add: smp_inv_def)
  next
    case LOCKED
    then obtain d v where d: "in_kernel m = {d}" "hart m d = In_kernel v" "run (history m) s0 = Some v"
      using assms(2) by (auto simp: smp_inv_def)
    then have "hart m' d = In_kernel v" using Trap by auto
    then show ?thesis using d(1,3) n LOCKED Trap(1) by (intro smp_inv_lockedI [of _ d v]) simp_all
  qed
next
  case (Spin c l)
  then have "kernel_spin_lock m = LOCKED" "l = LOCKED" by (auto simp: lock_kernel_try_def spin_lock_try_acquire_def)
  then have "m' = m" using Spin(1) by simp
  then show ?thesis using assms(2) by simp
next
  case (Acquire c l v)
  then have u: "kernel_spin_lock m = UNLOCKED" "l = LOCKED"
    using lock_status_t.exhaust by (auto simp: lock_kernel_try_def spin_lock_try_acquire_def)
  then have "in_kernel m = {}" "run (history m) s0 = Some (shared m)" using assms(2) by (simp_all add: smp_inv_def)
  moreover from this(1) have "in_kernel m' = {c}" using Acquire(1) by (auto simp: in_kernel_def)
  ultimately show ?thesis using Acquire u by (intro smp_inv_lockedI [of _ c v]) (simp_all add: run_append)
next
  case (Work c v f v')
  note i = smp_inv_locked [OF assms(2) Work(2)]
  have "in_kernel m' = {c}" using i(2) Work(1) by (auto simp: in_kernel_def)
  then show ?thesis using i Work by (intro smp_inv_lockedI [of _ c v']) (simp_all add: run_append)
next
  case (Write_back c v)
  note i = smp_inv_locked [OF assms(2) Write_back(2)]
  then show ?thesis using Write_back by (intro smp_inv_lockedI [of _ c v]) (simp_all add: in_kernel_def)
next
  case (Return c v)
  note i = smp_inv_locked [OF assms(2) Return(2)]
  have "in_kernel m' = {}" using i(2) Return(1) by (auto simp: in_kernel_def)
  then show ?thesis using i(3) Return(1) by (simp add: smp_inv_def unlock_kernel_def spin_lock_release_def)
qed

lemma smp_reachable_inv: "smp_reachable s0 m \<Longrightarrow> smp_inv s0 m"
proof (induction rule: smp_reachable.induct)
  case Start
  then show ?case by (simp add: smp_boot_def smp_inv_def in_kernel_def)
next
  case (More m m')
  then show ?case using smp_step_inv by blast
qed

text \<open>
  C5: The kernel lock makes the kernel sequential. However traps, spinning, kernel operations, write-backs and returns
  of the harts interleave, never are two harts inside the kernel, and what the kernel variables hold is
  the result of executing all kernel operations of all harts one after the other, none lost: the hart
  inside sees it, and when no hart is inside, memory holds it. A spinning hart gets in with its next
  exchange once no hart is inside.
\<close>

theorem kernel_lock_serializes:
  assumes "smp_reachable s0 m"
  shows "(\<forall>c d. c \<in> in_kernel m \<longrightarrow> d \<in> in_kernel m \<longrightarrow> c = d) \<and>
    (\<forall>c v. hart m c = In_kernel v \<longrightarrow> run (history m) s0 = Some v) \<and>
    (in_kernel m = {} \<longrightarrow> run (history m) s0 = Some (shared m) \<and> fst (lock_kernel_try (kernel_spin_lock m)))"
proof -
  have i: "smp_inv s0 m" using assms by (rule smp_reachable_inv)
  then have "c = d" if "c \<in> in_kernel m" "d \<in> in_kernel m" for c d
    using that by (auto simp: smp_inv_def split: lock_status_t.splits)
  moreover have "run (history m) s0 = Some v" if "hart m c = In_kernel v" for c v
    using smp_inv_locked(3) [OF i that] .
  moreover have "run (history m) s0 = Some (shared m)" "fst (lock_kernel_try (kernel_spin_lock m))" if "in_kernel m = {}"
    using i that by (auto simp: smp_inv_def lock_kernel_try_def spin_lock_try_acquire_def split: lock_status_t.splits)
  ultimately show ?thesis by blast
qed

text \<open>Hart 1 enters while hart 0 spins; then hart 0 gets in.\<close>

theorem kernel_lock_serializes_witness:
  "\<exists>m :: unit smp. smp_reachable (kernel_boot 2 ()) m \<and> in_kernel m = {1} \<and> hart m 0 = Spinning \<and>
    run (history m) (kernel_boot 2 ()) = enter_kernel 1 (kernel_boot 2 ())"
proof -
  let ?s = "kernel_boot 2 ()" and ?ma = "smp_boot (kernel_boot 2 ())"
  let ?mb = "?ma\<lparr>hart := (hart ?ma)(0 := Spinning)\<rparr>"
  let ?mc = "?mb\<lparr>hart := (hart ?mb)(1 := Spinning)\<rparr>"
  let ?v = "the (enter_kernel 1 ?s)"
  let ?m = "?mc\<lparr>kernel_spin_lock := LOCKED, hart := (hart ?mc)(1 := In_kernel ?v), history := history ?mc @ [enter_kernel 1]\<rparr>"
  have a: "smp_step ?ma ?mb" by (rule smp_step.Trap) (simp add: smp_boot_def)
  have b: "smp_step ?mb ?mc" by (rule smp_step.Trap) (simp add: smp_boot_def)
  have c: "smp_step ?mc ?m"
    by (rule smp_step.Acquire) (simp_all add: smp_boot_def enter_kernel_def lock_kernel_try_def spin_lock_try_acquire_def)
  have r: "smp_reachable ?s ?m"
    by (rule smp_reachable.More [OF smp_reachable.More [OF smp_reachable.More [OF smp_reachable.Start a] b] c])
  have h: "hart ?m 1 = In_kernel ?v" "hart ?m 0 = Spinning" by simp_all
  have i: "1 \<in> in_kernel ?m" unfolding in_kernel_def using h(1) by blast
  then have "in_kernel ?m = {1}" "run (history ?m) ?s = Some ?v" using kernel_lock_serializes [OF r] h(1) by blast+
  then show ?thesis using r h(2) by (intro exI [of _ ?m]) (simp add: enter_kernel_def)
qed

section \<open>Starting the second hart\<close>

text \<open>
  One round of \<^verbatim>\<open>slave_wait_for_task\<close>: \<open>None\<close> when fewer than two processes are in the ready queue, and
  the hart gives the lock back and tries again; else the second process of the queue becomes the
  current one of hart 1. A node of the ready queue that is not a process would be a corrupted queue.
\<close>

definition slave_wait_for_task :: "('d, 'a) kernel_scheme \<Rightarrow> ('d, 'a) kernel_scheme option" where
  "slave_wait_for_task s =
     (let first = nxt (lnk s) Ready_queue
      in if is_queue_empty Ready_queue (lnk s) \<or> nxt (lnk s) first = Ready_queue then None
         else case nxt (lnk s) first of
           Pcb_list p \<Rightarrow> Some (upd_pcb p (\<lambda>q. q\<lparr>status := TASK_RUNNING\<rparr>) (s\<lparr>runnings := (runnings s)[1 := p], current_running := p\<rparr>))
         | _ \<Rightarrow> None)"

text \<open>
  While hart 0 runs the first process of the ready queue, the second hart starts on another one, and
  the scheduling invariant holds from then on.
\<close>

lemma slave_starts:
  fixes s :: "('d, 'a) kernel_scheme"
  assumes inv: "sched_inv H Q s" and q: "Q Ready_queue = pcb_nodes (a # b # ps)" and r: "runnings s = [Pcb a, Pid0_pcb2]" and c: "cpu s = 1"
  shows "\<exists>s'. slave_wait_for_task s = Some s' \<and> sched_inv H Q s' \<and> runnings s' = [Pcb a, Pcb b]"
proof -
  have k: "kq H Q s" using sched_invD(1) [OF inv] .
  have qs: "queues H (lnk s) Q" and H: "Ready_queue \<in> H" using kqD(1,2) [OF k] by simp_all
  have iq: "is_queue (lnk s) Ready_queue (Pcb_list (Pcb a) # Pcb_list (Pcb b) # pcb_nodes ps)"
    using qs H q by (auto simp: queues_def)
  have n1: "nxt (lnk s) Ready_queue = Pcb_list (Pcb a)" using iq by (simp add: is_queue_def)
  have n2: "nxt (lnk s) (Pcb_list (Pcb a)) = Pcb_list (Pcb b)" using iq by (simp add: is_queue_def)
  define s' where "s' = upd_pcb (Pcb b) (\<lambda>q. q\<lparr>status := TASK_RUNNING\<rparr>) (s\<lparr>runnings := [Pcb a, Pcb b], current_running := Pcb b\<rparr>)"
  have e: "slave_wait_for_task s = Some s'"
    using n1 n2 r by (simp add: slave_wait_for_task_def is_queue_empty_def Let_def s'_def)
  have st: "status (pcb s' (Pcb i)) = (if i = b then TASK_RUNNING else status (pcb s (Pcb i)))" for i
    by (simp add: s'_def upd_pcb_def)
  have ab: "a \<noteq> b" using iq by (simp add: is_queue_def)
  have other: "Pcb_list (Pcb b) \<notin> set (Q h)" if "h \<in> H" "h \<noteq> Ready_queue" for h
  proof -
    have "set (h # Q h) \<inter> set (Ready_queue # Q Ready_queue) = {}" using qs H that unfolding queues_def by blast
    then show ?thesis using q by auto
  qed
  have "sched_inv H Q s'"
  proof (rule sched_invI)
    show "kq H Q s'" using k by (subst kq_cong) (simp_all add: s'_def upd_pcb_def)
    show "status_ok H Q s'" using sched_invD(2) [OF inv] other unfolding status_ok_def st by (auto split: if_splits)
    show "hart_ok Q s' 0" using sched_invD(6) [OF inv] r ab by (simp add: hart_ok_def s'_def upd_pcb_def)
    show "hart_ok Q s' 1" using q by (simp add: hart_ok_def s'_def upd_pcb_def)
    show "Pcb i \<in> set (runnings s')" if "Pcb_list (Pcb i) \<in> set (Q Ready_queue)" "status (pcb s' (Pcb i)) = TASK_RUNNING" for i
      using sched_invD(9) [OF inv that(1)] that(2) r unfolding st by (auto simp: s'_def upd_pcb_def split: if_splits)
  qed (use c ab in \<open>simp_all add: s'_def upd_pcb_def\<close>)
  then show ?thesis using e by (auto simp: s'_def upd_pcb_def)
qed

end
