(* ===== verification/Boot.thy ===== *)
theory Boot
  imports Process
begin

text \<open>
  The boot stage and the kernel's own page table: \<open>src/arch/riscv/kernel/boot.c\<close>, \<^verbatim>\<open>unmap_boot_page\<close> and
  \<^verbatim>\<open>init_pcb\<close> of \<open>src/init/main.c\<close>, and \<open>src/kernel/mm/ioremap.c\<close>. Before paging is on, addresses are
  physical: the boot stage works on physical memory. The loops over fixed address ranges run once per
  large page; their counts are (0xffffffc060000000 - 0xffffffc050000000) / 0x200000 = 128 and
  (0x51000000 - 0x50000000) / 0x200000 = 8.
\<close>

section \<open>The boot stage\<close>

record boot =
  pmem :: "u64 \<Rightarrow> u64"
  pg_base :: u64
  boot_satp :: u64

definition PGDIR_PA :: u64 where "PGDIR_PA = 0x51000000"

definition pstore :: "u64 \<Rightarrow> u64 \<Rightarrow> boot \<Rightarrow> boot" where
  "pstore a v b = b\<lparr>pmem := (pmem b)(a := v)\<rparr>"

definition boot_clear_pgdir :: "u64 \<Rightarrow> boot \<Rightarrow> boot" where
  "boot_clear_pgdir pgd b = fold (\<lambda>i. pstore (entry pgd i) 0) [0..<512] b"

definition alloc_page :: "boot \<Rightarrow> u64 \<times> boot" where
  "alloc_page b = (let p = pg_base b + 0x1000 in (p, b\<lparr>pg_base := p\<rparr>))"

definition map_page :: "u64 \<Rightarrow> u64 \<Rightarrow> u64 \<Rightarrow> boot \<Rightarrow> boot" where
  "map_page va0 pa pgd b =
     (let va = va0 AND VA_MASK;
          vpn2 = drop_bit 30 va;
          vpn1 = push_bit 9 vpn2 XOR drop_bit 21 va;
          e2 = entry pgd (unat vpn2);
          b1 = (if pmem b e2 = 0
                then let (p, t1) = alloc_page b;
                         t2 = pstore e2 (set_pfn (drop_bit 12 p)) t1;
                         t3 = pstore e2 (set_attribute (pmem t2 e2) PAGE_PRESENT) t2
                     in boot_clear_pgdir (get_pa (pmem t3 e2)) t3
                else b);
          e1 = entry (get_pa (pmem b1 e2)) (unat vpn1);
          b2 = pstore e1 (set_pfn (drop_bit 12 pa)) b1
      in pstore e1 (set_attribute (pmem b2 e1)
           (PAGE_PRESENT OR PAGE_READ OR PAGE_WRITE OR PAGE_EXEC OR PAGE_ACCESSED OR PAGE_DIRTY)) b2)"

fun map_pages :: "nat \<Rightarrow> u64 \<Rightarrow> (u64 \<Rightarrow> u64) \<Rightarrow> u64 \<Rightarrow> boot \<Rightarrow> boot" where
  "map_pages 0 va f pgd b = b"
| "map_pages (Suc n) va f pgd b = map_pages n (va + 0x200000) f pgd (map_page va (f va) pgd b)"

definition enable_vm :: "boot \<Rightarrow> boot" where
  "enable_vm b = b\<lparr>boot_satp := satp_value 8 0 (drop_bit 12 PGDIR_PA)\<rparr>"

definition setup_vm :: "boot \<Rightarrow> boot" where
  "setup_vm b = enable_vm (map_pages 8 0x50000000 id PGDIR_PA
     (map_pages 128 0xffffffc050000000 kva2pa PGDIR_PA (boot_clear_pgdir PGDIR_PA b)))"

text \<open>\<^verbatim>\<open>boot_kernel\<close> up to the jump to the kernel's entry point.\<close>

definition boot_kernel :: "u64 \<Rightarrow> boot \<Rightarrow> boot" where
  "boot_kernel mhartid b =
     (if mhartid = 0 then setup_vm b else enable_vm (map_pages 8 0x50000000 id PGDIR_PA b))"

section \<open>The kernel's page table\<close>

definition unmap_boot_page :: "('d, 'a) mm_state_scheme \<Rightarrow> ('d, 'a) mm_state_scheme" where
  "unmap_boot_page s =
     (let pmd = pa2kva (get_pa (mem s (entry PGDIR_VA 1)))
      in store (entry PGDIR_VA 1) 0 (clear_pgdir pmd s))"

text \<open>The variables \<^verbatim>\<open>pg_base\<close> and \<^verbatim>\<open>io_base\<close> next to the kernel's.\<close>

record 'd ioremap_state = "'d kernel" +
  kernel_pg_base :: u64
  io_base :: u64

definition alloc_kernel_pgtable_page :: "('d, 'a) ioremap_state_scheme \<Rightarrow> u64 \<times> ('d, 'a) ioremap_state_scheme" where
  "alloc_kernel_pgtable_page s = (let p = kernel_pg_base s + PAGE_SIZE in (p, s\<lparr>kernel_pg_base := p\<rparr>))"

definition io_table :: "u64 \<Rightarrow> ('d, 'a) ioremap_state_scheme \<Rightarrow> ('d, 'a) ioremap_state_scheme" where
  "io_table e s =
     (if mem s e = 0
      then let (p, s1) = alloc_kernel_pgtable_page s;
               s2 = store e (set_pfn (drop_bit 12 p)) s1;
               s3 = store e (set_attribute (mem s2 e) PAGE_PRESENT) s2
           in clear_pgdir (pa2kva (get_pa (mem s3 e))) s3
      else s)"

definition map_va_to_io_pa :: "u64 \<Rightarrow> u64 \<Rightarrow> ('d, 'a) ioremap_state_scheme \<Rightarrow> ('d, 'a) ioremap_state_scheme" where
  "map_va_to_io_pa va pa s =
     (let e2 = entry PGDIR_VA (vpn2_of va);
          s1 = io_table e2 s;
          e1 = entry (table_of (mem s1 e2)) (vpn1_of va);
          s2 = io_table e1 s1;
          e0 = entry (table_of (mem s2 e1)) (vpn0_of va);
          s3 = store e0 (set_pfn (drop_bit 12 pa)) s2
      in store e0 (set_attribute (mem s3 e0) (PAGE_PRESENT OR PAGE_READ OR PAGE_WRITE OR PAGE_EXEC OR PAGE_USER)) s3)"

text \<open>The loop over the region; a region does not reach the end of the 64-bit address space.\<close>

function ioremap_loop :: "u64 \<Rightarrow> nat \<Rightarrow> nat \<Rightarrow> ('d, 'a) ioremap_state_scheme \<Rightarrow> ('d, 'a) ioremap_state_scheme" where
  "ioremap_loop phys_addr sz n s =
     (if sz < n then ioremap_loop phys_addr (sz + 4096) n (map_va_to_io_pa (io_base s + of_nat sz) (phys_addr + of_nat sz) s) else s)"
  by pat_completeness auto
termination
  by (relation "measure (\<lambda>(a, sz, n, s). n - sz)") auto

declare ioremap_loop.simps [simp del]

definition ioremap :: "u64 \<Rightarrow> u64 \<Rightarrow> ('d, 'a) ioremap_state_scheme \<Rightarrow> u64 \<times> ('d, 'a) ioremap_state_scheme" where
  "ioremap phys_addr sz s =
     (let s1 = ioremap_loop phys_addr 0 (unat sz) s
      in (io_base s1, s1\<lparr>io_base := io_base s1 + sz\<rparr>))"

section \<open>The first processes\<close>

text \<open>
  \<^verbatim>\<open>init_pcb\<close>: the kernel stacks of the idle tasks, their names, the unused slots of the process table
  and the shell, which becomes the process of hart 0. \<^verbatim>\<open>create_pcb\<close> returning \<^verbatim>\<open>NULL\<close> is a null pointer
  access (\<open>None\<close>).
\<close>

definition clear_pid :: "nat \<Rightarrow> ('d, 'a) kernel_scheme \<Rightarrow> ('d, 'a) kernel_scheme" where
  "clear_pid i s = upd_pcb (Pcb i) (\<lambda>q. q\<lparr>pid := 0\<rparr>) s"

definition init_pcb :: "'d sdcard \<Rightarrow> ('d, 'a) kernel_scheme \<Rightarrow> ('d, 'a) kernel_scheme option" where
  "init_pcb B s = do {
     let (k1, s1) = kalloc s;
     let s2 = upd_pcb Pid0_pcb (\<lambda>q. q\<lparr>kernel_sp := k1 + PAGE_SIZE - 288\<rparr>) s1;
     let (k2, s3) = kalloc s2;
     let s4 = upd_pcb Pid0_pcb2 (\<lambda>q. q\<lparr>kernel_sp := k2 + PAGE_SIZE - 288\<rparr>) s3;
     n1 \<leftarrow> strcpy (pname (pcb s4 Pid0_pcb)) (cstr ''pid0_pcb'');
     n2 \<leftarrow> strcpy (pname (pcb s4 Pid0_pcb2)) (cstr ''pid0_pcb2'');
     let s5 = upd_pcb Pid0_pcb2 (\<lambda>q. q\<lparr>pname := n2\<rparr>) (upd_pcb Pid0_pcb (\<lambda>q. q\<lparr>pname := n1\<rparr>) s4);
     (if tasks_num s5 < 0 then None else do {
        let s6 = fold clear_pid [nat (tasks_num s5)..<16] s5;
        (r, s7) \<leftarrow> create_pcb B (cstr ''shell'') s6;
        (case r of
           None \<Rightarrow> None
         | Some p \<Rightarrow> do {
             let s8 = upd_pcb p (\<lambda>q. q\<lparr>status := TASK_RUNNING\<rparr>) s7;
             (case nxt (lnk s8) Ready_queue of
                Pcb_list q \<Rightarrow> Some (s8\<lparr>runnings := (runnings s8)[0 := q], current_running := q\<rparr>)
              | _ \<Rightarrow> None)
           })
      })
   }"

end
