(* ===== verification/Boot_Laws.thy ===== *)
theory Boot_Laws
  imports Boot MM_Table
begin

text \<open>
  The address space the boot stage builds, as the memory management unit sees it: \<open>sv39_walk\<close> is the
  walk of the privileged architecture's Sv39 scheme over physical memory.
\<close>

section \<open>The memory management unit\<close>

definition vpn_at :: "nat \<Rightarrow> u64 \<Rightarrow> nat" where
  "vpn_at l va = (if l = 0 then vpn0_of va else if l = 1 then vpn1_of va else vpn2_of va)"

text \<open>An entry with one of the read, write and execute bits is a leaf.\<close>

fun sv39_walk :: "(u64 \<Rightarrow> u64) \<Rightarrow> nat \<Rightarrow> u64 \<Rightarrow> u64 \<Rightarrow> u64 option" where
  "sv39_walk m l t va =
     (let e = m (entry t (vpn_at l va)) in
      if \<not> bit e 0 then None
      else if e AND 14 \<noteq> 0 then Some (get_pa e + take_bit (12 + 9 * l) va)
      else (case l of 0 \<Rightarrow> None | Suc l' \<Rightarrow> sv39_walk m l' (get_pa e) va))"

declare sv39_walk.simps [simp del]

definition mmu_translate :: "u64 \<Rightarrow> (u64 \<Rightarrow> u64) \<Rightarrow> u64 \<Rightarrow> u64 option" where
  "mmu_translate sat m va = sv39_walk m 2 (push_bit 12 (take_bit 44 sat)) va"

section \<open>Entries and indices\<close>

abbreviation large_attr :: u64 where
  "large_attr \<equiv> PAGE_PRESENT OR PAGE_READ OR PAGE_WRITE OR PAGE_EXEC OR PAGE_ACCESSED OR PAGE_DIRTY"

definition large_entry :: "u64 \<Rightarrow> u64" where
  "large_entry pa = set_attribute (set_pfn (drop_bit 12 pa)) large_attr"

definition dir_entry :: "u64 \<Rightarrow> u64" where
  "dir_entry p = set_attribute (set_pfn (drop_bit 12 p)) PAGE_PRESENT"

lemma vpn1_xor: "push_bit 9 (drop_bit 30 x) XOR drop_bit 21 x = drop_bit 21 x AND mask 9" for x :: u64
proof (rule bit_eqI)
  fix n :: nat
  show "bit (push_bit 9 (drop_bit 30 x) XOR drop_bit 21 x) n = bit (drop_bit 21 x AND mask 9) n"
  proof (cases "n < 9")
    case True
    then show ?thesis by (simp add: bit_xor_iff bit_push_bit_iff bit_drop_bit_eq bit_and_iff bit_mask_iff)
  next
    case False
    then have n: "30 + (n - 9) = 21 + n" by simp
    show ?thesis using False bit_imp_le_length [of x "21 + n"]
      by (auto simp: bit_xor_iff bit_push_bit_iff bit_drop_bit_eq bit_and_iff bit_mask_iff n)
  qed
qed

lemma vpn_nat:
  "vpn2_of va = unat va mod 2 ^ 39 div 2 ^ 30"
  "vpn1_of va = unat va mod 2 ^ 39 div 2 ^ 21 mod 512"
proof -
  have m: "unat (va AND mask 39) = unat va mod 2 ^ 39"
    by (simp only: take_bit_eq_mask [symmetric] unsigned_take_bit_eq) (simp add: take_bit_eq_mod)
  then show "vpn2_of va = unat va mod 2 ^ 39 div 2 ^ 30"
    unfolding vpn2_of_def VA_MASK_def unat_drop_bit_eq by (simp add: drop_bit_eq_div)
  show "vpn1_of va = unat va mod 2 ^ 39 div 2 ^ 21 mod 512" 
    using m unfolding vpn1_of_def VA_MASK_def
    by (simp only: take_bit_eq_mask [symmetric] unsigned_take_bit_eq unat_drop_bit_eq)
      (simp add: take_bit_eq_mod drop_bit_eq_div)
qed

lemma vpn2_bound: "vpn2_of u < 512"
  by (simp add: vpn_nat less_mult_imp_div_less)

lemma entry_of:
  assumes "pa AND mask 12 = 0" "pa AND NOT (mask 56) = 0"
  shows "large_entry pa \<noteq> 0" "get_pa (large_entry pa) = pa" "bit (large_entry pa) 0" "large_entry pa AND 14 \<noteq> 0"
    "dir_entry pa \<noteq> 0" "get_pa (dir_entry pa) = pa"
proof -
  have at: "large_attr AND NOT (mask 10) = 0" "bit large_attr 0" "bit large_attr 1"
    by (simp_all add: PAGE_PRESENT_def PAGE_READ_def PAGE_WRITE_def PAGE_EXEC_def PAGE_ACCESSED_def PAGE_DIRTY_def
        mask_eq_exp_minus_1 bit_1_iff)
  show "get_pa (large_entry pa) = pa" "get_pa (dir_entry pa) = pa"
    using get_pa_of_entry [OF assms at(1)] get_pa_of_entry [OF assms attr_bits(1)]
    by (simp_all add: large_entry_def dir_entry_def)
  show b: "bit (large_entry pa) 0" using at by (simp add: large_entry_def set_attribute_def bit_or_iff)
  show "large_entry pa \<noteq> 0" using b by auto
  have "bit (dir_entry pa) 0" using attr_bits(2) by (simp add: dir_entry_def set_attribute_def bit_or_iff)
  then show "dir_entry pa \<noteq> 0" by auto
  have "bit (large_entry pa) 1" using at(3) by (simp add: large_entry_def set_attribute_def bit_or_iff)
  moreover have "bit (14 :: u64) 1" by (simp add: bit_numeral_rec)
  ultimately have "bit (large_entry pa AND 14) 1" by (simp add: bit_and_iff)
  then show "large_entry pa AND 14 \<noteq> 0" by auto
qed

section \<open>Mapping one large page\<close>

lemma pstore_simps [simp]:
  "pmem (pstore a v b) = (pmem b)(a := v)" "pg_base (pstore a v b) = pg_base b" "boot_satp (pstore a v b) = boot_satp b"
  "pstore a v (pstore a w b) = pstore a v b"
  by (simp_all add: pstore_def)

lemma boot_clear_pgdir_other [simp]:
  "pg_base (boot_clear_pgdir p b) = pg_base b" "boot_satp (boot_clear_pgdir p b) = boot_satp b"
proof -
  have "pg_base (fold (\<lambda>i. pstore (entry p i) 0) is b) = pg_base b \<and>
      boot_satp (fold (\<lambda>i. pstore (entry p i) 0) is b) = boot_satp b" for "is"
    by (induction "is" arbitrary: b) simp_all
  then show "pg_base (boot_clear_pgdir p b) = pg_base b" "boot_satp (boot_clear_pgdir p b) = boot_satp b"
    by (simp_all add: boot_clear_pgdir_def)
qed

lemma boot_clear_pgdir_mem:
  "pmem (boot_clear_pgdir p b) a = (if \<exists>k<512. a = entry p k then 0 else pmem b a)"
proof -
  have "pmem (fold (\<lambda>i. pstore (entry p i) 0) is b) a = (if \<exists>k\<in>set is. a = entry p k then 0 else pmem b a)" for "is"
    by (induction "is" arbitrary: b) auto
  from this [of "[0..<512]"] show ?thesis by (simp add: boot_clear_pgdir_def atLeast0LessThan lessThan_def Bex_def)
qed

lemma map_page_existing:
  assumes "pmem b (entry r (vpn2_of va)) \<noteq> 0"
    and "entry (get_pa (pmem b (entry r (vpn2_of va)))) (vpn1_of va) = a"
  shows "map_page va pa r b = pstore a (large_entry pa) b"
  using assms by (simp add: map_page_def Let_def vpn1_xor vpn2_of_def vpn1_of_def large_entry_def)

lemma map_page_new:
  assumes z: "pmem b (entry r (vpn2_of va)) = 0" and p: "p = pg_base b + 0x1000"
    and al: "page_aligned p" "page_aligned r" "p \<noteq> r" and pa: "p AND mask 12 = 0" "p AND NOT (mask 56) = 0"
  shows "map_page va x r b =
    pstore (entry p (vpn1_of va)) (large_entry x)
      (boot_clear_pgdir p (pstore (entry r (vpn2_of va)) (dir_entry p) (b\<lparr>pg_base := p\<rparr>)))"
proof -
  have ne: "entry r (vpn2_of va) \<noteq> entry p k" if "k < 512" for k
    using entry_eq_iff [OF al(2,1) vpn2_bound that] al(3) by simp
  define t where "t = boot_clear_pgdir p (pstore (entry r (vpn2_of va)) (dir_entry p) (b\<lparr>pg_base := p\<rparr>))"
  have e: "pmem t (entry r (vpn2_of va)) = dir_entry p"
    using ne by (auto simp: t_def boot_clear_pgdir_mem)
  have "map_page va x r b = map_page va x r t"
    using z entry_of(5) [OF pa] e unfolding map_page_def Let_def vpn2_of_def [symmetric]
    by (simp add: alloc_page_def Let_def p [symmetric] entry_of(6) [OF pa] t_def [symmetric] dir_entry_def [symmetric] vpn2_of_def [symmetric])
  also have "\<dots> = pstore (entry p (vpn1_of va)) (large_entry x) t"
    using entry_of(5) [OF pa] e by (intro map_page_existing) (simp_all add: entry_of(6) [OF pa])
  finally show ?thesis by (simp add: t_def)
qed

section \<open>Mapping a range\<close>

text \<open>The pages of a range lie next to each other in one second-level table.\<close>

definition range_at :: "u64 \<Rightarrow> nat \<Rightarrow> nat \<Rightarrow> nat \<Rightarrow> bool" where
  "range_at va n i j \<longleftrightarrow> j + n \<le> 512 \<and>
     (\<forall>k<n. vpn2_of (va + of_nat k * 0x200000) = i \<and> vpn1_of (va + of_nat k * 0x200000) = j + k)"

lemma range_at_Suc:
  assumes "range_at va (Suc n) i j"
  shows "vpn2_of va = i" "vpn1_of va = j" "j < 512" "range_at (va + 0x200000) n i (Suc j)"
proof -
  note r = assms [unfolded range_at_def]
  show "vpn2_of va = i" "vpn1_of va = j" "j < 512" using r by (auto dest: spec [of _ 0])
  have "va + 0x200000 + of_nat k * 0x200000 = va + of_nat (Suc k) * 0x200000" for k :: nat
    by (simp add: distrib_right)
  moreover have "vpn2_of (va + of_nat (Suc k) * 0x200000) = i \<and> vpn1_of (va + of_nat (Suc k) * 0x200000) = j + Suc k" if "k < n" for k
    using r that by blast
  ultimately show "range_at (va + 0x200000) n i (Suc j)" using r unfolding range_at_def
    by (metis add_Suc_shift)
qed

definition mapped_range :: "u64 \<Rightarrow> nat \<Rightarrow> nat \<Rightarrow> u64 \<Rightarrow> (u64 \<Rightarrow> u64) \<Rightarrow> (u64 \<Rightarrow> u64) \<Rightarrow> (u64 \<Rightarrow> u64) \<Rightarrow> bool" where
  "mapped_range p j n va f m m' \<longleftrightarrow>
     (\<forall>k<n. m' (entry p (j + k)) = large_entry (f (va + of_nat k * 0x200000))) \<and>
     (\<forall>a. (\<forall>k<n. a \<noteq> entry p (j + k)) \<longrightarrow> m' a = m a)"

lemma mapped_range_Suc:
  assumes R: "mapped_range p (Suc j) n (va + 0x200000) f (m(entry p j := large_entry (f va))) m'"
    and p: "page_aligned p" and j: "j + Suc n \<le> 512"
  shows "mapped_range p j (Suc n) va f m m'"
proof -
  note r = R [unfolded mapped_range_def]
  have first: "entry p j \<noteq> entry p (Suc j + k)" if "k < n" for k
    using entry_eq_iff [OF p p, of j "Suc j + k"] that j by simp
  have "m' (entry p (j + k)) = large_entry (f (va + of_nat k * 0x200000))" if k: "k < Suc n" for k
  proof (cases k)
    case 0
    have "m' (entry p j) = large_entry (f va)" using conjunct2 [OF r] first by (metis fun_upd_same)
    then show ?thesis using 0 by simp
  next
    case (Suc l)
    have "va + 0x200000 + of_nat l * 0x200000 = va + of_nat k * 0x200000" using Suc by (simp add: distrib_right)
    then show ?thesis using conjunct1 [OF r] k Suc by (metis Suc_less_eq add_Suc_shift)
  qed
  moreover have "m' a = m a" if "\<forall>k<Suc n. a \<noteq> entry p (j + k)" for a
  proof -
    have "a \<noteq> entry p j" "\<forall>k<n. a \<noteq> entry p (Suc j + k)"
      using that by (metis add_0_right zero_less_Suc, metis Suc_less_eq add_Suc_shift)
    then show ?thesis using conjunct2 [OF r] by (metis fun_upd_apply)
  qed
  ultimately show ?thesis by (simp add: mapped_range_def)
qed

lemma map_pages_existing:
  assumes "range_at va n i j" "pmem b (entry r i) = e" "e \<noteq> 0" "get_pa e = p"
    and al: "page_aligned p" "page_aligned r" "p \<noteq> r" "i < 512"
  shows "mapped_range p j n va f (pmem b) (pmem (map_pages n va f r b)) \<and>
    pg_base (map_pages n va f r b) = pg_base b \<and> boot_satp (map_pages n va f r b) = boot_satp b"
  using assms(1-4)
proof (induction n arbitrary: va j b)
  case 0
  then show ?case by (simp add: mapped_range_def)
next
  case (Suc n)
  note v = range_at_Suc [OF Suc.prems(1)]
  have one: "map_page va (f va) r b = pstore (entry p j) (large_entry (f va)) b"
    using Suc.prems v by (intro map_page_existing) simp_all
  have "entry r i \<noteq> entry p j" using entry_eq_iff [OF al(2,1,4) v(3)] al(3) by simp
  then have root: "pmem (map_page va (f va) r b) (entry r i) = e" using Suc.prems(2) one by simp
  have bd: "j + Suc n \<le> 512" using Suc.prems(1) by (simp add: range_at_def)
  note ih = Suc.IH [OF v(4) root Suc.prems(3,4)]
  have "mapped_range p j (Suc n) va f (pmem b) (pmem (map_pages (Suc n) va f r b))"
    using conjunct1 [OF ih] by (intro mapped_range_Suc [OF _ al(1) bd]) (simp only: one pstore_simps map_pages.simps)
  then show ?case using conjunct2 [OF ih] by (simp add: one)
qed

text \<open>The first page of a range brings its table with it.\<close>

lemma map_pages_new:
  fixes f :: "u64 \<Rightarrow> u64"
  assumes r: "range_at va (Suc n) i j" and z: "pmem b (entry r i) = 0" and p: "p = pg_base b + 0x1000"
    and al: "page_aligned p" "page_aligned r" "p \<noteq> r" "i < 512" and pa: "p AND mask 12 = 0" "p AND NOT (mask 56) = 0"
  defines "b' \<equiv> map_pages (Suc n) va f r b"
  shows "pmem b' (entry r i) = dir_entry p" (is ?d)
    and "\<And>k. k < 512 \<Longrightarrow> pmem b' (entry p k) =
      (if j \<le> k \<and> k \<le> j + n then large_entry (f (va + of_nat (k - j) * 0x200000)) else 0)" (is "\<And>k. _ \<Longrightarrow> ?t k")
    and "\<And>a. a \<noteq> entry r i \<Longrightarrow> page_no a \<noteq> page_no p \<Longrightarrow> pmem b' a = pmem b a" (is "\<And>a. _ \<Longrightarrow> _ \<Longrightarrow> ?o a")
    and "pg_base b' = p" "boot_satp b' = boot_satp b"
proof -
  note v = range_at_Suc [OF r]
  have bd: "j + Suc n \<le> 512" using r by (simp add: range_at_def)
  define t where "t = boot_clear_pgdir p (pstore (entry r i) (dir_entry p) (b\<lparr>pg_base := p\<rparr>))"
  have ne: "entry r i \<noteq> entry p k" if "k < 512" for k using entry_eq_iff [OF al(2,1,4) that] al(3) by simp
  have one: "map_page va (f va) r b = pstore (entry p j) (large_entry (f va)) t"
    using map_page_new [OF z [folded v(1)] p al(1-3) pa, of "f va"] v by (simp add: t_def)
  have td: "pmem t (entry r i) = dir_entry p" using ne by (auto simp: t_def boot_clear_pgdir_mem)
  have root: "pmem (map_page va (f va) r b) (entry r i) = dir_entry p" using td ne [OF v(3)] by (simp add: one)
  have b': "b' = map_pages n (va + 0x200000) f r (map_page va (f va) r b)" by (simp add: b'_def)
  note rest = map_pages_existing [OF v(4) root entry_of(5) [OF pa] entry_of(6) [OF pa] al, of f, folded b']
  have M: "mapped_range p j (Suc n) va f (pmem t) (pmem b')"
    using conjunct1 [OF rest] by (intro mapped_range_Suc [OF _ al(1) bd]) (simp only: one pstore_simps)
  note m = M [unfolded mapped_range_def]
  show ?d using conjunct2 [OF m] ne bd td by simp
  show "?t k" if "k < 512" for k
  proof (cases "j \<le> k \<and> k \<le> j + n")
    case True
    then have "k - j < Suc n" "k = j + (k - j)" by auto
    then show ?thesis using conjunct1 [OF m] True by metis
  next
    case False
    then have "\<forall>l<Suc n. entry p k \<noteq> entry p (j + l)" using entry_eq_iff [OF al(1,1) that] bd by auto
    moreover have "pmem t (entry p k) = 0" using that by (auto simp: t_def boot_clear_pgdir_mem)
    ultimately show ?thesis using conjunct2 [OF m] unfolding if_not_P [OF False] by metis
  qed
  show "?o a" if "a \<noteq> entry r i" "page_no a \<noteq> page_no p" for a
  proof -
    have "a \<noteq> entry p k" if "k < 512" for k using page_no_entry [OF al(1) that] \<open>page_no a \<noteq> page_no p\<close> by auto
    then have "pmem b' a = pmem t a" "pmem t a = pmem b a"
      using conjunct2 [OF m] bd \<open>a \<noteq> entry r i\<close> by (auto simp: t_def boot_clear_pgdir_mem)
    then show ?thesis by simp
  qed
  show "pg_base b' = p" "boot_satp b' = boot_satp b" using rest by (simp_all add: one t_def)
qed

section \<open>The two ranges of the boot stage\<close>

lemma unat_step:
  assumes "unat c + 0x200000 * k < 2 ^ 64"
  shows "unat (c + of_nat k * 0x200000 :: u64) = unat c + 0x200000 * k"
proof -
  have "c + of_nat k * 0x200000 = of_nat (unat c + 0x200000 * k)" by simp
  then have "unat (c + of_nat k * 0x200000) = take_bit 64 (unat c + 0x200000 * k)" by (simp only: unsigned_of_nat) simp
  also have "\<dots> = unat c + 0x200000 * k" using assms by (simp only: take_bit_nat_eq_self)
  finally show ?thesis .
qed

lemma vpn_of_nat:
  assumes "unat va = 2 ^ 39 * q + 2 ^ 30 * i + 2 ^ 21 * j + off" "i < 512" "j < 512" "off < 2 ^ 21"
  shows "vpn2_of va = i" "vpn1_of va = j"
proof -
  have m: "unat va mod 2 ^ 39 = 2 ^ 30 * i + 2 ^ 21 * j + off"
    using assms by (simp add: add.assoc)
  have "(2 ^ 30 * i + 2 ^ 21 * j + off) div 2 ^ 30 = i" using assms by (intro div_nat_eqI) simp_all
  then show "vpn2_of va = i" by (simp only: vpn_nat m)
  have "(2 ^ 30 * i + 2 ^ 21 * j + off) div 2 ^ 21 = 512 * i + j" using assms by (intro div_nat_eqI) simp_all
  then show "vpn1_of va = j" using assms(3) by (simp only: vpn_nat m) simp
qed

lemma kernel_range: "range_at 0xffffffc050000000 128 257 128"
  unfolding range_at_def
proof (intro conjI allI impI)
  fix k :: nat assume k: "k < 128"
  then have "unat (0xffffffc050000000 + of_nat k * 0x200000 :: u64) = 0xffffffc050000000 + 0x200000 * k"
    by (subst unat_step) simp_all
  then have u: "unat (0xffffffc050000000 + of_nat k * 0x200000 :: u64) =
      2 ^ 39 * 0x1ffffff + 2 ^ 30 * 257 + 2 ^ 21 * (128 + k) + 0" by simp
  show "vpn2_of (0xffffffc050000000 + of_nat k * 0x200000) = 257"
    "vpn1_of (0xffffffc050000000 + of_nat k * 0x200000) = 128 + k"
    using vpn_of_nat [OF u] k by simp_all
qed simp

lemma boot_range: "range_at 0x50000000 8 1 128"
  unfolding range_at_def
proof (intro conjI allI impI)
  fix k :: nat assume k: "k < 8"
  then have "unat (0x50000000 + of_nat k * 0x200000 :: u64) = 0x50000000 + 0x200000 * k"
    by (subst unat_step) simp_all
  then have u: "unat (0x50000000 + of_nat k * 0x200000 :: u64) = 2 ^ 39 * 0 + 2 ^ 30 * 1 + 2 ^ 21 * (128 + k) + 0" by simp
  show "vpn2_of (0x50000000 + of_nat k * 0x200000) = 1" "vpn1_of (0x50000000 + of_nat k * 0x200000) = 128 + k"
    using vpn_of_nat [OF u] k by simp_all
qed simp

abbreviation kernel_pmd :: u64 where "kernel_pmd \<equiv> 0x51001000"
abbreviation boot_pmd :: u64 where "boot_pmd \<equiv> 0x51002000"

lemma boot_tables:
  "page_aligned PGDIR_PA" "page_aligned kernel_pmd" "page_aligned boot_pmd"
  "kernel_pmd AND mask 12 = 0" "kernel_pmd AND NOT (mask 56) = 0"
  "boot_pmd AND mask 12 = 0" "boot_pmd AND NOT (mask 56) = 0"
  "page_no kernel_pmd \<noteq> page_no boot_pmd" "page_no PGDIR_PA \<noteq> page_no boot_pmd" "page_no PGDIR_PA \<noteq> page_no kernel_pmd"
  "kernel_pmd \<noteq> PGDIR_PA" "boot_pmd \<noteq> PGDIR_PA"
  by (simp_all add: page_aligned_def page_no_def PGDIR_PA_def mask_eq_exp_minus_1)

text \<open>The three tables after \<^verbatim>\<open>setup_vm\<close>.\<close>

lemma setup_vm_tables:
  fixes b :: boot
  assumes b: "pg_base b = PGDIR_PA"
  defines "m \<equiv> pmem (setup_vm b)"
  shows "i < 512 \<Longrightarrow> m (entry PGDIR_PA i) =
      (if i = 257 then dir_entry kernel_pmd else if i = 1 then dir_entry boot_pmd else 0)"
    and "j < 512 \<Longrightarrow> m (entry kernel_pmd j) =
      (if 128 \<le> j \<and> j < 256 then large_entry (0x50000000 + of_nat (j - 128) * 0x200000) else 0)"
    and "j < 512 \<Longrightarrow> m (entry boot_pmd j) =
      (if 128 \<le> j \<and> j < 136 then large_entry (0x50000000 + of_nat (j - 128) * 0x200000) else 0)"
proof -
  define b0 where "b0 = boot_clear_pgdir PGDIR_PA b"
  define b1 where "b1 = map_pages (Suc 127) 0xffffffc050000000 kva2pa PGDIR_PA b0"
  define b2 where "b2 = map_pages (Suc 7) 0x50000000 id PGDIR_PA b1"
  have m: "m = pmem b2" by (simp add: m_def setup_vm_def enable_vm_def b0_def b1_def b2_def)
  have z: "pmem b0 (entry PGDIR_PA i) = 0" if "i < 512" for i
    using that by (auto simp: b0_def boot_clear_pgdir_mem)
  have p1: "kernel_pmd = pg_base b0 + 0x1000" using b by (simp add: b0_def PGDIR_PA_def)
  have R1: "range_at 0xffffffc050000000 (Suc 127) 257 128" and R2: "range_at 0x50000000 (Suc 7) 1 128"
    using kernel_range boot_range by simp_all
  have z1: "pmem b0 (entry PGDIR_PA 257) = 0" using z by simp
  have l: "(257 :: nat) < 512" "(1 :: nat) < 512" by simp_all
  note one = map_pages_new [OF R1 z1 p1 boot_tables(2,1,11) l(1) boot_tables(4,5), where f = kva2pa, folded b1_def]
  have root: "page_no (entry PGDIR_PA i) = page_no PGDIR_PA" if "i < 512" for i using page_no_entry [OF boot_tables(1) that] .
  have other: "pmem b1 (entry PGDIR_PA i) = 0" if "i < 512" "i \<noteq> 257" for i
    using one(3) [of "entry PGDIR_PA i"] z [OF that(1)] root [OF that(1)] boot_tables(10)
      entry_eq_iff [OF boot_tables(1,1) that(1) l(1)] that(2) by simp
  have z2: "pmem b1 (entry PGDIR_PA 1) = 0" using other by simp
  have p2: "boot_pmd = pg_base b1 + 0x1000" using one(4) by simp
  note two = map_pages_new [OF R2 z2 p2 boot_tables(3,1,12) l(2) boot_tables(6,7), where f = id, folded b2_def, folded m]
  show "m (entry PGDIR_PA i) = (if i = 257 then dir_entry kernel_pmd else if i = 1 then dir_entry boot_pmd else 0)" if "i < 512"
    using two(1) two(3) [of "entry PGDIR_PA i"] one(1) other [OF that] root [OF that] boot_tables(9)
      entry_eq_iff [OF boot_tables(1,1) that l(2)] by auto
  show "m (entry kernel_pmd j) =
      (if 128 \<le> j \<and> j < 256 then large_entry (0x50000000 + of_nat (j - 128) * 0x200000) else 0)" if "j < 512"
  proof -
    have "page_no (entry kernel_pmd j) = page_no kernel_pmd" by (rule page_no_entry [OF boot_tables(2) that])
    moreover have "entry kernel_pmd j \<noteq> entry PGDIR_PA 1"
      using entry_eq_iff [OF boot_tables(2,1) that l(2)] boot_tables(11) by simp
    ultimately have "m (entry kernel_pmd j) = pmem b1 (entry kernel_pmd j)" using two(3) boot_tables(8) by metis
    then show ?thesis using one(2) [OF that] by (auto simp: kva2pa_def KERNEL_VM_OFFSET_def)
  qed
  show "m (entry boot_pmd j) =
      (if 128 \<le> j \<and> j < 136 then large_entry (0x50000000 + of_nat (j - 128) * 0x200000) else 0)" if "j < 512"
    using two(2) [OF that] by auto
qed

section \<open>Translation\<close>

text \<open>The tables of the kernel, with the identity mapping of the boot stage or without.\<close>

definition kernel_tables :: "bool \<Rightarrow> (u64 \<Rightarrow> u64) \<Rightarrow> bool" where
  "kernel_tables bt m \<longleftrightarrow>
     (\<forall>i<512. m (entry PGDIR_PA i) =
        (if i = 257 then dir_entry kernel_pmd else if i = 1 \<and> bt then dir_entry boot_pmd else 0)) \<and>
     (\<forall>j<512. m (entry kernel_pmd j) =
        (if 128 \<le> j \<and> j < 256 then large_entry (0x50000000 + of_nat (j - 128) * 0x200000) else 0)) \<and>
     (bt \<longrightarrow> (\<forall>j<512. m (entry boot_pmd j) =
        (if 128 \<le> j \<and> j < 136 then large_entry (0x50000000 + of_nat (j - 128) * 0x200000) else 0)))"

lemma large_frame:
  assumes "k < 128"
  defines "pa \<equiv> 0x50000000 + of_nat k * 0x200000 :: u64"
  shows "pa AND mask 12 = 0" "pa AND NOT (mask 56) = 0"
proof -
  have u: "unat pa = 0x50000000 + 0x200000 * k" unfolding pa_def using assms(1) by (subst unat_step) simp_all
  also have "\<dots> = 4096 * (0x50000 + 0x200 * k)" by simp
  finally have "unat pa mod 4096 = 0" by simp
  then show "pa AND mask 12 = 0" "pa AND NOT (mask 56) = 0"
    using frame_address [of pa] u assms(1) by simp_all
qed

lemma large_entries:
  assumes "k < 128"
  shows "get_pa (large_entry (0x50000000 + of_nat k * 0x200000)) = 0x50000000 + of_nat k * 0x200000"
    "bit (large_entry (0x50000000 + of_nat k * 0x200000)) 0" "large_entry (0x50000000 + of_nat k * 0x200000) AND 14 \<noteq> 0"
  using entry_of(2-4) [OF large_frame [OF assms]] by simp_all

lemma dir_entries:
  "bit (dir_entry kernel_pmd) 0" "dir_entry kernel_pmd AND 14 = 0" "bit (dir_entry boot_pmd) 0" "dir_entry boot_pmd AND 14 = 0"
  by (simp_all add: dir_entry_def set_attribute_def set_pfn_def PAGE_PRESENT_def drop_bit_eq_div push_bit_eq_mult)

lemma walk_tables:
  assumes t: "kernel_tables bt m"
  shows "sv39_walk m 2 PGDIR_PA va =
    (let j = vpn1_of va in
     if vpn2_of va = 257 \<and> 128 \<le> j \<and> j < 256 \<or> bt \<and> vpn2_of va = 1 \<and> 128 \<le> j \<and> j < 136
     then Some (0x50000000 + of_nat (j - 128) * 0x200000 + take_bit 21 va) else None)"
proof -
  have e2: "m (entry PGDIR_PA (vpn2_of va)) =
      (if vpn2_of va = 257 then dir_entry kernel_pmd else if vpn2_of va = 1 \<and> bt then dir_entry boot_pmd else 0)"
    using t vpn2_bound by (simp add: kernel_tables_def)
  have pmd: "sv39_walk m 1 p va =
      (if 128 \<le> vpn1_of va \<and> vpn1_of va < n then Some (0x50000000 + of_nat (vpn1_of va - 128) * 0x200000 + take_bit 21 va) else None)"
    if "n \<le> 256" "m (entry p (vpn1_of va)) = (if 128 \<le> vpn1_of va \<and> vpn1_of va < n
        then large_entry (0x50000000 + of_nat (vpn1_of va - 128) * 0x200000) else 0)" for p n
  proof (cases "128 \<le> vpn1_of va \<and> vpn1_of va < n")
    case True
    then have "vpn1_of va - 128 < 128" using that(1) by linarith
    note le = large_entries [OF this]
    have "m (entry p (vpn1_of va)) = large_entry (0x50000000 + of_nat (vpn1_of va - 128) * 0x200000)"
      using that(2) unfolding if_P [OF True] .
    then show ?thesis unfolding if_P [OF True] using le
      by (subst sv39_walk.simps) (simp only: vpn_at_def Let_def, simp)
  next
    case False
    then have "m (entry p (vpn1_of va)) = 0" using that(2) by (metis if_not_P)
    then show ?thesis unfolding if_not_P [OF False] by (subst sv39_walk.simps) (simp add: vpn_at_def Let_def)
  qed
  have top: "sv39_walk m 2 PGDIR_PA va = (if vpn2_of va = 257 then sv39_walk m 1 kernel_pmd va
      else if vpn2_of va = 1 \<and> bt then sv39_walk m 1 boot_pmd va else None)"
    by (subst sv39_walk.simps)
      (simp add: vpn_at_def Let_def e2 dir_entries numeral_2_eq_2 entry_of(6) [OF boot_tables(4,5)] entry_of(6) [OF boot_tables(6,7)])
  have "sv39_walk m 1 kernel_pmd va = (if 128 \<le> vpn1_of va \<and> vpn1_of va < 256
      then Some (0x50000000 + of_nat (vpn1_of va - 128) * 0x200000 + take_bit 21 va) else None)"
    using t vpn_bounds by (intro pmd) (simp_all add: kernel_tables_def)
  moreover have "sv39_walk m 1 boot_pmd va = (if 128 \<le> vpn1_of va \<and> vpn1_of va < 136
      then Some (0x50000000 + of_nat (vpn1_of va - 128) * 0x200000 + take_bit 21 va) else None)" if bt
    using t vpn_bounds that by (intro pmd) (simp_all add: kernel_tables_def)
  ultimately show ?thesis by (auto simp: top Let_def)
qed

text \<open>From indices to addresses.\<close>

lemma index_address:
  fixes x :: nat
  assumes "x < 2 ^ 39"
  defines "i \<equiv> x div 2 ^ 30" and "j \<equiv> x div 2 ^ 21 mod 512"
  shows "i = 257 \<and> 128 \<le> j \<and> j < 256 \<longleftrightarrow> 0x4050000000 \<le> x \<and> x < 0x4060000000"
    and "i = 1 \<and> 128 \<le> j \<and> j < 136 \<longleftrightarrow> 0x50000000 \<le> x \<and> x < 0x51000000"
    and "x = 2 ^ 30 * i + 2 ^ 21 * j + x mod 2 ^ 21"
proof -
  define w where "w = x div 2 ^ 21"
  have i: "i = w div 512" unfolding i_def w_def by (simp add: div_mult2_eq [symmetric])
  have j: "j = w mod 512" by (simp add: j_def w_def)
  have wij: "w = 512 * i + j" unfolding i j by simp
  have le: "c * 2 ^ 21 \<le> x \<longleftrightarrow> c \<le> w" for c unfolding w_def by (simp add: less_eq_div_iff_mult_less_eq)
  have lt: "x < c * 2 ^ 21 \<longleftrightarrow> w < c" for c using le [of c] by linarith
  have r: "i = a \<and> 128 \<le> j \<and> j < c \<longleftrightarrow> 512 * a + 128 \<le> w \<and> w < 512 * a + c" if "c \<le> 512" for a c
  proof
    assume "512 * a + 128 \<le> w \<and> w < 512 * a + c"
    moreover from this have "i = a" unfolding i using that by (intro div_nat_eqI) simp_all
    ultimately show "i = a \<and> 128 \<le> j \<and> j < c" using wij by simp
  qed (use wij in simp)
  show "i = 257 \<and> 128 \<le> j \<and> j < 256 \<longleftrightarrow> 0x4050000000 \<le> x \<and> x < 0x4060000000"
    using le [of "512 * 257 + 128"] lt [of "512 * 257 + 256"] r [of 256 257] by simp
  show "i = 1 \<and> 128 \<le> j \<and> j < 136 \<longleftrightarrow> 0x50000000 \<le> x \<and> x < 0x51000000"
    using le [of "512 * 1 + 128"] lt [of "512 * 1 + 136"] r [of 136 1] by simp
  have "x = 2 ^ 21 * w + x mod 2 ^ 21" unfolding w_def by simp
  with wij show "x = 2 ^ 30 * i + 2 ^ 21 * j + x mod 2 ^ 21" by simp
qed

lemma large_page_address:
  fixes va :: u64
  assumes "unat va = unat c + 0x40000000 + 2 ^ 21 * j + unat va mod 2 ^ 21" "128 \<le> j"
  shows "0x50000000 + of_nat (j - 128) * 0x200000 + take_bit 21 va = va - c"
proof -
  have "take_bit 21 va = of_nat (unat va mod 2 ^ 21)"
    by (metis of_nat_unat take_bit_eq_mod unsigned_take_bit_eq ucast_id)
  moreover have "va = of_nat (unat c + 0x40000000 + 2 ^ 21 * j + unat va mod 2 ^ 21)"
    using assms(1) by (metis of_nat_unat ucast_id)
  ultimately have "va = c + (0x40000000 + of_nat j * 0x200000 + take_bit 21 va)" by (simp add: add.assoc mult.commute)
  then have "va - c = 0x40000000 + of_nat j * 0x200000 + take_bit 21 va" by (metis add_diff_cancel_left')
  then show ?thesis using assms(2) by (simp add: of_nat_diff)
qed

lemma translate_tables:
  assumes t: "kernel_tables bt m" and va: "va < 0x4000000000 \<or> 0xffffffc000000000 \<le> va"
  shows "mmu_translate (boot_satp (enable_vm b)) m va =
    (if 0xffffffc050000000 \<le> va \<and> va < 0xffffffc060000000 then Some (kva2pa va)
     else if bt \<and> 0x50000000 \<le> va \<and> va < 0x51000000 then Some va else None)"
proof -
  have "push_bit 12 (take_bit 44 (boot_satp (enable_vm b))) = PGDIR_PA"
    by (simp add: enable_vm_def satp_value_def PGDIR_PA_def take_bit_eq_mask mask_eq_exp_minus_1)
  then have w: "mmu_translate (boot_satp (enable_vm b)) m va = sv39_walk m 2 PGDIR_PA va"
    by (simp add: mmu_translate_def)
  define x where "x = unat va mod 2 ^ 39"
  have x: "x < 2 ^ 39" by (simp add: x_def)
  have off: "x mod 2 ^ 21 = unat va mod 2 ^ 21" unfolding x_def by (simp add: mod_mod_cancel)
  note ix = index_address [OF x, folded vpn_nat [of va, folded x_def]]
  show ?thesis
  proof (cases "va < 0x4000000000")
    case True
    then have u: "unat va = x" by (simp add: x_def word_less_nat_alt)
    have nk: "\<not> 0x4050000000 \<le> x" "\<not> 0xffffffc050000000 \<le> va"
      using True u by (simp_all add: word_less_nat_alt word_le_nat_alt)
    have b: "0x50000000 \<le> va \<and> va < 0x51000000 \<longleftrightarrow> vpn2_of va = 1 \<and> 128 \<le> vpn1_of va \<and> vpn1_of va < 136"
      unfolding ix(2) by (simp add: word_less_nat_alt word_le_nat_alt u)
    have "0x50000000 + of_nat (vpn1_of va - 128) * 0x200000 + take_bit 21 va = va" if "vpn2_of va = 1" "128 \<le> vpn1_of va"
      using large_page_address [of va 0 "vpn1_of va"] ix(3) that off u by simp
    then show ?thesis unfolding w walk_tables [OF t] Let_def using ix(1) nk b by auto
  next
    case False
    then have ge: "0xffffffc000000000 \<le> unat va" using va by (simp add: word_le_nat_alt)
    have "unat va div 2 ^ 39 = 0x1ffffff" using ge unat64_less [of va] by (intro div_nat_eqI) simp_all
    then have u: "unat va = 0xffffff8000000000 + x"
      unfolding x_def using div_mult_mod_eq [of "unat va" "2 ^ 39"] by simp
    have x': "0x4000000000 \<le> x" using u ge by simp
    have nb: "\<not> (0x50000000 \<le> x \<and> x < 0x51000000)" "\<not> va < 0x51000000"
      using x' u by (simp_all add: word_less_nat_alt)
    have k: "0xffffffc050000000 \<le> va \<and> va < 0xffffffc060000000 \<longleftrightarrow> vpn2_of va = 257 \<and> 128 \<le> vpn1_of va \<and> vpn1_of va < 256"
      unfolding ix(1) by (auto simp: word_less_nat_alt word_le_nat_alt u)
    have "0x50000000 + of_nat (vpn1_of va - 128) * 0x200000 + take_bit 21 va = kva2pa va" if "vpn2_of va = 257" "128 \<le> vpn1_of va"
      using large_page_address [of va KERNEL_VM_OFFSET "vpn1_of va"] ix(3) that off u
      by (simp add: kva2pa_def KERNEL_VM_OFFSET_def)
    then show ?thesis unfolding w walk_tables [OF t] Let_def using ix(2) nb k by auto
  qed
qed

section \<open>The address space\<close>

lemma setup_vm_kernel_tables: "pg_base b = PGDIR_PA \<Longrightarrow> kernel_tables True (pmem (setup_vm b))"
  unfolding kernel_tables_def using setup_vm_tables [of b] by auto

lemma clear_pgdir_mem:
  "mem (clear_pgdir p s) a = (if \<exists>k<512. a = entry p k then 0 else mem s a)"
proof -
  have "mem (fold (\<lambda>i. store (entry p i) 0) is s) a = (if \<exists>k\<in>set is. a = entry p k then 0 else mem s a)" for "is"
    by (induction "is" arbitrary: s) (auto simp: store_def)
  from this [of "[0..<512]"] show ?thesis by (simp add: clear_pgdir_def atLeast0LessThan lessThan_def Bex_def)
qed

text \<open>The kernel sees physical memory at \<^verbatim>\<open>pa2kva\<close> of its addresses.\<close>

lemma unmap_boot_page_tables:
  assumes t: "kernel_tables True m" and s: "mem s = (\<lambda>a. m (kva2pa a))"
  shows "kernel_tables False (\<lambda>pa. mem (unmap_boot_page s) (pa2kva pa))"
proof -
  have va: "entry PGDIR_VA i = pa2kva (entry PGDIR_PA i)" "entry (pa2kva p) i = pa2kva (entry p i)" for p i
    by (simp_all add: entry_def pa2kva_def PGDIR_VA_def PGDIR_PA_def KERNEL_VM_OFFSET_def)
  have inj: "pa2kva a = pa2kva c \<longleftrightarrow> a = c" for a c by (simp add: pa2kva_def)
  have e: "m (entry PGDIR_PA 1) = dir_entry boot_pmd" using t by (simp add: kernel_tables_def)
  have M: "mem (unmap_boot_page s) (pa2kva pa) =
      (if pa = entry PGDIR_PA 1 \<or> (\<exists>k<512. pa = entry boot_pmd k) then 0 else m pa)" for pa
    by (simp add: unmap_boot_page_def Let_def store_def va s e [unfolded One_nat_def] entry_of(6) [OF boot_tables(6,7)] clear_pgdir_mem inj) blast
  have "entry PGDIR_PA i \<noteq> entry boot_pmd k" "entry kernel_pmd i \<noteq> entry boot_pmd k" "entry kernel_pmd i \<noteq> entry PGDIR_PA 1"
    "entry PGDIR_PA i = entry PGDIR_PA 1 \<longleftrightarrow> i = 1" if "i < 512" "k < 512" for i k
    using entry_eq_iff [OF boot_tables(1,3) that] entry_eq_iff [OF boot_tables(2,3) that] entry_eq_iff [OF boot_tables(2,1) that(1), of 1]
      entry_eq_iff [OF boot_tables(1,1) that(1), of 1] boot_tables(11,12) by auto
  then show ?thesis using t unfolding kernel_tables_def M by auto
qed

text \<open>
  C14: After \<^verbatim>\<open>setup_vm\<close> of \<open>src/arch/riscv/kernel/boot.c\<close> the memory management unit translates every kernel address
  from 0xffffffc050000000 up to 0xffffffc060000000 to \<^verbatim>\<open>kva2pa\<close> of it, every address of the boot image from 0x50000000
  up to 0x51000000 to itself, and no other canonical address. Once the kernel has called \<^verbatim>\<open>unmap_boot_page\<close> (\<open>src/init/main.c\<close>),
  on the same tables seen at their kernel addresses, the identity mapping is gone and the kernel's is unchanged.
\<close>

theorem boot_address_space:
  assumes "pg_base b = PGDIR_PA" and "va < 0x4000000000 \<or> 0xffffffc000000000 \<le> va"
    and "mem s = (\<lambda>a. pmem (setup_vm b) (kva2pa a))"
  shows "mmu_translate (boot_satp (setup_vm b)) (pmem (setup_vm b)) va =
      (if 0xffffffc050000000 \<le> va \<and> va < 0xffffffc060000000 then Some (kva2pa va)
       else if 0x50000000 \<le> va \<and> va < 0x51000000 then Some va else None) \<and>
    mmu_translate (boot_satp (setup_vm b)) (\<lambda>pa. mem (unmap_boot_page s) (pa2kva pa)) va =
      (if 0xffffffc050000000 \<le> va \<and> va < 0xffffffc060000000 then Some (kva2pa va) else None)"
proof -
  have t: "kernel_tables True (pmem (setup_vm b))" by (rule setup_vm_kernel_tables [OF assms(1)])
  show ?thesis
    using translate_tables [OF t assms(2)] translate_tables [OF unmap_boot_page_tables [OF t assms(3)] assms(2)]
    unfolding setup_vm_def by simp
qed

definition boot0 :: boot where
  "boot0 = \<lparr>pmem = (\<lambda>_. 0xdeadbeef), pg_base = PGDIR_PA, boot_satp = 0\<rparr>"

theorem boot_address_space_witness:
  "mmu_translate (boot_satp (setup_vm boot0)) (pmem (setup_vm boot0)) 0xffffffc050201234 = Some 0x50201234 \<and>
   mmu_translate (boot_satp (setup_vm boot0)) (pmem (setup_vm boot0)) 0x50201234 = Some 0x50201234 \<and>
   mmu_translate (boot_satp (setup_vm boot0))
     (\<lambda>pa. mem (unmap_boot_page ((mm_boot ())\<lparr>mem := \<lambda>a. pmem (setup_vm boot0) (kva2pa a)\<rparr>)) (pa2kva pa)) 0x50201234 = None"
  using boot_address_space [of boot0 "0xffffffc050201234" "(mm_boot ())\<lparr>mem := \<lambda>a. pmem (setup_vm boot0) (kva2pa a)\<rparr>"]
    boot_address_space [of boot0 "0x50201234" "(mm_boot ())\<lparr>mem := \<lambda>a. pmem (setup_vm boot0) (kva2pa a)\<rparr>"]
  by (simp add: boot0_def kva2pa_def KERNEL_VM_OFFSET_def)

end
