(* ===== verification/Shell.thy ===== *)
theory Shell
  imports Libc
begin

text \<open>
  The shell, \<open>src/test/shell.c\<close>, the first process of the system: line editing, splitting a line into
  words, and the command table. What the shell does outside its own memory (system calls and output) is
  the list of actions it performs; the results of \<^verbatim>\<open>sys_getchar\<close>, \<^verbatim>\<open>sys_exec\<close> and \<^verbatim>\<open>sys_kill\<close> are
  arguments. A character pointer into the input buffer is an index, \<open>None\<close> is the null pointer.
\<close>

section \<open>Reading a line\<close>

datatype printf_arg = P_str "u8 list option" | P_int int

datatype shell_act =
    A_move_cursor int int | A_write "u8 list" | A_reflush | A_backspace int
  | A_printf string "printf_arg list"
  | A_clear | A_ps | A_exec "u8 list option" nat "u8 list list" | A_waitpid int | A_kill u32
  | A_mkfs | A_statfs | A_mkdir "u8 list option" | A_ls "u8 list" int | A_cd "u8 list option"
  | A_rmdir "u8 list option" | A_touch "u8 list option" | A_cat "u8 list option"
  | A_ln "u8 list option" "u8 list option" | A_rm "u8 list option"

definition INPUT_BUF_SIZE :: nat where "INPUT_BUF_SIZE = 128"
definition MAX_ARG :: nat where "MAX_ARG = 16"

definition init_shell :: "shell_act list" where
  "init_shell = [A_move_cursor 0 20, A_printf ''------------------- COMMAND -------------------\<newline>'' []]"

definition backspace :: shell_act where
  "backspace = A_backspace 16"

text \<open>\<^verbatim>\<open>sys_write((char *)&ch)\<close>: the bytes of the key code up to the first zero.\<close>

definition key_str :: "int \<Rightarrow> u8 list" where
  "key_str ch = takeWhile (\<lambda>c. c \<noteq> 0) (le_put 4 (of_int ch :: u32))"

text \<open>
  \<^verbatim>\<open>read_keyboard\<close>: the keys are the successive results of \<^verbatim>\<open>sys_getchar\<close>, -1 when no key is pressed; the
  call has not returned when they end without a carriage return. It leaves the remaining keys.
\<close>

fun read_keyboard :: "int list \<Rightarrow> nat \<Rightarrow> u8 list \<Rightarrow> (u8 list \<times> shell_act list \<times> int list) option" where
  "read_keyboard [] i buf = None"
| "read_keyboard (ch # ks) i buf =
     (if ch = - 1 then read_keyboard ks i buf
      else if ch = 13
      then if i < length buf then Some (buf[i := 0], [A_write [10], A_reflush, A_reflush], ks) else None
      else if ch = 127 \<or> ch = 8
      then do {
        (b, acts, r) \<leftarrow> (if i > 0 then read_keyboard ks (i - 1) (buf[i - 1 := 0]) else read_keyboard ks i buf);
        Some (b, backspace # A_reflush # acts, r) }
      else if i < length buf
      then do {
        (b, acts, r) \<leftarrow> read_keyboard ks (Suc i) (buf[i := of_int ch]);
        Some (b, A_write (key_str ch) # A_reflush # acts, r) }
      else None)"

definition clear_buf :: "u8 list \<Rightarrow> nat \<Rightarrow> u8 list" where
  "clear_buf buf sz = fold (\<lambda>i b. b[i := 0]) [0..<sz] buf"

section \<open>Commands\<close>

datatype cmds = CLEAR | PS | EXEC | KILL | MKFS | STATFS | MKDIR | LS | CD | RMDIR | TOUCH | CAT | LN | RM

definition cmd_enum :: "cmds list" where
  "cmd_enum = [CLEAR, PS, EXEC, KILL, MKFS, STATFS, MKDIR, LS, CD, RMDIR, TOUCH, CAT, LN, RM]"

definition commands :: "u8 list list" where
  "commands = map cstr [''clear'', ''ps'', ''exec'', ''kill'', ''mkfs'', ''statfs'', ''mkdir'', ''ls'',
     ''cd'', ''rmdir'', ''touch'', ''cat'', ''ln'', ''rm'']"

text \<open>The loop over the line: every blank becomes a zero and starts an argument.\<close>

function split_input :: "u8 list \<Rightarrow> nat \<Rightarrow> nat list \<Rightarrow> (u8 list \<times> nat list) option" where
  "split_input buf ptr argv =
     (if length buf \<le> ptr then None
      else if buf ! ptr = 0 then Some (buf, argv)
      else if buf ! ptr = 32
      then if length argv < MAX_ARG then split_input (buf[ptr := 0]) (Suc ptr) (argv @ [Suc ptr]) else None
      else split_input buf (Suc ptr) argv)"
  by pat_completeness auto
termination
  by (relation "measure (\<lambda>(buf, ptr, argv). length buf - ptr)") auto

declare split_input.simps [simp del]

text \<open>
  \<^verbatim>\<open>if ( *argv[argc - 1] == '&')\<close>. Without arguments this reads through \<^verbatim>\<open>argv[-1]\<close>, outside the array: the
  byte it finds is the argument \<open>below\<close>.
\<close>

definition background :: "u8 \<Rightarrow> u8 list \<Rightarrow> nat list \<Rightarrow> (bool \<times> nat list) option" where
  "background below buf argv =
     (if (if argv = [] then below else buf ! last argv) = 38
      then if argv = [] then None else Some (False, butlast argv)
      else Some (True, argv))"

fun find_cmd :: "u8 list \<Rightarrow> u8 list list \<Rightarrow> nat option" where
  "find_cmd buf [] = Some 0"
| "find_cmd buf (c # cs) = do { r \<leftarrow> strcmp buf c; if r = 0 then Some 0 else map_option Suc (find_cmd buf cs) }"

text \<open>The string at an index of the buffer, and the pointer \<^verbatim>\<open>argv[k]\<close>.\<close>

definition str_at :: "u8 list \<Rightarrow> nat \<Rightarrow> u8 list" where
  "str_at buf p = takeWhile (\<lambda>c. c \<noteq> 0) (drop p buf)"

definition arg_ptr :: "nat list \<Rightarrow> nat \<Rightarrow> nat option" where
  "arg_ptr argv k = (if k < length argv then Some (argv ! k) else None)"

text \<open>
  The byte \<^verbatim>\<open>p[o]\<close>. Page 0 of a process is not mapped when it starts, and the kernel maps a new page on the
  first access: \<open>low\<close> are the bytes found there.
\<close>

definition byte_at :: "u8 list \<Rightarrow> u8 list \<Rightarrow> nat option \<Rightarrow> nat \<Rightarrow> u8 option" where
  "byte_at low buf p off =
     (let (obj, i) = (case p of None \<Rightarrow> (low, off) | Some q \<Rightarrow> (buf, q + off))
      in if i < length obj then Some (obj ! i) else None)"

definition ls_action :: "u8 list \<Rightarrow> u8 list \<Rightarrow> nat list \<Rightarrow> shell_act option" where
  "ls_action low buf argv = do {
     let a0 = arg_ptr argv 0;
     c0 \<leftarrow> byte_at low buf a0 0;
     let path = (case a0 of None \<Rightarrow> [46] | Some p \<Rightarrow> if c0 = 45 then [46] else str_at buf p);
     option_str \<leftarrow> (if c0 = 45 then Some a0
       else do { c1 \<leftarrow> byte_at low buf (arg_ptr argv 1) 0; Some (if c1 = 45 then arg_ptr argv 1 else None) });
     c \<leftarrow> byte_at low buf option_str 1;
     Some (A_ls path (if c = 97 then 1 else if c = 108 then 2 else 0)) }"

definition kill_actions :: "int \<Rightarrow> u8 list \<Rightarrow> nat list \<Rightarrow> shell_act list option" where
  "kill_actions kill_ret buf argv = do {
     let a0 = map_option (str_at buf) (arg_ptr argv 0);
     n \<leftarrow> atoi (map_option (\<lambda>p. drop p buf) (arg_ptr argv 0));
     Some [A_kill n, if kill_ret \<noteq> 0 then A_printf ''kill pid %s successfully.\<newline>'' [P_str a0]
                     else A_printf ''task with pid %s not found!\<newline>'' [P_str a0]] }"

definition exec_actions :: "int \<Rightarrow> bool \<Rightarrow> u8 list \<Rightarrow> nat list \<Rightarrow> shell_act list" where
  "exec_actions pid wait buf argv =
     (let a0 = map_option (str_at buf) (arg_ptr argv 0) in
      [A_exec a0 (length argv) (map (str_at buf) argv),
       if pid > 0 then A_printf ''execute %s successfully, pid = %d.\<newline>'' [P_str a0, P_int pid]
       else A_printf ''execute %s failed!\<newline>'' [P_str a0]]
      @ (if wait \<and> pid \<noteq> 0 then [A_waitpid pid] else []))"

definition parse_input :: "u8 list \<Rightarrow> u8 \<Rightarrow> int \<Rightarrow> int \<Rightarrow> u8 list \<Rightarrow> shell_act list option" where
  "parse_input low below exec_pid kill_ret buf0 = do {
     (buf, argv0) \<leftarrow> split_input buf0 0 [];
     (wait, argv) \<leftarrow> background below buf argv0;
     index \<leftarrow> find_cmd buf commands;
     let a0 = map_option (str_at buf) (arg_ptr argv 0);
     let a1 = map_option (str_at buf) (arg_ptr argv 1);
     (if index < length cmd_enum
      then (case cmd_enum ! index of
          CLEAR \<Rightarrow> Some (A_clear # init_shell)
        | PS \<Rightarrow> Some [A_ps]
        | EXEC \<Rightarrow> Some (exec_actions exec_pid wait buf argv)
        | KILL \<Rightarrow> kill_actions kill_ret buf argv
        | MKFS \<Rightarrow> Some [A_mkfs]
        | STATFS \<Rightarrow> Some [A_statfs]
        | MKDIR \<Rightarrow> Some [A_mkdir a0]
        | LS \<Rightarrow> map_option (\<lambda>a. [a]) (ls_action low buf argv)
        | CD \<Rightarrow> Some [A_cd a0]
        | RMDIR \<Rightarrow> Some [A_rmdir a0]
        | TOUCH \<Rightarrow> Some [A_touch a0]
        | CAT \<Rightarrow> Some [A_cat a0]
        | LN \<Rightarrow> Some [A_ln a0 a1]
        | RM \<Rightarrow> Some [A_rm a0])
      else Some [A_printf ''Error: Unknown Command %s\<newline>'' [P_str (Some (str_at buf 0))]]) }"

text \<open>One round of the loop of \<^verbatim>\<open>main\<close>.\<close>

definition shell_round ::
    "u8 list \<Rightarrow> u8 \<Rightarrow> int \<Rightarrow> int \<Rightarrow> int list \<Rightarrow> u8 list \<Rightarrow> (u8 list \<times> shell_act list \<times> int list) option" where
  "shell_round low below exec_pid kill_ret keys buf = do {
     (b, acts, r) \<leftarrow> read_keyboard keys 0 buf;
     acts2 \<leftarrow> parse_input low below exec_pid kill_ret b;
     Some (clear_buf b INPUT_BUF_SIZE, acts @ acts2 @ [A_printf ''> root@UCAS_OS: '' []], r) }"

section \<open>Line editing\<close>

text \<open>The text a sequence of keys leaves on the line.\<close>

fun edited :: "int list \<Rightarrow> u8 list \<Rightarrow> u8 list" where
  "edited [] t = t"
| "edited (ch # ks) t =
     (if ch = - 1 then edited ks t else if ch = 127 \<or> ch = 8 then edited ks (butlast t) else edited ks (t @ [of_int ch]))"

lemma take_butlast_update:
  assumes "take (length t) buf = t" "t \<noteq> []" "length t \<le> length buf"
  shows "take (length t - 1) (buf[length t - 1 := v]) = butlast t"
proof -
  have "take (length t - 1) (buf[length t - 1 := v]) = take (length t - 1) buf" by simp
  also have "\<dots> = butlast (take (length t) buf)" using butlast_take [of "length t" buf] assms(3) by simp
  finally show ?thesis using assms(1) by simp
qed

lemma read_keyboard_edited:
  assumes "13 \<notin> set ks" "length t + length (filter (\<lambda>k. k \<noteq> - 1) ks) < length buf" "take (length t) buf = t"
  shows "\<exists>b acts. read_keyboard (ks @ 13 # rest) (length t) buf = Some (b, acts, rest) \<and>
    length b = length buf \<and> take (Suc (length (edited ks t))) b = edited ks t @ [0]"
  using assms
proof (induction ks arbitrary: t buf)
  case Nil
  then have "take (Suc (length t)) (buf[length t := 0]) = t @ [0]" by (simp add: take_Suc_conv_app_nth)
  then show ?case using Nil by simp
next
  case (Cons ch ks)
  have r: "13 \<notin> set ks" "ch \<noteq> 13" using Cons.prems(1) by auto
  consider "ch = - 1" | "ch \<noteq> - 1" "ch = 127 \<or> ch = 8" "t = []" | "ch \<noteq> - 1" "ch = 127 \<or> ch = 8" "t \<noteq> []" | "ch \<noteq> - 1" "ch \<noteq> 127" "ch \<noteq> 8"
    by blast
  then show ?case
  proof cases
    case 1
    then show ?thesis using Cons.IH [OF r(1), of t buf] Cons.prems by simp
  next
    case 2
    have c: "ch \<noteq> 13" using r by simp
    show ?thesis using Cons.IH [OF r(1), of t buf] Cons.prems 2 c by (auto simp: backspace_def)
  next
    case 3
    have len: "length (butlast t) = length t - 1" by simp
    have "take (length t - 1) (buf[length t - 1 := 0]) = butlast t"
      using take_butlast_update [OF Cons.prems(3) 3(3)] Cons.prems(2) by simp
    then have "\<exists>b acts. read_keyboard (ks @ 13 # rest) (length t - 1) (buf[length t - 1 := 0]) = Some (b, acts, rest) \<and>
        length b = length buf \<and> take (Suc (length (edited ks (butlast t)))) b = edited ks (butlast t) @ [0]"
      using Cons.IH [OF r(1), of "butlast t" "buf[length t - 1 := 0]", unfolded len] Cons.prems 3 by simp
    then show ?thesis using 3 r(2) by auto
  next
    case 4
    have lt: "length t < length buf" using Cons.prems(2) by simp
    have "take (Suc (length t)) (buf[length t := of_int ch]) = t @ [of_int ch]"
      using Cons.prems(3) lt by (simp add: take_Suc_conv_app_nth)
    then show ?thesis using Cons.IH [OF r(1), of "t @ [of_int ch]" "buf[length t := of_int ch]"] Cons.prems 4 lt r(2) by auto
  qed
qed

section \<open>Words\<close>

definition zero_blank :: "u8 \<Rightarrow> u8" where
  "zero_blank c = (if c = 32 then 0 else c)"

fun blank_pos :: "nat \<Rightarrow> u8 list \<Rightarrow> nat list" where
  "blank_pos off [] = []"
| "blank_pos off (c # t) = (if c = 32 then [Suc off] else []) @ blank_pos (Suc off) t"

lemma split_input_spec:
  assumes "chars t" "length argv + length (blank_pos (length p) t) \<le> MAX_ARG"
  shows "split_input (p @ t @ 0 # r) (length p) argv =
    Some (p @ map zero_blank t @ 0 # r, argv @ blank_pos (length p) t)"
  using assms
proof (induction t arbitrary: p argv)
  case Nil
  then show ?case by (subst split_input.simps) (simp add: nth_append)
next
  case (Cons c t)
  have e: "(p @ (c # t) @ 0 # r) ! length p = c" by (simp add: nth_append)
  show ?case
  proof (cases "c = 32")
    case True
    have "split_input (p @ (c # t) @ 0 # r) (length p) argv =
        split_input ((p @ [0]) @ t @ 0 # r) (length (p @ [0])) (argv @ [Suc (length p)])"
      using True Cons.prems by (subst split_input.simps) (simp add: nth_append)
    then show ?thesis using Cons.IH [of "argv @ [Suc (length p)]" "p @ [0]"] Cons.prems True by (simp add: zero_blank_def)
  next
    case False
    have "split_input (p @ (c # t) @ 0 # r) (length p) argv = split_input ((p @ [c]) @ t @ 0 # r) (length (p @ [c])) argv"
      using False Cons.prems by (subst split_input.simps) (simp add: nth_append)
    then show ?thesis using Cons.IH [of argv "p @ [c]"] Cons.prems False by (simp add: zero_blank_def)
  qed
qed

abbreviation word_chars :: "u8 list \<Rightarrow> bool" where
  "word_chars w \<equiv> 0 \<notin> set w \<and> 32 \<notin> set w"

definition line_of :: "u8 list \<Rightarrow> u8 list list \<Rightarrow> u8 list" where
  "line_of w args = w @ concat (map ((#) 32) args)"

lemma line_of_simps [simp]: "line_of w [] = w" "line_of w (a # args) = w @ 32 # line_of a args"
  by (simp_all add: line_of_def)

lemma blank_pos_word [simp]: "32 \<notin> set w \<Longrightarrow> blank_pos off (w @ t) = blank_pos (off + length w) t"
  by (induction w arbitrary: off) auto

lemma zero_blank_word [simp]: "32 \<notin> set w \<Longrightarrow> map zero_blank w = w"
  by (induction w) (auto simp: zero_blank_def)

lemma line_of_first: "word_chars w \<Longrightarrow> takeWhile (\<lambda>c. c \<noteq> 0) (map zero_blank (line_of w args) @ 0 # r) = w"
  by (cases args) (auto simp: zero_blank_def takeWhile_tail)

lemma blank_pos_length: "\<forall>a\<in>set args. word_chars a \<Longrightarrow> word_chars w \<Longrightarrow> length (blank_pos off (line_of w args)) = length args"
proof (induction args arbitrary: w off)
  case Nil
  then show ?case using blank_pos_word [of w off "[]"] by simp
qed simp

lemma blank_pos_words:
  assumes "\<forall>a\<in>set args. word_chars a" "word_chars w"
  shows "map (str_at (p @ map zero_blank (line_of w args) @ 0 # r)) (blank_pos (length p) (line_of w args)) = args"
  using assms
proof (induction args arbitrary: w p)
  case Nil
  then show ?case using blank_pos_word [of w "length p" "[]"] by simp
next
  case (Cons a args)
  let ?b = "p @ map zero_blank (line_of w (a # args)) @ 0 # r"
  have b: "?b = (p @ w @ [0]) @ map zero_blank (line_of a args) @ 0 # r" using Cons.prems by (simp add: zero_blank_def)
  have "str_at ?b (Suc (length p + length w)) = a"
    unfolding b str_at_def using line_of_first [of a args r] Cons.prems by simp
  moreover have "blank_pos (length p) (line_of w (a # args)) =
      Suc (length p + length w) # blank_pos (length (p @ w @ [0])) (line_of a args)"
    using Cons.prems by simp
  ultimately show ?case using Cons.IH [of a "p @ w @ [0]"] Cons.prems unfolding b by simp
qed

section \<open>Running a program\<close>

lemma clear_buf_zero: "n \<le> length buf \<Longrightarrow> clear_buf buf n = replicate n 0 @ drop n buf"
proof (induction n)
  case 0
  then show ?case by (simp add: clear_buf_def)
next
  case (Suc n)
  have "drop n buf = buf ! n # drop (Suc n) buf" using Suc.prems by (simp add: Cons_nth_drop_Suc)
  then have "(replicate n 0 @ drop n buf)[n := 0] = replicate (Suc n) 0 @ drop (Suc n) buf"
    by (simp add: list_update_append replicate_app_Cons_same)
  then show ?case using Suc by (simp add: clear_buf_def)
qed

definition exec_word :: "u8 list" where
  "exec_word = map of_char ''exec''"

lemma exec_word_chars: "word_chars exec_word"
  by (simp add: exec_word_def)

lemma find_exec:
  assumes "takeWhile (\<lambda>c. c \<noteq> 0) buf = exec_word" "0 \<in> set buf"
  shows "find_cmd buf commands = Some 2"
proof -
  obtain r where "buf = exec_word @ 0 # r"
    using assms takeWhile_dropWhile_id [of "\<lambda>c. c \<noteq> 0" buf] dropWhile_eq_Nil_conv [of "\<lambda>c. c \<noteq> 0" buf]
      hd_dropWhile [of "\<lambda>c. c \<noteq> 0" buf] by (metis (mono_tags, lifting) list.collapse)
  then show ?thesis by (simp add: commands_def exec_word_def cstr_def)
qed

lemma background_words:
  assumes "map (str_at buf) argv = args" "args \<noteq> []" "\<forall>p\<in>set argv. p < length buf"
  shows "background below buf argv =
    Some (if take 1 (last args) = [38] then (False, butlast argv) else (True, argv))"
proof -
  have ne: "argv \<noteq> []" using assms by auto
  then have l: "last args = str_at buf (last argv)" "last argv < length buf" using assms by (auto simp: last_map)
  then obtain c r where c: "drop (last argv) buf = c # r" "buf ! last argv = c"
    by (metis Cons_nth_drop_Suc)
  then have "take 1 (last args) = [38] \<longleftrightarrow> c = 38" by (simp add: l(1) str_at_def)
  then show ?thesis using ne c(2) by (simp add: background_def)
qed

lemma blank_pos_bound: "p \<in> set (blank_pos off t) \<Longrightarrow> p \<le> off + length t"
  by (induction t arbitrary: off) (fastforce split: if_splits)+

lemma parse_exec_line:
  assumes args: "\<forall>a\<in>set args. word_chars a" "args \<noteq> []" "length args \<le> 16"
  shows "parse_input low below pid kr (line_of exec_word args @ 0 # r) =
    (let bg = (take 1 (last args) = [38]); argv = (if bg then butlast args else args);
         a0 = (if argv = [] then None else Some (hd argv)) in
     Some (A_exec a0 (length argv) argv #
       (if pid > 0 then A_printf ''execute %s successfully, pid = %d.\<newline>'' [P_str a0, P_int pid]
        else A_printf ''execute %s failed!\<newline>'' [P_str a0]) #
       (if \<not> bg \<and> pid \<noteq> 0 then [A_waitpid pid] else [])))"
proof -
  let ?t = "line_of exec_word args" and ?q = "blank_pos 0 (line_of exec_word args)"
  let ?b = "map zero_blank (line_of exec_word args) @ 0 # r"
  have ch: "chars ?t" using args(1) exec_word_chars by (auto simp: line_of_def)
  have len: "length ?q = length args" by (rule blank_pos_length [OF args(1) exec_word_chars])
  have sp: "split_input (?t @ 0 # r) 0 [] = Some (?b, ?q)"
    using split_input_spec [OF ch, of "[]" "[]" r] len args(3) by (simp add: MAX_ARG_def)
  have w: "map (str_at ?b) ?q = args" using blank_pos_words [OF args(1) exec_word_chars, of "[]" r] by simp
  have bd: "\<forall>p\<in>set ?q. p < length ?b" using blank_pos_bound [of _ 0 ?t] by fastforce
  have f: "find_cmd ?b commands = Some 2"
    using line_of_first [OF exec_word_chars] by (intro find_exec) simp_all
  have a0: "map_option (str_at ?b) (arg_ptr as 0) = (if map (str_at ?b) as = [] then None else Some (hd (map (str_at ?b) as)))" for as
    by (simp add: arg_ptr_def hd_map hd_conv_nth)
  have bl: "map (str_at ?b) (butlast ?q) = butlast args" using w by (simp add: map_butlast)
  show ?thesis
    unfolding parse_input_def sp Option.bind.bind_lunit case_prod_conv background_words [OF w args(2) bd] f
    using w bl len by (auto simp: cmd_enum_def exec_actions_def Let_def a0 simp del: map_is_Nil_conv)
qed

text \<open>
  C18: When the keys typed before a carriage return leave the text "exec" and one or more further words, each after a
  blank, on the line, fewer than 128 keys being pressed, the shell calls \<^verbatim>\<open>sys_exec\<close> with exactly those words,
  reports the result, and waits for the new process unless the last word starts with an ampersand, which is then not passed on.
\<close>

theorem shell_executes_line:
  assumes "13 \<notin> set keys" "length (filter (\<lambda>k. k \<noteq> - 1) keys) < 128" "length buf = 128"
    and "edited keys [] = line_of exec_word args" "\<forall>a\<in>set args. word_chars a" "args \<noteq> []" "length args \<le> 16"
  defines "bg \<equiv> take 1 (last args) = [38]"
  defines "argv \<equiv> if bg then butlast args else args"
  defines "a0 \<equiv> if argv = [] then None else Some (hd argv)"
  shows "\<exists>b acts. shell_round low below pid kr (keys @ 13 # rest) buf = Some (b, acts @
      [A_exec a0 (length argv) argv,
       if pid > 0 then A_printf ''execute %s successfully, pid = %d.\<newline>'' [P_str a0, P_int pid]
       else A_printf ''execute %s failed!\<newline>'' [P_str a0]] @
      (if \<not> bg \<and> pid \<noteq> 0 then [A_waitpid pid] else []) @ [A_printf ''> root@UCAS_OS: '' []], rest) \<and> b = replicate 128 0"
proof -
  obtain b acts where b: "read_keyboard (keys @ 13 # rest) 0 buf = Some (b, acts, rest)" "length b = 128"
      "take (Suc (length (line_of exec_word args))) b = line_of exec_word args @ [0]"
    using read_keyboard_edited [of keys "[]" buf rest] assms(1-4) by auto
  then have "b = line_of exec_word args @ 0 # drop (Suc (length (line_of exec_word args))) b"
    by (metis append_Cons append_Nil append_assoc append_take_drop_id)
  then obtain r where r: "b = line_of exec_word args @ 0 # r" by blast
  have "clear_buf b 128 = replicate 128 0" using clear_buf_zero [of 128 b] b(2) by simp
  then show ?thesis
    using b(1) parse_exec_line [OF assms(5-7), of low below pid kr r]
    by (simp add: shell_round_def r Let_def bg_def argv_def a0_def INPUT_BUF_SIZE_def)
qed

theorem shell_executes_line_witness:
  "\<exists>b acts. shell_round [0, 0] 0 3 0 ([101, 120, 101, 99, 32, 102, - 1, 120, 127, 108, 121] @ 13 # []) (replicate 128 7) =
     Some (b, acts @ [A_exec (Some [102, 108, 121]) 1 [[102, 108, 121]],
       A_printf ''execute %s successfully, pid = %d.\<newline>'' [P_str (Some [102, 108, 121]), P_int 3]] @
       [A_waitpid 3] @ [A_printf ''> root@UCAS_OS: '' []], []) \<and> b = replicate 128 0"
proof -
  have e: "edited [101, 120, 101, 99, 32, 102, - 1, 120, 127, 108, 121] [] = line_of exec_word [[102, 108, 121]]"
    by (simp add: exec_word_def)
  show ?thesis
    using shell_executes_line [where low = "[0, 0]" and below = 0 and pid = 3 and kr = 0 and rest = "[]" and buf = "replicate 128 7",
        OF _ _ _ e] by simp
qed

end
