(* ===== verification/Bios.thy ===== *)
theory Bios
  imports MM
begin

text \<open>
  How the kernel reaches the BIOS: the wrappers of \<open>src/include/os/kernel.h\<close> call through the jump table
  at \<^verbatim>\<open>KERNEL_JMPTAB_BASE\<close>, which \<^verbatim>\<open>init_jmptab\<close> (\<open>src/init/main.c\<close>) fills with the functions of
  \<open>src/arch/riscv/bios/common.c\<close>. The BIOS itself is not part of the repository: the argument \<open>bios\<close> gives
  its results. Arguments travel in 64-bit registers, and a callee with a narrower parameter uses the low bits.
\<close>

section \<open>BIOS calls (common.c)\<close>

datatype effect = Bios_call u64 "u64 list" | Screen_move_cursor u32 u32 | Printk_call u64 u64 u64

type_synonym bios = "u64 \<Rightarrow> u64 list \<Rightarrow> u64"

definition BIOS_SETTIMER :: u64 where "BIOS_SETTIMER = 0"
definition BIOS_PUTCHAR :: u64 where "BIOS_PUTCHAR = 1"
definition BIOS_GETCHAR :: u64 where "BIOS_GETCHAR = 2"
definition BIOS_SEND_IPI :: u64 where "BIOS_SEND_IPI = 4"
definition BIOS_PUTSTR :: u64 where "BIOS_PUTSTR = 9"
definition BIOS_SDWRITE :: u64 where "BIOS_SDWRITE = 10"
definition BIOS_SDREAD :: u64 where "BIOS_SDREAD = 11"
definition BIOS_FDTREAD :: u64 where "BIOS_FDTREAD = 12"
definition BIOS_LOGGING :: u64 where "BIOS_LOGGING = 14"

definition call_bios :: "bios \<Rightarrow> u64 \<Rightarrow> u64 \<Rightarrow> u64 \<Rightarrow> u64 \<Rightarrow> u64 \<Rightarrow> u64 \<Rightarrow> effect \<times> u64" where
  "call_bios bios which a0 a1 a2 a3 a4 =
     (Bios_call which [a0, a1, a2, a3, a4], bios which [a0, a1, a2, a3, a4])"

text \<open>An \<^verbatim>\<open>int\<close> result is the low half of the register, sign-extended.\<close>

definition int_result :: "u64 \<Rightarrow> u64" where
  "int_result r = scast (ucast r :: u32)"

definition port_write_ch :: "bios \<Rightarrow> u8 \<Rightarrow> effect \<times> u64" where
  "port_write_ch bios ch = call_bios bios BIOS_PUTCHAR (ucast ch) 0 0 0 0"

definition port_write :: "bios \<Rightarrow> u64 \<Rightarrow> effect \<times> u64" where
  "port_write bios str = call_bios bios BIOS_PUTSTR str 0 0 0 0"

definition port_read_ch :: "bios \<Rightarrow> effect \<times> u64" where
  "port_read_ch bios = map_prod id int_result (call_bios bios BIOS_GETCHAR 0 0 0 0 0)"

definition bios_sd_read :: "bios \<Rightarrow> u32 \<Rightarrow> u32 \<Rightarrow> u32 \<Rightarrow> effect \<times> u64" where
  "bios_sd_read bios mem_address num_of_blocks block_id =
     map_prod id int_result (call_bios bios BIOS_SDREAD (ucast mem_address) (ucast num_of_blocks) (ucast block_id) 0 0)"

definition bios_sd_write :: "bios \<Rightarrow> u32 \<Rightarrow> u32 \<Rightarrow> u32 \<Rightarrow> effect \<times> u64" where
  "bios_sd_write bios mem_address num_of_blocks block_id =
     map_prod id int_result (call_bios bios BIOS_SDWRITE (ucast mem_address) (ucast num_of_blocks) (ucast block_id) 0 0)"

definition set_timer :: "bios \<Rightarrow> u64 \<Rightarrow> effect \<times> u64" where
  "set_timer bios stime_value = call_bios bios BIOS_SETTIMER stime_value 0 0 0 0"

definition read_fdt :: "bios \<Rightarrow> u32 \<Rightarrow> effect \<times> u64" where
  "read_fdt bios fdt_type = call_bios bios BIOS_FDTREAD (ucast fdt_type) 0 0 0 0"

definition qemu_logging :: "bios \<Rightarrow> u64 \<Rightarrow> effect \<times> u64" where
  "qemu_logging bios str = call_bios bios BIOS_LOGGING str 0 0 0 0"

definition send_ipi :: "bios \<Rightarrow> u64 \<Rightarrow> effect \<times> u64" where
  "send_ipi bios hart_mask = call_bios bios BIOS_SEND_IPI hart_mask 0 0 0 0"

section \<open>The jump table\<close>

datatype jmptab_idx =
    CONSOLE_PUTSTR | CONSOLE_PUTCHAR | CONSOLE_GETCHAR | SD_READ | SD_WRITE | QEMU_LOGGING | SET_TIMER
  | READ_FDT | MOVE_CURSOR | PRINT | YIELD | MUTEX_INIT | MUTEX_ACQ | MUTEX_RELEASE

datatype jmp_target =
    J_port_write | J_port_write_ch | J_port_read_ch | J_sd_read | J_sd_write | J_qemu_logging | J_set_timer
  | J_read_fdt | J_screen_move_cursor | J_printk

definition init_jmptab :: "(jmptab_idx \<rightharpoonup> jmp_target) \<Rightarrow> (jmptab_idx \<rightharpoonup> jmp_target)" where
  "init_jmptab jmptab = jmptab(
     CONSOLE_PUTSTR \<mapsto> J_port_write, CONSOLE_PUTCHAR \<mapsto> J_port_write_ch, CONSOLE_GETCHAR \<mapsto> J_port_read_ch,
     SD_READ \<mapsto> J_sd_read, SD_WRITE \<mapsto> J_sd_write, QEMU_LOGGING \<mapsto> J_qemu_logging, SET_TIMER \<mapsto> J_set_timer,
     READ_FDT \<mapsto> J_read_fdt, MOVE_CURSOR \<mapsto> J_screen_move_cursor, PRINT \<mapsto> J_printk)"

text \<open>Entering a function of the table with the three argument registers.\<close>

fun enter :: "bios \<Rightarrow> jmp_target \<Rightarrow> u64 \<Rightarrow> u64 \<Rightarrow> u64 \<Rightarrow> effect \<times> u64" where
  "enter bios J_port_write a0 a1 a2 = port_write bios a0"
| "enter bios J_port_write_ch a0 a1 a2 = port_write_ch bios (ucast a0)"
| "enter bios J_port_read_ch a0 a1 a2 = port_read_ch bios"
| "enter bios J_sd_read a0 a1 a2 = bios_sd_read bios (ucast a0) (ucast a1) (ucast a2)"
| "enter bios J_sd_write a0 a1 a2 = bios_sd_write bios (ucast a0) (ucast a1) (ucast a2)"
| "enter bios J_qemu_logging a0 a1 a2 = qemu_logging bios a0"
| "enter bios J_set_timer a0 a1 a2 = set_timer bios a0"
| "enter bios J_read_fdt a0 a1 a2 = read_fdt bios (ucast a0)"
| "enter bios J_screen_move_cursor a0 a1 a2 = (Screen_move_cursor (ucast a0) (ucast a1), 0)"
| "enter bios J_printk a0 a1 a2 = (Printk_call a0 a1 a2, 0)"

text \<open>A call through an entry that was never set jumps to an arbitrary address.\<close>

definition call_jmptab :: "bios \<Rightarrow> (jmptab_idx \<rightharpoonup> jmp_target) \<Rightarrow> jmptab_idx \<Rightarrow> u64 \<Rightarrow> u64 \<Rightarrow> u64 \<Rightarrow> (effect \<times> u64) option" where
  "call_jmptab bios jmptab which a0 a1 a2 = map_option (\<lambda>f. enter bios f a0 a1 a2) (jmptab which)"

section \<open>The wrappers (kernel.h)\<close>

definition bios_putstr :: "bios \<Rightarrow> (jmptab_idx \<rightharpoonup> jmp_target) \<Rightarrow> u64 \<Rightarrow> (effect \<times> u64) option" where
  "bios_putstr bios jmptab str = call_jmptab bios jmptab CONSOLE_PUTSTR (kva2pa str) 0 0"

definition bios_putchar :: "bios \<Rightarrow> (jmptab_idx \<rightharpoonup> jmp_target) \<Rightarrow> u32 \<Rightarrow> (effect \<times> u64) option" where
  "bios_putchar bios jmptab ch = call_jmptab bios jmptab CONSOLE_PUTCHAR (scast ch) 0 0"

definition bios_getchar :: "bios \<Rightarrow> (jmptab_idx \<rightharpoonup> jmp_target) \<Rightarrow> (effect \<times> u32) option" where
  "bios_getchar bios jmptab = map_option (map_prod id ucast) (call_jmptab bios jmptab CONSOLE_GETCHAR 0 0 0)"

definition bios_sdread :: "bios \<Rightarrow> (jmptab_idx \<rightharpoonup> jmp_target) \<Rightarrow> u32 \<Rightarrow> u32 \<Rightarrow> u32 \<Rightarrow> (effect \<times> u32) option" where
  "bios_sdread bios jmptab mem_address num_of_blocks block_id = map_option (map_prod id ucast)
     (call_jmptab bios jmptab SD_READ (ucast mem_address) (ucast num_of_blocks) (ucast block_id))"

definition bios_sdwrite :: "bios \<Rightarrow> (jmptab_idx \<rightharpoonup> jmp_target) \<Rightarrow> u32 \<Rightarrow> u32 \<Rightarrow> u32 \<Rightarrow> (effect \<times> u32) option" where
  "bios_sdwrite bios jmptab mem_address num_of_blocks block_id = map_option (map_prod id ucast)
     (call_jmptab bios jmptab SD_WRITE (ucast mem_address) (ucast num_of_blocks) (ucast block_id))"

definition bios_logging :: "bios \<Rightarrow> (jmptab_idx \<rightharpoonup> jmp_target) \<Rightarrow> u64 \<Rightarrow> (effect \<times> u64) option" where
  "bios_logging bios jmptab str = call_jmptab bios jmptab QEMU_LOGGING (kva2pa str) 0 0"

definition bios_set_timer :: "bios \<Rightarrow> (jmptab_idx \<rightharpoonup> jmp_target) \<Rightarrow> u64 \<Rightarrow> (effect \<times> u64) option" where
  "bios_set_timer bios jmptab stime_value = call_jmptab bios jmptab SET_TIMER stime_value 0 0"

definition bios_read_fdt :: "bios \<Rightarrow> (jmptab_idx \<rightharpoonup> jmp_target) \<Rightarrow> u32 \<Rightarrow> (effect \<times> u64) option" where
  "bios_read_fdt bios jmptab fdt_type = call_jmptab bios jmptab READ_FDT (ucast fdt_type) 0 0"

definition kernel_move_cursor :: "bios \<Rightarrow> (jmptab_idx \<rightharpoonup> jmp_target) \<Rightarrow> u32 \<Rightarrow> u32 \<Rightarrow> (effect \<times> u64) option" where
  "kernel_move_cursor bios jmptab x y = call_jmptab bios jmptab MOVE_CURSOR (scast x) (scast y) 0"

definition kernel_print :: "bios \<Rightarrow> (jmptab_idx \<rightharpoonup> jmp_target) \<Rightarrow> u64 \<Rightarrow> u64 \<Rightarrow> u64 \<Rightarrow> (effect \<times> u64) option" where
  "kernel_print bios jmptab fmt arg0 arg1 = call_jmptab bios jmptab PRINT fmt arg0 arg1"

definition kernel_yield :: "bios \<Rightarrow> (jmptab_idx \<rightharpoonup> jmp_target) \<Rightarrow> (effect \<times> u64) option" where
  "kernel_yield bios jmptab = call_jmptab bios jmptab YIELD 0 0 0"

definition kernel_mutex_init :: "bios \<Rightarrow> (jmptab_idx \<rightharpoonup> jmp_target) \<Rightarrow> u32 \<Rightarrow> (effect \<times> u32) option" where
  "kernel_mutex_init bios jmptab key = map_option (map_prod id ucast) (call_jmptab bios jmptab MUTEX_INIT (scast key) 0 0)"

definition kernel_mutex_acquire :: "bios \<Rightarrow> (jmptab_idx \<rightharpoonup> jmp_target) \<Rightarrow> u32 \<Rightarrow> (effect \<times> u64) option" where
  "kernel_mutex_acquire bios jmptab mlock_idx = call_jmptab bios jmptab MUTEX_ACQ (scast mlock_idx) 0 0"

definition kernel_mutex_release :: "bios \<Rightarrow> (jmptab_idx \<rightharpoonup> jmp_target) \<Rightarrow> u32 \<Rightarrow> (effect \<times> u64) option" where
  "kernel_mutex_release bios jmptab mlock_idx = call_jmptab bios jmptab MUTEX_RELEASE (scast mlock_idx) 0 0"

lemmas wrapper_kernel_defs = bios_putstr_def bios_putchar_def bios_getchar_def bios_sdread_def bios_sdwrite_def
  bios_logging_def bios_set_timer_def bios_read_fdt_def kernel_move_cursor_def kernel_print_def kernel_yield_def
  kernel_mutex_init_def kernel_mutex_acquire_def kernel_mutex_release_def

lemmas port_defs = port_write_ch_def port_write_def port_read_ch_def bios_sd_read_def bios_sd_write_def set_timer_def
  read_fdt_def qemu_logging_def

section \<open>Routing\<close>

lemma ucast_round [simp]:
  "ucast (ucast (x :: u32) :: u64) = x" "ucast (scast (x :: u32) :: u64) = x" "ucast (scast (x :: u32) :: u64) = (ucast x :: u8)"
  by (rule bit_eqI; auto simp: bit_ucast_iff bit_word_scast_iff dest: bit_imp_le_length)+

lemma int_result_round [simp]: "(ucast (int_result r) :: u32) = ucast r"
  by (simp add: int_result_def)

text \<open>
  After \<^verbatim>\<open>init_jmptab\<close> every wrapper for a device makes the BIOS call of the same meaning, with the arguments
  zero-extended from their own width, and returns its result at the width it has in C.
\<close>

theorem jmptab_routes:
  "bios_putstr bios (init_jmptab T) str = Some (call_bios bios BIOS_PUTSTR (kva2pa str) 0 0 0 0)"
  "bios_putchar bios (init_jmptab T) ch = Some (call_bios bios BIOS_PUTCHAR (ucast (ucast ch :: u8)) 0 0 0 0)"
  "bios_getchar bios (init_jmptab T) = Some (map_prod id ucast (call_bios bios BIOS_GETCHAR 0 0 0 0 0))"
  "bios_sdread bios (init_jmptab T) a n k = Some (map_prod id ucast (call_bios bios BIOS_SDREAD (ucast a) (ucast n) (ucast k) 0 0))"
  "bios_sdwrite bios (init_jmptab T) a n k = Some (map_prod id ucast (call_bios bios BIOS_SDWRITE (ucast a) (ucast n) (ucast k) 0 0))"
  "bios_logging bios (init_jmptab T) str = Some (call_bios bios BIOS_LOGGING (kva2pa str) 0 0 0 0)"
  "bios_set_timer bios (init_jmptab T) t = Some (call_bios bios BIOS_SETTIMER t 0 0 0 0)"
  "bios_read_fdt bios (init_jmptab T) ty = Some (call_bios bios BIOS_FDTREAD (ucast ty) 0 0 0 0)"
  "kernel_move_cursor bios (init_jmptab T) x y = Some (Screen_move_cursor x y, 0)"
  "kernel_print bios (init_jmptab T) f g h = Some (Printk_call f g h, 0)"
  by (simp_all add: wrapper_kernel_defs port_defs call_jmptab_def init_jmptab_def call_bios_def)

text \<open>The last four entries of the table are never set: whatever they held before is called.\<close>

theorem jmptab_unset:
  assumes "T YIELD = None" "T MUTEX_INIT = None" "T MUTEX_ACQ = None" "T MUTEX_RELEASE = None"
  shows "kernel_yield bios (init_jmptab T) = None" "kernel_mutex_init bios (init_jmptab T) key = None"
    "kernel_mutex_acquire bios (init_jmptab T) i = None" "kernel_mutex_release bios (init_jmptab T) i = None"
  using assms by (simp_all add: wrapper_kernel_defs call_jmptab_def init_jmptab_def)

end
