(* ===== verification/Spec2Isabelle.thy ===== *)
theory Spec2Isabelle
  imports Exec_Args FS_Dirs System Screen_Laws Image_Laws Irq_Laws Net MM_Inv Smp Boot_Laws Shell Bios
begin

text \<open>
  A verification library for the UCAS teaching kernel, a RISC-V (Sv39) operating system for two harts
  written in C: a boot stage, a memory manager with paging and swapping, a preemptive scheduler with
  processes and threads, locks, barriers, condition variables and mailboxes, an E1000 network driver, a
  file system on an SD card, a screen driver, a user library, a shell, and the tool that writes the boot image.

  \<^bold>\<open>How the parts interact.\<close> The image tool writes the kernel and the programs with a table of their sizes. The
  boot stage builds the first page table and jumps to the kernel, whose initialisation reads the table and
  creates the shell. From then on the kernel is entered by interrupts and system calls: every entry takes
  the kernel lock, runs one handler and returns through the scheduler's choice of the current process. All
  queues (ready, sleeping, blocked on a lock or on the network, present and swapped pages) are intrusive lists
  threaded through the process control blocks and page records. The loader and the page fault handler take
  frames from the page allocator; the file system and swapping reach the SD card, and the drivers the
  serial port, through the BIOS.

  \<^bold>\<open>Conventions.\<close> A C structure is a record, an enumeration a datatype, an unsigned integer a machine word and
  an \<^verbatim>\<open>int\<close> an \<^typ>\<open>int\<close> with the wrap-around written out (\<^verbatim>\<open>s32\<close>) where it can occur. State is passed explicitly; the
  record of the memory manager is extended to the kernel record of the scheduler, and that one by the records
  of the file system, the screen and the device mapping, so that each component adds its variables to those
  it builds on. An operation that may not return (an access outside its object, a failed \<^verbatim>\<open>assert\<close>, an endless
  loop, a jump to an unset address) has an option type and \<^const>\<open>None\<close> stands for not returning. A call that blocks is split
  where the process leaves the processor. Loops with a bound are functions with a measure; loops that end only on
  well-formed data (walks over linked lists, waiting for a device) are partial functions in the option monad, and the
  theorems about them show that they do return. No fuel is used.

  \<^bold>\<open>Parameters.\<close> Code that is not in the repository is an argument: the SD card behind the BIOS (\<^verbatim>\<open>B\<close>, with the documented
  behaviour \<^const>\<open>sd_card_ok\<close>, which the RAM card of \<^verbatim>\<open>FS_Laws\<close> satisfies), the other BIOS calls (\<^verbatim>\<open>bios\<close>), the values
  that the clock and the interrupt cause register of the network card return (streams in the state), addresses assigned by the
  linker, and for the system call handler the kernel functions themselves (\<^verbatim>\<open>call\<close>), so that routing and behaviour are separate.

  \<^bold>\<open>Theories and sources.\<close>

  \<^item> \<^verbatim>\<open>Prelude\<close>: machine integers, slices of buffers, little-endian encodings, searches, and the locale \<^verbatim>\<open>bounded_fifo\<close>
    (a ring as a bounded queue). \<^verbatim>\<open>CString\<close>: \<open>src/libs/string.c\<close>.
  \<^item> \<^verbatim>\<open>Klist\<close>: \<open>src/include/os/list.h\<close>. Pointer operations on nodes refine operations on lists of nodes; the locale \<^verbatim>\<open>queue_store\<close>
    states the laws of a family of disjoint queues and is interpreted on the link operations.
  \<^item> \<^verbatim>\<open>MM\<close>: \<open>src/kernel/mm/mm.c\<close>, \<open>pgtable.h\<close>, \<open>mm.h\<close>. \<^verbatim>\<open>MM_Alloc\<close>: the free list (locale \<^verbatim>\<open>page_allocator\<close>, interpreted on
    \<^verbatim>\<open>kalloc\<close> and \<^verbatim>\<open>kfree\<close>): pages handed out are fresh and zero and nothing in use changes. \<^verbatim>\<open>MM_Table\<close>: three-level page tables as a
    tree; mapping changes one translation. \<^verbatim>\<open>MM_Pages\<close>: page records, present and swapped queues, allocation on demand. \<^verbatim>\<open>MM_Inv\<close>: the
    accounting of pages is kept by every function of the memory manager.
  \<^item> \<^verbatim>\<open>E1000\<close>: \<open>src/drivers/e1000.c\<close>. The descriptor rings, shared with the device, are bounded FIFOs. \<^verbatim>\<open>Net\<close>:
    \<open>src/kernel/net/net.c\<close>, sending and receiving with processes that block.
  \<^item> \<^verbatim>\<open>Sched\<close>: the scheduling half of \<open>src/kernel/sched/sched.c\<close>, and \<open>time.c\<close>. \<^verbatim>\<open>Sched_Inv\<close>: the scheduling invariant (queues, process
    states and running processes agree). \<^verbatim>\<open>Sched_Live\<close>: round-robin steps, and no ready process starves.
  \<^item> \<^verbatim>\<open>Locks\<close>: \<open>src/kernel/locking/lock.c\<close>. Mutexes refine an owner with a FIFO of waiters; barriers and mailboxes.
  \<^item> \<^verbatim>\<open>Process\<close>: the other half of \<open>sched.c\<close> (creation, exit, kill, threads, waiting) and \<open>src/kernel/loader/loader.c\<close>.
    \<^verbatim>\<open>Process_Laws\<close>: failing and exiting; \<^verbatim>\<open>Exec_Args\<close>: a new process finds its arguments on its stack.
  \<^item> \<^verbatim>\<open>System\<close>: kernel entries as a step relation; every reachable state satisfies the scheduling invariant, and blocking calls
    return to some process. \<^verbatim>\<open>Smp\<close>: \<open>src/kernel/smp/smp.c\<close>; the harts interleave at single atomic operations, and the kernel lock
    makes every interleaving a sequence of whole kernel operations.
  \<^item> \<^verbatim>\<open>FS_Disk\<close>, \<^verbatim>\<open>FS\<close>, \<^verbatim>\<open>FS_File\<close>: \<open>src/kernel/fs/fs.c\<close> on the bytes of the card. \<^verbatim>\<open>FS_Laws\<close>: inodes are stored and read back;
    \<^verbatim>\<open>FS_Maps\<close>: the allocation maps; \<^verbatim>\<open>FS_Access\<close>: descriptors, the index tree of an inode, reading and writing; \<^verbatim>\<open>FS_Dirs\<close>: directories.
  \<^item> \<^verbatim>\<open>Irq\<close>, \<^verbatim>\<open>Irq_Laws\<close>: \<open>src/kernel/irq/irq.c\<close>; a page fault is resolved with a fresh page. \<^verbatim>\<open>Syscalls\<close>: the wrappers of
    \<open>src/tiny_libc/syscall.c\<close>, the table \<^verbatim>\<open>init_syscall\<close> and \<open>src/kernel/syscall/syscall.c\<close>; every wrapper reaches its kernel function.
  \<^item> \<^verbatim>\<open>Printk\<close>, \<^verbatim>\<open>Printk_Laws\<close>: \<open>src/libs/printk.c\<close> and the formatting of \<open>src/tiny_libc/printf.c\<close>; \<^verbatim>\<open>Libc\<close>: \<open>atoi.c\<close>, \<open>itoa.c\<close>, \<open>rand.c\<close>,
    \<open>mailbox.c\<close>. \<^verbatim>\<open>Screen\<close>, \<^verbatim>\<open>Screen_Laws\<close>: \<open>src/drivers/screen.c\<close> against a terminal that interprets the escape sequences.
  \<^item> \<^verbatim>\<open>Image\<close>, \<^verbatim>\<open>Image_Laws\<close>: \<open>src/tools/createimage.c\<close> and \<^verbatim>\<open>init_task_info\<close> of \<open>src/init/main.c\<close>; the loader finds what the tool wrote.
  \<^item> \<^verbatim>\<open>Boot\<close>, \<^verbatim>\<open>Boot_Laws\<close>: \<open>src/arch/riscv/kernel/boot.c\<close>, \<open>src/kernel/mm/ioremap.c\<close>, \<^verbatim>\<open>unmap_boot_page\<close> and \<^verbatim>\<open>init_pcb\<close>; the address space seen by
    the memory management unit. \<^verbatim>\<open>Bios\<close>: \<open>src/arch/riscv/bios/common.c\<close> and the jump table of \<open>src/include/os/kernel.h\<close>.
    \<^verbatim>\<open>Shell\<close>: \<open>src/test/shell.c\<close>, from keys to the call of \<^verbatim>\<open>sys_exec\<close>.

  \<^bold>\<open>What is and is not shown.\<close> Theorems state what the code does. Where it departs from what it means to do, the statement has the
  hypothesis that excludes the case (a bit below 31 in the allocation maps, a position inside one block for files), or is
  itself about the departure (full page table, fault on a present page, blanks before a number). The theorems on page tables
  concern the user half of the address space; the kernel half is shared and made of the large pages of the boot stage.

  \<^bold>\<open>Not modelled.\<close> The assembly files (register save and restore, context switch, boot block, program entry): the C code sees them as
  the change of the current process and as calls. Cache and TLB maintenance, which has no effect on the modelled state. The composition of
  \<^verbatim>\<open>main\<close>: its initialisation functions are modelled one by one, on the records of their components. Messages printed before a
  panic, the command line and the messages of the image tool. Headers that only define constants, and the programs under \<open>src/test\<close> other
  than the shell, which exercise the system calls by hand.
\<close>

end
